(* ===== verification/VmmPrelude.thy ===== *)
theory VmmPrelude
  imports Main "HOL-Library.Monad_Syntax" "HOL-Library.Word"
begin

text \<open>
  Shared vocabulary of the development: the fixed-width arithmetic of the C code on natural
  numbers, the alignment macros of \<^verbatim>\<open>common/include/vmm_defs.h\<close>, the assertion macros of
  \<^verbatim>\<open>vmm/include/vmm_dbg.h\<close>, bounds-checked array accesses, and the list and option lemmas
  the component theories share.

  Fallible code returns an \<^typ>\<open>'a option\<close>.  \<^const>\<open>None\<close> means that control does not come back
  from the call: the CPU is parked in a dead loop, spins on a lock that nobody releases, or
  touches memory outside the object it indexes.  A C function that reports failure by
  \<^verbatim>\<open>FALSE\<close> or \<^verbatim>\<open>NULL\<close> does return, and its result is an ordinary value.

  The assertion macros exist in two variants in \<^verbatim>\<open>vmm_dbg.h\<close>.  The variant that stops the CPU is
  between \<^verbatim>\<open>#if 0\<close> and \<^verbatim>\<open>#else\<close>; the variant that is compiled evaluates the condition and
  goes on.  Both are modelled: every operation that contains an assertion takes the flag
  \<open>chk\<close>, which is \<^const>\<open>True\<close> for the stopping variant and \<^const>\<open>False\<close> for the compiled one.
  A theorem that holds for every \<open>chk\<close> speaks about both builds.
\<close>

section \<open>Assertions\<close>

definition vmm_assert :: "bool \<Rightarrow> bool \<Rightarrow> unit option" where
  "vmm_assert chk c = (if chk \<and> \<not> c then None else Some ())"

definition vmm_deadloop :: "bool \<Rightarrow> unit option" where
  "vmm_deadloop chk = (if chk then None else Some ())"

section \<open>Fixed-width unsigned arithmetic on natural numbers\<close>

definition u31 :: "nat \<Rightarrow> nat" where
  "u31 n = n mod 2 ^ 31"

definition u32 :: "nat \<Rightarrow> nat" where
  "u32 n = n mod 2 ^ 32"

definition u64 :: "nat \<Rightarrow> nat" where
  "u64 n = n mod 2 ^ 64"

definition u32_sub :: "nat \<Rightarrow> nat \<Rightarrow> nat" where
  "u32_sub a b = (a + (2 ^ 32 - b mod 2 ^ 32)) mod 2 ^ 32"

definition u64_sub :: "nat \<Rightarrow> nat \<Rightarrow> nat" where
  "u64_sub a b = (a + (2 ^ 64 - b mod 2 ^ 64)) mod 2 ^ 64"

abbreviation PAGE_4KB_SIZE :: nat where
  "PAGE_4KB_SIZE \<equiv> 4096"

definition align_backward :: "nat \<Rightarrow> nat \<Rightarrow> nat" where
  "align_backward a b = a - a mod b"

definition align_forward :: "nat \<Rightarrow> nat \<Rightarrow> nat" where
  "align_forward a b = align_backward (u64 (a + b - 1)) b"

section \<open>Bounds-checked arrays\<close>

definition arr_get :: "'a list \<Rightarrow> nat \<Rightarrow> 'a option" where
  "arr_get xs i = (if i < length xs then Some (xs ! i) else None)"

definition arr_set :: "'a list \<Rightarrow> nat \<Rightarrow> 'a \<Rightarrow> 'a list option" where
  "arr_set xs i v = (if i < length xs then Some (xs[i := v]) else None)"

text \<open>The loop \<^verbatim>\<open>for (k = i; k < lim; ++k) xs[k] = f(k);\<close>\<close>

function arr_fill :: "(nat \<Rightarrow> 'a) \<Rightarrow> 'a list \<Rightarrow> nat \<Rightarrow> nat \<Rightarrow> 'a list option" where
  "arr_fill f xs i lim =
     (if i < lim
      then do {
        xs' \<leftarrow> arr_set xs i (f i);
        arr_fill f xs' (Suc i) lim
      }
      else Some xs)"
  by pat_completeness auto
termination by (relation "measure (\<lambda>(f, xs, i, lim). lim - i)") auto

section \<open>Spin locks and raw memory\<close>

text \<open>
  A spin lock seen from the CPU that runs an operation: taking a free lock marks it taken,
  and spinning on a lock that is already taken does not come back.  Raw memory is a function
  from byte addresses to bytes.
\<close>

definition lock_acquire :: "bool \<Rightarrow> bool option" where
  "lock_acquire taken = (if taken then None else Some True)"

definition lock_release :: "bool \<Rightarrow> bool" where
  "lock_release taken = False"

type_synonym memory = "nat \<Rightarrow> nat"

definition vmm_memset :: "memory \<Rightarrow> nat \<Rightarrow> nat \<Rightarrow> nat \<Rightarrow> memory" where
  "vmm_memset m dest val count = (\<lambda>a. if dest \<le> a \<and> a < dest + count then val mod 256 else m a)"

section \<open>Shared lemmas\<close>

named_theorems width_simps "values that fit their width"

lemma vmm_assert_True [simp]: "vmm_assert chk True = Some ()"
  by (simp add: vmm_assert_def)

lemma vmm_assert_holds [simp]: "c \<Longrightarrow> vmm_assert chk c = Some ()"
  by (simp add: vmm_assert_def)

lemma vmm_assert_release [simp]: "vmm_assert False c = Some ()"
  by (simp add: vmm_assert_def)

lemma vmm_assert_checked [simp]: "vmm_assert True c = (if c then Some () else None)"
  by (simp add: vmm_assert_def)

lemma vmm_deadloop_simps [simp]:
  "vmm_deadloop True = None"
  "vmm_deadloop False = Some ()"
  by (simp_all add: vmm_deadloop_def)

lemma u31_id [width_simps]: "n < 2 ^ 31 \<Longrightarrow> u31 n = n"
  by (simp add: u31_def)

lemma u32_id [width_simps]: "n < 2 ^ 32 \<Longrightarrow> u32 n = n"
  by (simp add: u32_def)

lemma u64_id [width_simps]: "n < 2 ^ 64 \<Longrightarrow> u64 n = n"
  by (simp add: u64_def)

lemma u32_sub_id [width_simps]: "b \<le> a \<Longrightarrow> a < 2 ^ 32 \<Longrightarrow> u32_sub a b = a - b"
  by (simp add: u32_sub_def mod_if)

lemma u64_sub_id [width_simps]: "b \<le> a \<Longrightarrow> a < 2 ^ 64 \<Longrightarrow> u64_sub a b = a - b"
  by (simp add: u64_sub_def mod_if)

lemma arr_get_inside [simp]: "i < length xs \<Longrightarrow> arr_get xs i = Some (xs ! i)"
  by (simp add: arr_get_def)

lemma arr_get_outside [simp]: "length xs \<le> i \<Longrightarrow> arr_get xs i = None"
  by (simp add: arr_get_def)

lemma arr_set_inside [simp]: "i < length xs \<Longrightarrow> arr_set xs i v = Some (xs[i := v])"
  by (simp add: arr_set_def)

lemma arr_set_outside [simp]: "length xs \<le> i \<Longrightarrow> arr_set xs i v = None"
  by (simp add: arr_set_def)

declare arr_fill.simps [simp del]

lemma arr_fill_inside:
  "i \<le> lim \<Longrightarrow> lim \<le> length xs \<Longrightarrow>
     arr_fill f xs i lim = Some (take i xs @ map f [i..<lim] @ drop lim xs)"
proof (induction f xs i lim rule: arr_fill.induct)
  case (1 f xs i lim)
  show ?case
  proof (cases "i < lim")
    case True
    then have "arr_fill f (xs[i := f i]) (Suc i) lim
        = Some (take (Suc i) (xs[i := f i]) @ map f [Suc i..<lim] @ drop lim (xs[i := f i]))"
      using 1 by simp
    moreover have "take (Suc i) (xs[i := f i]) = take i xs @ [f i]"
      using True 1(3) by (simp add: take_Suc_conv_app_nth)
    ultimately show ?thesis
      using True 1(3) by (subst arr_fill.simps) (simp add: upt_conv_Cons)
  next
    case False
    then show ?thesis
      using 1(2) by (subst arr_fill.simps) simp
  qed
qed

lemma arr_fill_outside: "i < lim \<Longrightarrow> length xs < lim \<Longrightarrow> arr_fill f xs i lim = None"
proof (induction f xs i lim rule: arr_fill.induct)
  case (1 f xs i lim)
  then show ?case
    by (subst arr_fill.simps) (cases "i < length xs"; cases "Suc i < lim"; simp add: arr_set_def)
qed

lemma arr_fill_empty [simp]: "lim \<le> i \<Longrightarrow> arr_fill f xs i lim = Some xs"
  by (subst arr_fill.simps) simp

lemma align_backward_le: "align_backward a b \<le> a"
  by (simp add: align_backward_def)

lemma align_backward_dvd: "b dvd align_backward a b"
  by (simp add: align_backward_def minus_mod_eq_mult_div)

lemma align_forward_props:
  assumes "0 < b" "a + b - 1 < 2 ^ 64"
  shows "a \<le> align_forward a b" "align_forward a b < a + b" "b dvd align_forward a b"
proof -
  have eq: "align_forward a b = (a + b - 1) - (a + b - 1) mod b"
    using assms(2) by (simp only: align_forward_def align_backward_def u64_id)
  have lt: "(a + b - 1) mod b < b"
    using assms(1) by simp
  have le: "(a + b - 1) mod b \<le> a + b - 1"
    by simp
  show "a \<le> align_forward a b" "align_forward a b < a + b"
    using lt le assms(1) unfolding eq by linarith+
  show "b dvd align_forward a b"
    unfolding eq by (simp add: minus_mod_eq_mult_div)
qed

lemma align_forward_id:
  assumes "b dvd a" "0 < b" "a + b - 1 < 2 ^ 64"
  shows "align_forward a b = a"
proof -
  note P = align_forward_props [OF assms(2,3)]
  have "b dvd align_forward a b - a" using P(3) assms(1) by (rule dvd_diff_nat)
  moreover have "align_forward a b - a < b" using P(1,2) by linarith
  ultimately have "align_forward a b - a = 0" by (metis nat_dvd_not_less neq0_conv)
  with P(1) show ?thesis by simp
qed

lemma align_forward_8:
  "a mod PAGE_4KB_SIZE = 0 \<Longrightarrow> a < 2 ^ 63 \<Longrightarrow> align_forward a 8 = a"
  by (intro align_forward_id)
     (auto simp: dvd_eq_mod_eq_0 [symmetric] intro: dvd_trans [of _ PAGE_4KB_SIZE])

end
