(* ===== verification/VmmHeap.thy ===== *)
theory VmmHeap
  imports VmmPrelude
begin

text \<open>
  The page heap of \<^verbatim>\<open>vmm/utils/heap.c\<close> and \<^verbatim>\<open>vmm/include/heap.h\<close>: an array of page
  descriptors, first-fit allocation of runs of pages, release with coalescing, and one
  extension of the heap by a second buffer.

  The static variables of the file are the fields of \<open>heap_state\<close>.  Page numbers and page
  counts are natural numbers, with the 32-bit (and, in a descriptor, 31-bit) truncation of the C
  types written out; addresses are natural numbers below \<open>2 ^ 64\<close>.  \<open>heap_array\<close> is the
  list of the descriptors that fit between the descriptor array and the first page
  (\<open>heap_array_addr\<close> is the pointer itself); an access beyond them is an access to
  memory that is not a descriptor and gives \<^const>\<open>None\<close>.  The contents of the pages are
  \<open>heap_mem\<close>.

  The abstract view is a list of blocks (\<open>block\<close>).  The section on refinement shows that the
  descriptor loops implement first fit and coalescing release on that list.
\<close>

section \<open>State\<close>

record heap_page_descriptor =
  number_of_pages :: nat
  in_use :: bool

record heap_state =
  heap_array :: "heap_page_descriptor list"
  heap_array_addr :: nat
  heap_base :: nat
  heap_total_pages :: nat
  heap_total_size :: nat
  heap_lock :: bool
  free_mem_callbacks :: "(nat \<times> nat) list"
  heap_pages :: nat
  ex_heap_base :: nat
  ex_heap_pages :: nat
  ex_heap_start_page :: nat
  max_used_pages :: nat
  heap_mem :: memory

text \<open>The values of the static variables before the first call.\<close>

definition heap_static_init :: "memory \<Rightarrow> heap_state" where
  "heap_static_init m = \<lparr>
     heap_array = [], heap_array_addr = 0, heap_base = 0, heap_total_pages = 0,
     heap_total_size = 0, heap_lock = False, free_mem_callbacks = [],
     heap_pages = 0, ex_heap_base = 0, ex_heap_pages = 0, ex_heap_start_page = 0,
     max_used_pages = 0, heap_mem = m \<rparr>"

definition HEAP_MAX_NUM_OF_RECORDED_CALLBACKS :: nat where
  "HEAP_MAX_NUM_OF_RECORDED_CALLBACKS = 20"

definition HEAP_INVALID_ALLOC_HANDLE :: nat where
  "HEAP_INVALID_ALLOC_HANDLE = 2 ^ 32 - 1"

abbreviation free_desc :: "nat \<Rightarrow> heap_page_descriptor" where
  "free_desc n \<equiv> \<lparr> number_of_pages = u31 n, in_use = False \<rparr>"

abbreviation used_desc :: "nat \<Rightarrow> heap_page_descriptor" where
  "used_desc n \<equiv> \<lparr> number_of_pages = u31 n, in_use = True \<rparr>"

section \<open>Operations\<close>

definition check_address_in_range :: "nat \<Rightarrow> nat \<Rightarrow> nat \<Rightarrow> bool" where
  "check_address_in_range a range_start bytes \<longleftrightarrow> range_start \<le> a \<and> a \<le> u64 (range_start + bytes)"

definition heap_page_to_pointer :: "heap_state \<Rightarrow> nat \<Rightarrow> nat" where
  "heap_page_to_pointer h page_no =
     (if ex_heap_start_page h \<le> page_no
      then u64 (ex_heap_base h
             + u32 (u32_sub (u32_sub page_no (ex_heap_start_page h)) 1 * PAGE_4KB_SIZE))
      else u64 (heap_base h + u32 (page_no * PAGE_4KB_SIZE)))"

definition heap_pointer_to_page :: "heap_state \<Rightarrow> nat \<Rightarrow> nat" where
  "heap_pointer_to_page h p =
     (if check_address_in_range p (ex_heap_base h) (u32 (ex_heap_pages h * PAGE_4KB_SIZE))
      then u32 (u32 (u64_sub p (ex_heap_base h) div PAGE_4KB_SIZE) + ex_heap_start_page h + 1)
      else u32 (u64_sub p (heap_base h) div PAGE_4KB_SIZE))"

definition vmm_heap_get_total_pages :: "heap_state \<Rightarrow> nat" where
  "vmm_heap_get_total_pages h = heap_total_pages h"

definition vmm_heap_get_max_used_pages :: "heap_state \<Rightarrow> nat" where
  "vmm_heap_get_max_used_pages h = max_used_pages h"

text \<open>The loop that makes the pages from \<open>i\<close> up to \<open>tot\<close> one free run.\<close>

definition heap_init_loop ::
    "heap_page_descriptor list \<Rightarrow> nat \<Rightarrow> nat \<Rightarrow> heap_page_descriptor list option" where
  "heap_init_loop arr i tot = arr_fill (\<lambda>k. free_desc (u32_sub tot k)) arr i tot"

text \<open>
  \<open>g_heap_pa_num\<close> is the variable of that name.  \<open>heap_layout\<close> computes the aligned address of the
  descriptor array, the estimate \<^verbatim>\<open>number_of_pages\<close>, the address of the first page and the number of
  pages.  All the memory in front of the first page, also the rest that its alignment leaves behind
  \<^verbatim>\<open>&heap_array[number_of_pages]\<close>, can hold descriptors of 4 bytes; \<open>raw\<close> is what it holds before it
  is initialised.
\<close>

definition heap_layout :: "nat \<Rightarrow> nat \<Rightarrow> nat \<Rightarrow> nat \<times> nat \<times> nat \<times> nat" where
  "heap_layout g_heap_pa_num heap_buffer_address heap_buffer_size =
     (let addr = align_forward heap_buffer_address 8;
          pages = u32 (u64 (heap_buffer_size + u32 (g_heap_pa_num * PAGE_4KB_SIZE))
                         div (PAGE_4KB_SIZE + 4));
          unaligned_heap_base = u64 (addr + 4 * pages);
          base = align_forward unaligned_heap_base PAGE_4KB_SIZE;
          bytes' = u64_sub heap_buffer_size (u64_sub base addr)
      in (addr, pages, base, u32 (bytes' div PAGE_4KB_SIZE)))"

definition vmm_heap_initialize ::
    "bool \<Rightarrow> nat \<Rightarrow> (nat \<Rightarrow> heap_page_descriptor) \<Rightarrow> nat \<Rightarrow> nat \<Rightarrow> heap_state
       \<Rightarrow> (nat \<times> heap_state) option" where
  "vmm_heap_initialize chk g_heap_pa_num raw heap_buffer_address heap_buffer_size h =
     (let (addr, pages, base, tot) = heap_layout g_heap_pa_num heap_buffer_address heap_buffer_size;
          total_size = u32 (align_forward heap_buffer_size PAGE_4KB_SIZE)
      in do {
        vmm_assert chk (0 < tot);
        arr \<leftarrow> heap_init_loop (map raw [0..<u64_sub base addr div 4]) 0 tot;
        Some (u64 (base + u32 (tot * PAGE_4KB_SIZE)),
              h \<lparr> heap_array := arr, heap_array_addr := addr, heap_base := base,
                  heap_total_pages := tot, heap_total_size := total_size,
                  heap_lock := False, heap_pages := tot,
                  ex_heap_start_page := u32 (pages + 1) \<rparr>)
      })"

definition vmm_heap_extend ::
    "bool \<Rightarrow> nat \<Rightarrow> nat \<Rightarrow> heap_state \<Rightarrow> (nat \<times> heap_state) option" where
  "vmm_heap_extend chk ex_heap_buffer_address ex_heap_buffer_size h = do {
     l \<leftarrow> lock_acquire (heap_lock h);
     vmm_assert chk (ex_heap_base h = 0);
     vmm_assert chk (\<not> check_address_in_range ex_heap_buffer_address
                         (heap_array_addr h) (heap_total_size h));
     vmm_assert chk (\<not> check_address_in_range (heap_array_addr h)
                         ex_heap_buffer_address ex_heap_buffer_size);
     let base = align_forward ex_heap_buffer_address 8;
     let total_size = u32 (heap_total_size h
                             + u32 (align_forward ex_heap_buffer_size PAGE_4KB_SIZE));
     let bytes' = u64_sub ex_heap_buffer_size (u64_sub base ex_heap_buffer_address);
     let pages = u32 (u32 (bytes' div PAGE_4KB_SIZE) + 1);
     let start = heap_total_pages h;
     let tot = u32 (heap_total_pages h + pages);
     vmm_assert chk (0 < tot);
     arr \<leftarrow> arr_set (heap_array h) start (used_desc 1);
     arr' \<leftarrow> heap_init_loop arr (u32 (start + 1)) tot;
     Some (u64 (base + u32 (pages * PAGE_4KB_SIZE)),
           h \<lparr> heap_array := arr', heap_total_size := total_size, heap_total_pages := tot,
               ex_heap_base := base, ex_heap_pages := pages, ex_heap_start_page := start,
               heap_lock := lock_release l \<rparr>)
   }"

text \<open>
  \<open>page_alloc_unprotected\<close>: the outer loop looks for the first free page whose run is long
  enough, the inner one marks the rest of the block.
\<close>

function heap_find_run :: "bool \<Rightarrow> heap_state \<Rightarrow> nat \<Rightarrow> nat \<Rightarrow> nat option option" where
  "heap_find_run chk h n i =
     (if i < heap_total_pages h
      then do {
        d \<leftarrow> arr_get (heap_array h) i;
        if \<not> in_use d \<and> n \<le> number_of_pages d
        then do {
          vmm_assert chk (u32 (i + number_of_pages d) \<le> heap_total_pages h);
          Some (Some i)
        }
        else heap_find_run chk h n (Suc i)
      }
      else Some None)"
  by pat_completeness auto
termination by (relation "measure (\<lambda>(chk, h, n, i). heap_total_pages h - i)") auto

definition heap_mark_in_use ::
    "heap_page_descriptor list \<Rightarrow> nat \<Rightarrow> nat \<Rightarrow> heap_page_descriptor list option" where
  "heap_mark_in_use arr i lim = arr_fill (\<lambda>k. used_desc 0) arr i lim"

definition page_alloc_unprotected :: "bool \<Rightarrow> nat \<Rightarrow> heap_state \<Rightarrow> (nat \<times> heap_state) option" where
  "page_alloc_unprotected chk n h =
     (if n = 0 then Some (0, h)
      else do {
        found \<leftarrow> heap_find_run chk h n 0;
        case found of
          None \<Rightarrow> Some (0, h)
        | Some page_no \<Rightarrow> do {
            arr \<leftarrow> arr_set (heap_array h) page_no (used_desc n);
            arr' \<leftarrow> heap_mark_in_use arr (u32 (page_no + 1)) (u32 (page_no + n));
            Some (heap_page_to_pointer h page_no,
                  h \<lparr> heap_array := arr',
                      max_used_pages := (if max_used_pages h < u32 (page_no + n)
                                         then u32 (page_no + n) else max_used_pages h) \<rparr>)
          }
      })"

definition vmm_page_allocate :: "bool \<Rightarrow> nat \<Rightarrow> heap_state \<Rightarrow> (nat \<times> heap_state) option" where
  "vmm_page_allocate chk n h = do {
     l \<leftarrow> lock_acquire (heap_lock h);
     (p, h') \<leftarrow> page_alloc_unprotected chk n (h \<lparr> heap_lock := l \<rparr>);
     Some (p, h' \<lparr> heap_lock := lock_release (heap_lock h') \<rparr>)
   }"

text \<open>
  \<open>vmm_page_allocate_scattered\<close> returns the number of allocated pages and the filled array;
  the first loop stops at the first failure, the second fills the rest with \<^verbatim>\<open>NULL\<close>.
\<close>

fun heap_scatter_loop :: "bool \<Rightarrow> nat \<Rightarrow> heap_state \<Rightarrow> (nat list \<times> heap_state) option" where
  "heap_scatter_loop chk 0 h = Some ([], h)"
| "heap_scatter_loop chk (Suc k) h = do {
     (p, h') \<leftarrow> page_alloc_unprotected chk 1 h;
     if p = 0 then Some ([], h')
     else do {
       (ps, h'') \<leftarrow> heap_scatter_loop chk k h';
       Some (p # ps, h'')
     }
   }"

definition vmm_page_allocate_scattered ::
    "bool \<Rightarrow> nat \<Rightarrow> heap_state \<Rightarrow> (nat \<times> nat list \<times> heap_state) option" where
  "vmm_page_allocate_scattered chk n h = do {
     l \<leftarrow> lock_acquire (heap_lock h);
     (ps, h') \<leftarrow> heap_scatter_loop chk n (h \<lparr> heap_lock := l \<rparr>);
     Some (length ps, ps @ replicate (n - length ps) 0,
           h' \<lparr> heap_lock := lock_release (heap_lock h') \<rparr>)
   }"

definition vmm_mark_pages_free ::
    "heap_page_descriptor list \<Rightarrow> nat \<Rightarrow> nat \<Rightarrow> nat \<Rightarrow> heap_page_descriptor list option" where
  "vmm_mark_pages_free arr page_from page_to pages_to_release =
     arr_fill (\<lambda>i. free_desc (u32_sub pages_to_release (u32_sub i page_from)))
       arr page_from page_to"

text \<open>The backward loop of \<open>vmm_page_free\<close>, structural in the page number.\<close>

fun heap_grab_backward :: "heap_page_descriptor list \<Rightarrow> nat \<Rightarrow> nat \<Rightarrow> (nat \<times> nat) option" where
  "heap_grab_backward arr 0 pages = Some (0, pages)"
| "heap_grab_backward arr (Suc k) pages = do {
     d \<leftarrow> arr_get arr k;
     if \<not> in_use d \<and> number_of_pages d \<noteq> 0
     then heap_grab_backward arr k (u32 (pages + 1))
     else Some (Suc k, pages)
   }"

text \<open>The merge with the region that follows the released one.\<close>

definition heap_merge_forward :: "heap_state \<Rightarrow> nat \<Rightarrow> nat \<Rightarrow> nat option" where
  "heap_merge_forward h to_page pages =
     (if to_page < heap_total_pages h
      then do {
        e \<leftarrow> arr_get (heap_array h) to_page;
        Some (if \<not> in_use e \<and> u32 (to_page + number_of_pages e) \<le> heap_total_pages h
              then u32 (pages + number_of_pages e) else pages)
      }
      else Some pages)"

definition heap_address_ok :: "heap_state \<Rightarrow> nat \<Rightarrow> bool" where
  "heap_address_ok h a \<longleftrightarrow>
     (check_address_in_range a (heap_base h) (u32 (heap_pages h * PAGE_4KB_SIZE)) \<or>
      check_address_in_range a (ex_heap_base h) (u32 (ex_heap_pages h * PAGE_4KB_SIZE))) \<and>
     a mod PAGE_4KB_SIZE = 0"

text \<open>
  \<open>vmm_page_free\<close>.  The branch for a page that is not in use returns after the (compiled-out)
  dead loop without releasing the lock, as in the source.
\<close>

definition vmm_page_free :: "bool \<Rightarrow> nat \<Rightarrow> heap_state \<Rightarrow> heap_state option" where
  "vmm_page_free chk p_buffer h =
     (if \<not> heap_address_ok h p_buffer
      then do { vmm_deadloop chk; Some h }
      else do {
        l \<leftarrow> lock_acquire (heap_lock h);
        let arr = heap_array h;
        let from_page = heap_pointer_to_page h p_buffer;
        d \<leftarrow> arr_get arr from_page;
        if \<not> in_use d \<or> number_of_pages d = 0
        then do { vmm_deadloop chk; Some (h \<lparr> heap_lock := l \<rparr>) }
        else do {
          let to_page = u32 (from_page + number_of_pages d);
          pages \<leftarrow> heap_merge_forward h to_page (number_of_pages d);
          (from_page', pages') \<leftarrow> heap_grab_backward arr from_page pages;
          arr' \<leftarrow> vmm_mark_pages_free arr from_page' to_page pages';
          Some (h \<lparr> heap_array := arr', heap_lock := lock_release l \<rparr>)
        }
      })"

definition vmm_page_buff_size :: "bool \<Rightarrow> nat \<Rightarrow> heap_state \<Rightarrow> nat option" where
  "vmm_page_buff_size chk p_buffer h =
     (if \<not> heap_address_ok h p_buffer
      then do { vmm_deadloop chk; Some 0 }
      else do {
        d \<leftarrow> arr_get (heap_array h) (heap_pointer_to_page h p_buffer);
        if \<not> in_use d \<or> number_of_pages d = 0
        then do { vmm_deadloop chk; Some 0 }
        else Some (number_of_pages d)
      })"

definition vmm_memory_allocate :: "bool \<Rightarrow> nat \<Rightarrow> heap_state \<Rightarrow> (nat \<times> heap_state) option" where
  "vmm_memory_allocate chk bytes h =
     (if bytes = 0 then Some (0, h)
      else do {
        let bytes' = align_backward (u32 (bytes + PAGE_4KB_SIZE - 1)) PAGE_4KB_SIZE;
        (p, h') \<leftarrow> vmm_page_allocate chk (bytes' div PAGE_4KB_SIZE) h;
        Some (p, if p \<noteq> 0 then h' \<lparr> heap_mem := vmm_memset (heap_mem h') p 0 bytes' \<rparr> else h')
      })"

definition vmm_heap_register_free_mem_callback ::
    "nat \<Rightarrow> nat \<Rightarrow> heap_state \<Rightarrow> nat \<times> heap_state" where
  "vmm_heap_register_free_mem_callback callback_func context h =
     (if length (free_mem_callbacks h) = HEAP_MAX_NUM_OF_RECORDED_CALLBACKS
      then (HEAP_INVALID_ALLOC_HANDLE, h)
      else (length (free_mem_callbacks h),
            h \<lparr> free_mem_callbacks := free_mem_callbacks h @ [(callback_func, context)] \<rparr>))"

text \<open>
  The registered callbacks are code of other components: \<open>call f c h\<close> is the effect of
  calling the function pointer \<open>f\<close> with context \<open>c\<close> on the heap.
\<close>

fun heap_run_callbacks ::
    "(nat \<Rightarrow> nat \<Rightarrow> heap_state \<Rightarrow> heap_state option) \<Rightarrow> nat \<Rightarrow> nat \<Rightarrow> (nat \<times> nat) list
       \<Rightarrow> heap_state \<Rightarrow> heap_state option" where
  "heap_run_callbacks call owner i [] h = Some h"
| "heap_run_callbacks call owner i ((f, c) # cbs) h =
     (if i = owner then heap_run_callbacks call owner (Suc i) cbs h
      else do { h' \<leftarrow> call f c h; heap_run_callbacks call owner (Suc i) cbs h' })"

definition vmm_memory_allocate_must_succeed ::
    "bool \<Rightarrow> (nat \<Rightarrow> nat \<Rightarrow> heap_state \<Rightarrow> heap_state option) \<Rightarrow> nat \<Rightarrow> nat \<Rightarrow> heap_state
       \<Rightarrow> (nat \<times> heap_state) option" where
  "vmm_memory_allocate_must_succeed chk call handle bytes h = do {
     (p, h1) \<leftarrow> vmm_memory_allocate chk bytes h;
     if p \<noteq> 0 then Some (p, h1)
     else do {
       h2 \<leftarrow> heap_run_callbacks call (u32 handle) 0 (free_mem_callbacks h1) h1;
       (q, h3) \<leftarrow> vmm_memory_allocate chk bytes h2;
       vmm_assert chk (q \<noteq> 0);
       Some (q, h3)
     }
   }"

section \<open>Abstract view: a list of blocks\<close>

datatype block = Free nat | Used nat

primrec block_size :: "block \<Rightarrow> nat" where
  "block_size (Free n) = n"
| "block_size (Used n) = n"

primrec block_descs :: "block \<Rightarrow> heap_page_descriptor list" where
  "block_descs (Free n) = map (\<lambda>k. \<lparr> number_of_pages = n - k, in_use = False \<rparr>) [0..<n]"
| "block_descs (Used n) = \<lparr> number_of_pages = n, in_use = True \<rparr>
     # replicate (n - 1) \<lparr> number_of_pages = 0, in_use = True \<rparr>"

definition descs :: "block list \<Rightarrow> heap_page_descriptor list" where
  "descs bs = concat (map block_descs bs)"

definition pages_of :: "block list \<Rightarrow> nat" where
  "pages_of bs = sum_list (map block_size bs)"

primrec is_free :: "block \<Rightarrow> bool" where
  "is_free (Free n) = True"
| "is_free (Used n) = False"

text \<open>No two neighbouring free blocks.\<close>

fun coalesced :: "block list \<Rightarrow> bool" where
  "coalesced (Free m # Free n # bs) = False"
| "coalesced (b # bs) = coalesced bs"
| "coalesced [] = True"

text \<open>The blocks that a descriptor array describes.\<close>

fun blocks_of :: "heap_page_descriptor list \<Rightarrow> block list" where
  "blocks_of [] = []"
| "blocks_of (d # ds) =
     (if in_use d then Used (number_of_pages d) else Free (number_of_pages d))
       # blocks_of (drop (number_of_pages d - 1) ds)"

definition heap_abs :: "heap_state \<Rightarrow> block list" where
  "heap_abs h = blocks_of (take (heap_total_pages h) (heap_array h))"

text \<open>An allocated block of \<open>n\<close> pages starts at page \<open>p\<close>.\<close>

fun used_at :: "block list \<Rightarrow> nat \<Rightarrow> nat \<Rightarrow> bool" where
  "used_at [] p n = False"
| "used_at (b # bs) p n =
     (if p = 0 then b = Used n else block_size b \<le> p \<and> used_at bs (p - block_size b) n)"

text \<open>First fit on blocks: the page number of the new block and the new list.\<close>

fun alloc_blocks :: "nat \<Rightarrow> block list \<Rightarrow> (nat \<times> block list) option" where
  "alloc_blocks n [] = None"
| "alloc_blocks n (b # bs) =
     (case b of
        Free m \<Rightarrow>
          if n \<le> m then Some (0, Used n # (if n < m then Free (m - n) # bs else bs))
          else map_option (\<lambda>(p, bs'). (m + p, b # bs')) (alloc_blocks n bs)
      | Used m \<Rightarrow> map_option (\<lambda>(p, bs'). (m + p, b # bs')) (alloc_blocks n bs))"

text \<open>Release of the block of \<open>n\<close> pages between \<open>xs\<close> and \<open>ys\<close>, merged with free neighbours.\<close>

definition split_last_free :: "block list \<Rightarrow> block list \<times> nat" where
  "split_last_free xs =
     (if xs = [] then (xs, 0)
      else case last xs of Free m \<Rightarrow> (butlast xs, m) | Used _ \<Rightarrow> (xs, 0))"

fun split_first_free :: "block list \<Rightarrow> nat \<times> block list" where
  "split_first_free (Free k # ys) = (k, ys)"
| "split_first_free ys = (0, ys)"

definition release_block :: "block list \<Rightarrow> nat \<Rightarrow> block list \<Rightarrow> block list" where
  "release_block xs n ys =
     (let (xs', m) = split_last_free xs; (k, ys') = split_first_free ys
      in xs' @ Free (m + n + k) # ys')"

fun free_blocks :: "block list \<Rightarrow> nat \<Rightarrow> block list \<Rightarrow> block list option" where
  "free_blocks xs p [] = None"
| "free_blocks xs p (b # bs) =
     (if p = 0 then (case b of Used n \<Rightarrow> Some (release_block xs n bs) | Free _ \<Rightarrow> None)
      else if block_size b \<le> p then free_blocks (xs @ [b]) (p - block_size b) bs
      else None)"

text \<open>
  The invariant of the descriptor array, and of the addresses of the two buffers.  The page
  \<open>ex_heap_start_page\<close> of an extended heap is the boundary page, which stays in use.
\<close>

definition heap_inv :: "heap_state \<Rightarrow> bool" where
  "heap_inv h \<longleftrightarrow>
     heap_total_pages h \<le> length (heap_array h) \<and>
     heap_total_pages h < 2 ^ 20 \<and>
     take (heap_total_pages h) (heap_array h) = descs (heap_abs h) \<and>
     (\<forall>b \<in> set (heap_abs h). 0 < block_size b) \<and>
     coalesced (heap_abs h) \<and>
     (ex_heap_pages h \<noteq> 0 \<longrightarrow> used_at (heap_abs h) (ex_heap_start_page h) 1)"

definition heap_addr_ok :: "heap_state \<Rightarrow> bool" where
  "heap_addr_ok h \<longleftrightarrow>
     heap_base h mod PAGE_4KB_SIZE = 0 \<and> 0 < heap_base h \<and>
     heap_base h + heap_pages h * PAGE_4KB_SIZE < 2 ^ 64 \<and>
     (if ex_heap_pages h = 0
      then ex_heap_base h = 0 \<and> heap_total_pages h = heap_pages h \<and>
           heap_total_pages h \<le> ex_heap_start_page h
      else ex_heap_base h mod PAGE_4KB_SIZE = 0 \<and> 0 < ex_heap_base h \<and>
           ex_heap_base h + ex_heap_pages h * PAGE_4KB_SIZE < 2 ^ 64 \<and>
           ex_heap_start_page h = heap_pages h \<and>
           heap_total_pages h = heap_pages h + ex_heap_pages h \<and>
           (heap_base h + heap_pages h * PAGE_4KB_SIZE \<le> ex_heap_base h \<or>
            ex_heap_base h + ex_heap_pages h * PAGE_4KB_SIZE < heap_base h))"

definition heap_ok :: "heap_state \<Rightarrow> bool" where
  "heap_ok h \<longleftrightarrow> heap_inv h \<and> heap_addr_ok h \<and> \<not> heap_lock h"

text \<open>The buffers that are allocated: their address and length in pages.\<close>

definition heap_live :: "heap_state \<Rightarrow> nat \<Rightarrow> nat \<Rightarrow> bool" where
  "heap_live h a n \<longleftrightarrow>
     heap_address_ok h a \<and>
     (ex_heap_pages h \<noteq> 0 \<longrightarrow> heap_pointer_to_page h a \<noteq> ex_heap_start_page h) \<and>
     heap_page_to_pointer h (heap_pointer_to_page h a) = a \<and>
     used_at (heap_abs h) (heap_pointer_to_page h a) n"

text \<open>
  When \<open>vmm_heap_initialize\<close> sets up one descriptor more than fits in front of the first page, for a
  page-aligned buffer.
\<close>

definition descriptors_short :: "nat \<Rightarrow> nat \<Rightarrow> bool" where
  "descriptors_short g bytes \<longleftrightarrow> g = 0 \<and> bytes div 4100 mod 1024 = 0 \<and> PAGE_4KB_SIZE \<le> bytes mod 4100"

text \<open>The heaps that allocations and releases of allocated buffers can make of a heap.\<close>

inductive heap_run :: "bool \<Rightarrow> heap_state \<Rightarrow> heap_state \<Rightarrow> bool" for chk h where
  start: "heap_run chk h h"
| allocate: "heap_run chk h h' \<Longrightarrow> vmm_page_allocate chk n h' = Some (a, h'') \<Longrightarrow> heap_run chk h h''"
| release: "heap_run chk h h' \<Longrightarrow> heap_live h' a n \<Longrightarrow> vmm_page_free chk a h' = Some h'' \<Longrightarrow> heap_run chk h h''"

text \<open>A small heap with two allocated blocks, used to instantiate the properties.\<close>

definition heap_example :: heap_state where
  "heap_example = (heap_static_init (\<lambda>_. 7)) \<lparr>
     heap_array := descs [Used 2, Free 3, Used 1] @ replicate 6 (used_desc 0),
     heap_array_addr := 8144, heap_base := 8192, heap_total_pages := 6,
     heap_total_size := 32768, heap_pages := 6, ex_heap_start_page := 13 \<rparr>"

section \<open>Lemmas on blocks and on the search loop\<close>

declare heap_find_run.simps [simp del]

lemma descs_simps [simp]:
  "descs [] = []"
  "descs (b # bs) = block_descs b @ descs bs"
  "descs (xs @ ys) = descs xs @ descs ys"
  by (simp_all add: descs_def)

lemma pages_of_simps [simp]:
  "pages_of [] = 0"
  "pages_of (b # bs) = block_size b + pages_of bs"
  "pages_of (xs @ ys) = pages_of xs + pages_of ys"
  by (simp_all add: pages_of_def)

lemma length_block_descs [simp]: "0 < block_size b \<Longrightarrow> length (block_descs b) = block_size b"
  by (cases b) simp_all

lemma length_descs: "\<forall>b \<in> set bs. 0 < block_size b \<Longrightarrow> length (descs bs) = pages_of bs"
  by (induction bs) simp_all

lemma blocks_of_descs: "\<forall>b \<in> set bs. 0 < block_size b \<Longrightarrow> blocks_of (descs bs) = bs"
proof (induction bs)
  case (Cons b bs)
  then show ?case
    by (cases b) (auto simp: upt_conv_Cons)
qed simp

lemma heap_invI:
  assumes "take (heap_total_pages h) (heap_array h) = descs bs"
    and "heap_total_pages h \<le> length (heap_array h)" "heap_total_pages h < 2 ^ 20"
    and "\<forall>b \<in> set bs. 0 < block_size b" "coalesced bs"
    and "ex_heap_pages h \<noteq> 0 \<Longrightarrow> used_at bs (ex_heap_start_page h) 1"
  shows "heap_inv h" "heap_abs h = bs"
proof -
  show abs: "heap_abs h = bs"
    using assms(1,4) by (simp add: heap_abs_def blocks_of_descs)
  show "heap_inv h"
    using assms by (simp add: heap_inv_def abs)
qed

lemma heap_inv_pages_of: "heap_inv h \<Longrightarrow> pages_of (heap_abs h) = heap_total_pages h"
  using length_descs [of "heap_abs h"]
  by (metis heap_inv_def length_take min.absorb2)

lemma nth_free_descs [simp]:
  "k < n \<Longrightarrow> block_descs (Free n) ! k = \<lparr> number_of_pages = n - k, in_use = False \<rparr>"
  by simp

subsection \<open>The search loop is first fit\<close>

lemma heap_find_run_skip:
  assumes "\<And>k. k < m \<Longrightarrow> in_use (heap_array h ! (i + k)) \<or> number_of_pages (heap_array h ! (i + k)) < n"
    and "i + m \<le> heap_total_pages h" "heap_total_pages h \<le> length (heap_array h)"
  shows "heap_find_run chk h n i = heap_find_run chk h n (i + m)"
  using assms
proof (induction m arbitrary: i)
  case (Suc m)
  from Suc.prems(1) [of 0] Suc.prems(2,3)
  have "heap_find_run chk h n i = heap_find_run chk h n (Suc i)"
    by (subst heap_find_run.simps) auto
  moreover have "heap_find_run chk h n (Suc i) = heap_find_run chk h n (Suc i + m)"
  proof (rule Suc.IH)
    show "in_use (heap_array h ! (Suc i + k)) \<or> number_of_pages (heap_array h ! (Suc i + k)) < n"
      if "k < m" for k
      using Suc.prems(1) [of "Suc k"] that by simp
  qed (use Suc.prems in auto)
  ultimately show ?case
    by simp
qed simp

lemma heap_find_run_blocks:
  assumes "take (heap_total_pages h) (heap_array h) = pre @ descs bs"
    and "heap_total_pages h \<le> length (heap_array h)" "heap_total_pages h < 2 ^ 20"
    and "\<forall>b \<in> set bs. 0 < block_size b" "0 < n"
  shows "heap_find_run chk h n (length pre)
           = Some (map_option (\<lambda>(p, _). length pre + p) (alloc_blocks n bs))"
  using assms
proof (induction bs arbitrary: pre)
  case Nil
  from arg_cong [OF Nil.prems(1), of length] Nil.prems(2)
  have "length pre = heap_total_pages h" by simp
  then show ?case by (subst heap_find_run.simps) simp
next
  case (Cons b bs)
  let ?i = "length pre" and ?m = "block_size b"
  have len: "?i + ?m + pages_of bs = heap_total_pages h"
    using arg_cong [OF Cons.prems(1), of length] Cons.prems(2,4) length_descs [of bs] by simp
  have at: "heap_array h ! (?i + k) = block_descs b ! k" if "k < ?m" for k
  proof -
    have "heap_array h ! (?i + k) = take (heap_total_pages h) (heap_array h) ! (?i + k)"
      using len that by simp
    also have "\<dots> = block_descs b ! k"
      unfolding Cons.prems(1) using that Cons.prems(4) by (simp add: nth_append)
    finally show ?thesis .
  qed
  have step: "heap_find_run chk h n (?i + ?m)
      = Some (map_option (\<lambda>(p, _). ?i + ?m + p) (alloc_blocks n bs))"
    using Cons.IH [of "pre @ block_descs b"] Cons.prems by simp
  have skip: "heap_find_run chk h n ?i = heap_find_run chk h n (?i + ?m)"
    if "\<And>k. k < ?m \<Longrightarrow> in_use (block_descs b ! k) \<or> number_of_pages (block_descs b ! k) < n"
    using heap_find_run_skip [of ?m h ?i n chk] that at len Cons.prems(2) by simp
  show ?case
  proof (cases b)
    case (Used m)
    then have "heap_find_run chk h n ?i = heap_find_run chk h n (?i + ?m)"
      by (intro skip) (simp add: nth_Cons split: nat.splits)
    then show ?thesis
      using step Used by (simp add: option.map_comp comp_def case_prod_unfold add.assoc)
  next
    case (Free m)
    show ?thesis
    proof (cases "n \<le> m")
      case True
      have "0 < m" using Cons.prems(4) Free by simp
      then have "heap_array h ! ?i = \<lparr> number_of_pages = m, in_use = False \<rparr>"
        using at [of 0] Free by simp
      then show ?thesis
        using True Free len \<open>0 < m\<close> Cons.prems(2,3)
        by (subst heap_find_run.simps) (simp add: width_simps)
    next
      case False
      then have "heap_find_run chk h n ?i = heap_find_run chk h n (?i + ?m)"
        using Free by (intro skip) simp
      then show ?thesis
        using step Free False by (simp add: option.map_comp comp_def case_prod_unfold add.assoc)
    qed
  qed
qed

subsection \<open>First fit on blocks\<close>

lemma coalesced_Cons:
  "coalesced (b # bs) \<longleftrightarrow> coalesced bs \<and> \<not> (is_free b \<and> bs \<noteq> [] \<and> is_free (hd bs))"
  by (cases b; cases bs; cases "hd bs") auto

lemma coalesced_append:
  "coalesced (xs @ ys) \<longleftrightarrow> coalesced xs \<and> coalesced ys \<and>
     \<not> (xs \<noteq> [] \<and> ys \<noteq> [] \<and> is_free (last xs) \<and> is_free (hd ys))"
  by (induction xs) (auto simp: coalesced_Cons hd_append)

lemma used_at_append:
  "\<forall>b \<in> set xs. 0 < block_size b \<Longrightarrow>
     used_at (xs @ ys) p n \<longleftrightarrow>
       used_at xs p n \<or> (pages_of xs \<le> p \<and> used_at ys (p - pages_of xs) n)"
  by (induction xs arbitrary: p) auto

lemma used_at_split:
  "\<forall>b \<in> set bs. 0 < block_size b \<Longrightarrow>
     used_at bs p n \<longleftrightarrow> (\<exists>xs ys. bs = xs @ Used n # ys \<and> pages_of xs = p)"
proof (induction bs arbitrary: p)
  case (Cons b bs)
  have pos: "0 < block_size b" using Cons.prems by simp
  show ?case
  proof (cases "p = 0")
    case True
    have "(\<exists>xs ys. b # bs = xs @ Used n # ys \<and> pages_of xs = 0) \<longleftrightarrow> b = Used n"
    proof
      assume "\<exists>xs ys. b # bs = xs @ Used n # ys \<and> pages_of xs = 0"
      then obtain xs ys where *: "b # bs = xs @ Used n # ys" "pages_of xs = 0" by blast
      with pos show "b = Used n" by (cases xs) auto
    qed (auto intro: exI [of _ "[]"])
    with True show ?thesis by simp
  next
    case False
    have "(\<exists>xs ys. b # bs = xs @ Used n # ys \<and> pages_of xs = p) \<longleftrightarrow>
          block_size b \<le> p \<and> (\<exists>xs ys. bs = xs @ Used n # ys \<and> pages_of xs = p - block_size b)"
    proof
      assume "\<exists>xs ys. b # bs = xs @ Used n # ys \<and> pages_of xs = p"
      then obtain xs ys where "b # bs = xs @ Used n # ys" "pages_of xs = p" by blast
      with False show "block_size b \<le> p \<and> (\<exists>xs ys. bs = xs @ Used n # ys \<and> pages_of xs = p - block_size b)"
        by (cases xs) auto
    next
      assume "block_size b \<le> p \<and> (\<exists>xs ys. bs = xs @ Used n # ys \<and> pages_of xs = p - block_size b)"
      then obtain xs ys where "block_size b \<le> p" "bs = xs @ Used n # ys" "pages_of xs = p - block_size b"
        by blast
      then show "\<exists>xs ys. b # bs = xs @ Used n # ys \<and> pages_of xs = p"
        by (intro exI [of _ "b # xs"] exI [of _ ys]) simp
    qed
    with False Cons show ?thesis by simp
  qed
qed simp

lemma alloc_blocks_Some:
  assumes "alloc_blocks n bs = Some (p, bs')"
  obtains xs m ys where "bs = xs @ Free m # ys" "n \<le> m" "p = pages_of xs"
    "bs' = xs @ Used n # (if n < m then Free (m - n) # ys else ys)"
    "\<forall>k. Free k \<in> set xs \<longrightarrow> k < n"
  using assms
proof (induction bs arbitrary: p bs' thesis)
  case (Cons b bs)
  have rec: thesis if rec: "alloc_blocks n bs = Some (q, cs)" and "p = block_size b + q" "bs' = b # cs"
    "\<And>k. b = Free k \<Longrightarrow> k < n" for q cs
  proof -
    obtain xs m ys where *: "bs = xs @ Free m # ys" "n \<le> m" "q = pages_of xs"
      "cs = xs @ Used n # (if n < m then Free (m - n) # ys else ys)"
      "\<forall>k. Free k \<in> set xs \<longrightarrow> k < n"
      by (rule Cons.IH [OF _ rec])
    show thesis
      by (rule Cons.prems(1) [of "b # xs" m ys]) (use * that in auto)
  qed
  show ?case
  proof (cases b)
    case (Free m)
    show ?thesis
    proof (cases "n \<le> m")
      case True
      show ?thesis
        by (rule Cons.prems(1) [of "[]" m bs]) (use Free True Cons.prems(2) in auto)
    next
      case False
      with Free Cons.prems(2) show ?thesis
        by (auto intro: rec)
    qed
  next
    case (Used m)
    with Cons.prems(2) show ?thesis
      by (auto intro: rec)
  qed
qed simp

lemma alloc_blocks_None: "alloc_blocks n bs = None \<longleftrightarrow> (\<forall>m. Free m \<in> set bs \<longrightarrow> m < n)"
proof (induction bs)
  case (Cons b bs)
  then show ?case by (cases b) auto
qed simp

lemma drop_free_descs: "n \<le> m \<Longrightarrow> drop n (block_descs (Free m)) = (if n < m then block_descs (Free (m - n)) else [])"
  by (auto intro!: nth_equalityI)

lemma alloc_blocks_used_at:
  assumes "alloc_blocks n bs = Some (p, bs')" "\<forall>b \<in> set bs. 0 < block_size b" "0 < n"
  shows "used_at bs' q k \<longleftrightarrow> used_at bs q k \<or> (q = p \<and> k = n)" "\<not> used_at bs p k"
proof -
  from assms(1) obtain xs m ys where *: "bs = xs @ Free m # ys" "n \<le> m" "p = pages_of xs"
    "bs' = xs @ Used n # (if n < m then Free (m - n) # ys else ys)"
    by (rule alloc_blocks_Some)
  have pos: "\<forall>b \<in> set xs. 0 < block_size b" using assms(2) * by auto
  have no: "\<not> used_at xs (pages_of xs + j) k" for j k
    using pos by (induction xs) auto
  show "used_at bs' q k \<longleftrightarrow> used_at bs q k \<or> (q = p \<and> k = n)"
    using assms(3) * no [of 0] by (auto simp: used_at_append [OF pos] split: if_splits)
  show "\<not> used_at bs p k"
    using * no [of 0] by (auto simp: used_at_append [OF pos])
qed

lemma alloc_blocks_wf:
  assumes "alloc_blocks n bs = Some (p, bs')" "\<forall>b \<in> set bs. 0 < block_size b" "0 < n" "coalesced bs"
  shows "\<forall>b \<in> set bs'. 0 < block_size b" "coalesced bs'" "pages_of bs' = pages_of bs"
    "p + n \<le> pages_of bs"
proof -
  from assms(1) obtain xs m ys where *: "bs = xs @ Free m # ys" "n \<le> m" "p = pages_of xs"
    "bs' = xs @ Used n # (if n < m then Free (m - n) # ys else ys)"
    by (rule alloc_blocks_Some)
  then show "\<forall>b \<in> set bs'. 0 < block_size b" "pages_of bs' = pages_of bs" "p + n \<le> pages_of bs"
    using assms(2,3) by auto
  show "coalesced bs'"
    using assms(4) * by (auto simp: coalesced_append coalesced_Cons)
qed

lemma update_block:
  "0 < n \<Longrightarrow> n \<le> length f \<Longrightarrow>
     take (Suc (length a)) ((a @ f @ r)[length a := u]) @ replicate (n - 1) v
       @ drop (length a + n) ((a @ f @ r)[length a := u])
     = a @ (u # replicate (n - 1) v) @ drop n f @ r"
  by (cases f; cases n) (simp_all add: list_update_append)

lemma page_alloc_refines:
  assumes inv: "heap_inv h" and n: "0 < n"
  shows "page_alloc_unprotected chk n h =
    (case alloc_blocks n (heap_abs h) of
       None \<Rightarrow> Some (0, h)
     | Some (p, bs') \<Rightarrow>
         Some (heap_page_to_pointer h p,
               h \<lparr> heap_array := descs bs' @ drop (heap_total_pages h) (heap_array h),
                   max_used_pages := max (max_used_pages h) (p + n) \<rparr>))"
proof (cases "alloc_blocks n (heap_abs h)")
  case None
  then show ?thesis
    using heap_find_run_blocks [of h "[]" "heap_abs h" n chk] inv n
    by (simp add: page_alloc_unprotected_def heap_inv_def)
next
  case (Some r)
  obtain p bs' where r: "r = (p, bs')" by fastforce
  note I = inv [unfolded heap_inv_def]
  have find: "heap_find_run chk h n 0 = Some (Some p)"
    using heap_find_run_blocks [of h "[]" "heap_abs h" n chk] I n Some r by simp
  from Some r obtain xs m ys where *: "heap_abs h = xs @ Free m # ys" "n \<le> m" "p = pages_of xs"
    "bs' = xs @ Used n # (if n < m then Free (m - n) # ys else ys)"
    by (auto elim: alloc_blocks_Some)
  let ?T = "heap_total_pages h" and ?A = "heap_array h"
  have len: "pages_of xs + m + pages_of ys = ?T"
    using heap_inv_pages_of [OF inv] * by simp
  have lxs: "length (descs xs) = p"
    using length_descs [of xs] I * by auto
  have A: "?A = descs xs @ block_descs (Free m) @ descs ys @ drop ?T ?A"
    using I append_take_drop_id [of ?T ?A] * by simp
  have lA: "?T \<le> length ?A" "?T < 2 ^ 20" using I by auto
  have pn: "p + n \<le> ?T" "p < length ?A" using len lA n * by auto
  have "heap_mark_in_use (?A[p := used_desc n]) (u32 (p + 1)) (u32 (p + n))
      = Some (take (Suc p) (?A[p := used_desc n]) @ replicate (n - 1) (used_desc 0)
              @ drop (p + n) (?A[p := used_desc n]))"
    unfolding heap_mark_in_use_def
    using pn lA n by (simp add: width_simps arr_fill_inside map_replicate_const)
  also have "\<dots> = Some (descs xs @ (used_desc n # replicate (n - 1) (used_desc 0))
                   @ drop n (block_descs (Free m)) @ (descs ys @ drop ?T ?A))"
    using update_block [of n "block_descs (Free m)" "descs xs" "descs ys @ drop ?T ?A"
        "used_desc n" "used_desc 0"] n *(2)
    unfolding lxs A [symmetric] by simp
  also have "\<dots> = Some (descs bs' @ drop ?T ?A)"
    using pn lA unfolding drop_free_descs [OF *(2)] *(4) by (simp add: width_simps)
  finally have arr: "heap_mark_in_use (?A[p := used_desc n]) (u32 (p + 1)) (u32 (p + n))
      = Some (descs bs' @ drop ?T ?A)" .
  have "u32 (p + n) = p + n" using pn lA by (simp add: width_simps)
  then show ?thesis
    using find arr Some r n pn
    by (simp add: page_alloc_unprotected_def max_def)
qed

subsection \<open>Release\<close>

lemma split_last_free_props:
  assumes "split_last_free xs = (xs', m)" "\<forall>b \<in> set xs. 0 < block_size b" "coalesced xs"
  shows "descs xs = descs xs' @ block_descs (Free m)" "pages_of xs = pages_of xs' + m"
    "\<not> (xs' \<noteq> [] \<and> is_free (last xs'))" "coalesced xs'" "\<forall>b \<in> set xs'. 0 < block_size b"
    "used_at xs q j \<longleftrightarrow> used_at xs' q j"
proof -
  consider "m = 0" "xs' = xs" "xs = [] \<or> \<not> is_free (last xs)" | "xs = xs' @ [Free m]"
    using assms(1) unfolding split_last_free_def
    by (cases xs rule: rev_cases; cases "last xs") (auto split: if_splits)
  then have "descs xs = descs xs' @ block_descs (Free m) \<and> pages_of xs = pages_of xs' + m \<and>
    \<not> (xs' \<noteq> [] \<and> is_free (last xs')) \<and> coalesced xs' \<and> (\<forall>b \<in> set xs'. 0 < block_size b) \<and>
    (used_at xs q j \<longleftrightarrow> used_at xs' q j)"
    using assms(2,3) by cases (auto simp: coalesced_append used_at_append)
  then show "descs xs = descs xs' @ block_descs (Free m)" "pages_of xs = pages_of xs' + m"
    "\<not> (xs' \<noteq> [] \<and> is_free (last xs'))" "coalesced xs'" "\<forall>b \<in> set xs'. 0 < block_size b"
    "used_at xs q j \<longleftrightarrow> used_at xs' q j"
    by simp_all
qed

lemma split_first_free_props:
  assumes "split_first_free ys = (k, ys')" "\<forall>b \<in> set ys. 0 < block_size b" "coalesced ys"
  shows "descs ys = block_descs (Free k) @ descs ys'" "pages_of ys = k + pages_of ys'"
    "\<not> (ys' \<noteq> [] \<and> is_free (hd ys'))" "coalesced ys'" "\<forall>b \<in> set ys'. 0 < block_size b"
    "used_at ys q j \<longleftrightarrow> k \<le> q \<and> used_at ys' (q - k) j"
proof -
  consider "k = 0" "ys' = ys" "ys = [] \<or> \<not> is_free (hd ys)" | "ys = Free k # ys'"
    using assms(1) by (cases ys rule: split_first_free.cases) auto
  then have "descs ys = block_descs (Free k) @ descs ys' \<and> pages_of ys = k + pages_of ys' \<and>
    \<not> (ys' \<noteq> [] \<and> is_free (hd ys')) \<and> coalesced ys' \<and> (\<forall>b \<in> set ys'. 0 < block_size b) \<and>
    (used_at ys q j \<longleftrightarrow> k \<le> q \<and> used_at ys' (q - k) j)"
    using assms(2,3) by cases (auto simp: coalesced_Cons)
  then show "descs ys = block_descs (Free k) @ descs ys'" "pages_of ys = k + pages_of ys'"
    "\<not> (ys' \<noteq> [] \<and> is_free (hd ys'))" "coalesced ys'" "\<forall>b \<in> set ys'. 0 < block_size b"
    "used_at ys q j \<longleftrightarrow> k \<le> q \<and> used_at ys' (q - k) j"
    by simp_all
qed

lemma release_block_wf:
  assumes "\<forall>b \<in> set (xs @ Used n # ys). 0 < block_size b" "coalesced (xs @ Used n # ys)"
  shows "\<forall>b \<in> set (release_block xs n ys). 0 < block_size b" "coalesced (release_block xs n ys)"
    "pages_of (release_block xs n ys) = pages_of xs + n + pages_of ys"
    "used_at (release_block xs n ys) q j \<longleftrightarrow>
       used_at (xs @ Used n # ys) q j \<and> q \<noteq> pages_of xs"
proof -
  obtain xs' m k ys' where eqs: "split_last_free xs = (xs', m)" "split_first_free ys = (k, ys')"
    by fastforce
  have co: "coalesced xs" "coalesced ys" using assms(2) by (simp_all add: coalesced_append coalesced_Cons)
  have pos: "\<forall>b \<in> set xs. 0 < block_size b" "\<forall>b \<in> set ys. 0 < block_size b" "0 < n"
    using assms(1) by auto
  note L = split_last_free_props [OF eqs(1) pos(1) co(1)]
  note R = split_first_free_props [OF eqs(2) pos(2) co(2)]
  have eq: "release_block xs n ys = xs' @ Free (m + n + k) # ys'"
    by (simp add: release_block_def eqs)
  show "\<forall>b \<in> set (release_block xs n ys). 0 < block_size b"
    using L(5) R(5) pos(3) by (auto simp: eq)
  show "coalesced (release_block xs n ys)"
    using L(3,4) R(3,4) by (auto simp: eq coalesced_append coalesced_Cons)
  show "pages_of (release_block xs n ys) = pages_of xs + n + pages_of ys"
    using L(2) R(2) by (simp add: eq)
  have no: "\<not> used_at zs (pages_of zs + i) j" if "\<forall>b \<in> set zs. 0 < block_size b" for zs i
    using that by (induction zs) auto
  have "used_at xs' q j \<Longrightarrow> q \<noteq> pages_of xs"
    using no [OF L(5), of m] L(2) by auto
  then show "used_at (release_block xs n ys) q j \<longleftrightarrow>
       used_at (xs @ Used n # ys) q j \<and> q \<noteq> pages_of xs"
    unfolding eq used_at_append [OF pos(1)] used_at_append [OF L(5)] L(6)
    using L(2) R(6) pos(3) by (auto simp: add.assoc)
qed

lemma free_blocks_split:
  "\<forall>b \<in> set xs. 0 < block_size b \<Longrightarrow>
     free_blocks ws (pages_of xs) (xs @ Used n # ys) = Some (release_block (ws @ xs) n ys)"
  by (induction xs arbitrary: ws) auto

lemma heap_grab_backward_free:
  assumes "\<And>j. j < m \<Longrightarrow> \<not> in_use (arr ! (i + j)) \<and> number_of_pages (arr ! (i + j)) \<noteq> 0"
    and "i + m \<le> length arr" "pages + m < 2 ^ 32"
  shows "heap_grab_backward arr (i + m) pages = heap_grab_backward arr i (pages + m)"
  using assms
proof (induction m arbitrary: pages)
  case (Suc m)
  have "heap_grab_backward arr (i + Suc m) pages = heap_grab_backward arr (i + m) (pages + 1)"
    using Suc.prems(1) [of m] Suc.prems(2,3) by (simp add: width_simps)
  also have "\<dots> = heap_grab_backward arr i (pages + 1 + m)"
    using Suc.prems by (intro Suc.IH) simp_all
  finally show ?case by simp
qed simp

lemma last_descs_in_use:
  assumes "xs \<noteq> []" "\<not> is_free (last xs)" "\<forall>b \<in> set xs. 0 < block_size b"
  shows "0 < pages_of xs" "in_use (descs xs ! (pages_of xs - 1))"
proof -
  obtain zs u where xs: "xs = zs @ [Used u]"
    using assms(1,2) by (cases xs rule: rev_cases; cases "last xs") auto
  have len: "length (descs zs) = pages_of zs" using assms(3) xs by (intro length_descs) simp
  have u: "0 < u" using assms(3) xs by simp
  then show "0 < pages_of xs" by (simp add: xs)
  show "in_use (descs xs ! (pages_of xs - 1))"
    using u by (cases u) (simp_all add: xs nth_append len nth_Cons')
qed

lemma heap_grab_backward_blocks:
  assumes "split_last_free xs = (xs', m)" "\<forall>b \<in> set xs. 0 < block_size b" "coalesced xs"
    and "pages + m < 2 ^ 32"
  shows "heap_grab_backward (descs xs @ rest) (pages_of xs) pages = Some (pages_of xs', pages + m)"
proof -
  note L = split_last_free_props [OF assms(1-3)]
  have len: "length (descs xs') = pages_of xs'" by (rule length_descs [OF L(5)])
  have "heap_grab_backward (descs xs @ rest) (pages_of xs' + m) pages
      = heap_grab_backward (descs xs @ rest) (pages_of xs') (pages + m)"
    using assms(4) len by (intro heap_grab_backward_free) (auto simp: L(1) nth_append)
  also have "\<dots> = Some (pages_of xs', pages + m)"
  proof (cases "xs' = []")
    case False
    then have "0 < pages_of xs'" "in_use (descs xs' ! (pages_of xs' - 1))"
      using last_descs_in_use [of xs'] L(3,5) by auto
    then obtain i where i: "pages_of xs' = Suc i" "in_use (descs xs' ! i)"
      by (cases "pages_of xs'") auto
    then show ?thesis using len by (simp add: L(1) nth_append)
  qed simp
  finally show ?thesis by (simp add: L(2))
qed

lemma page_free_refines:
  assumes inv: "heap_inv h" and bs: "heap_abs h = xs @ Used n # ys"
    and a: "heap_address_ok h a" "heap_pointer_to_page h a = pages_of xs" and l: "\<not> heap_lock h"
  shows "vmm_page_free chk a h =
    Some (h \<lparr> heap_array := descs (release_block xs n ys) @ drop (heap_total_pages h) (heap_array h) \<rparr>)"
proof -
  let ?T = "heap_total_pages h" and ?A = "heap_array h" and ?p = "pages_of xs"
  obtain xs' m k ys' where eqs: "split_last_free xs = (xs', m)" "split_first_free ys = (k, ys')"
    by fastforce
  note I = inv [unfolded heap_inv_def bs]
  have co: "coalesced xs" "coalesced ys" using I by (simp_all add: coalesced_append coalesced_Cons)
  have pos: "\<forall>b \<in> set xs. 0 < block_size b" "\<forall>b \<in> set ys. 0 < block_size b" "0 < n"
    using I by auto
  note L = split_last_free_props [OF eqs(1) pos(1) co(1)]
  note R = split_first_free_props [OF eqs(2) pos(2) co(2)]
  have len: "?p + n + pages_of ys = ?T" using heap_inv_pages_of [OF inv] bs by simp
  have lA: "?T \<le> length ?A" "?T < 2 ^ 20" using I by auto
  have A: "?A = descs xs @ block_descs (Used n) @ descs ys @ drop ?T ?A"
    using I append_take_drop_id [of ?T ?A] by simp
  have lxs: "length (descs xs) = ?p" by (rule length_descs [OF pos(1)])
  have lxs': "length (descs xs') = pages_of xs'" by (rule length_descs [OF L(5)])
  have d: "?A ! ?p = \<lparr> number_of_pages = n, in_use = True \<rparr>"
    by (subst A) (simp add: nth_append lxs)
  have topg: "u32 (?p + n) = ?p + n" using len lA by (simp add: width_simps)
  have fwd: "heap_merge_forward h (?p + n) n = Some (n + k)"
  proof (cases ys)
    case Nil
    then show ?thesis using eqs(2) len by (simp add: heap_merge_forward_def)
  next
    case (Cons y zs)
    have "block_descs y \<noteq> []" using pos(2) Cons by (cases y) auto
    then have "?A ! (?p + n) = block_descs y ! 0"
      using pos(3) by (subst A) (simp add: nth_append lxs Cons)
    then have "?A ! (?p + n) = (case y of Free j \<Rightarrow> \<lparr> number_of_pages = j, in_use = False \<rparr>
                                | Used j \<Rightarrow> \<lparr> number_of_pages = j, in_use = True \<rparr>)"
      using pos(2) Cons by (cases y) auto
    then show ?thesis
      using eqs(2) Cons len lA pos(2) by (cases y) (auto simp: heap_merge_forward_def width_simps)
  qed
  have bwd: "heap_grab_backward ?A ?p (n + k) = Some (pages_of xs', n + k + m)"
    using heap_grab_backward_blocks [OF eqs(1) pos(1) co(1), of "n + k"
        "block_descs (Used n) @ descs ys @ drop ?T ?A"] L(2) R(2) len lA
    unfolding A [symmetric] by simp
  have "vmm_mark_pages_free ?A (pages_of xs') (?p + n) (n + k + m)
      = Some (take (pages_of xs') ?A
          @ map (\<lambda>i. free_desc (u32_sub (n + k + m) (u32_sub i (pages_of xs')))) [pages_of xs'..<?p + n]
          @ drop (?p + n) ?A)"
    unfolding vmm_mark_pages_free_def using len lA L(2) by (intro arr_fill_inside) simp_all
  moreover have "take (pages_of xs') ?A = descs xs'"
    by (subst A) (simp add: L(1) lxs')
  moreover have "drop (?p + n) ?A = block_descs (Free k) @ descs ys' @ drop ?T ?A"
    using pos(3) by (subst A) (simp add: lxs R(1) del: block_descs.simps)
  moreover have "map (\<lambda>i. free_desc (u32_sub (n + k + m) (u32_sub i (pages_of xs')))) [pages_of xs'..<?p + n]
      = take (m + n) (block_descs (Free (m + n + k)))"
    using len lA L(2) R(2) by (intro nth_equalityI) (auto simp: width_simps)
  moreover have "block_descs (Free k) = drop (m + n) (block_descs (Free (m + n + k)))"
    using drop_free_descs [of "m + n" "m + n + k"] by (cases "k = 0") simp_all
  ultimately have mark: "vmm_mark_pages_free ?A (pages_of xs') (?p + n) (n + k + m)
      = Some (descs (release_block xs n ys) @ drop ?T ?A)"
    by (simp add: release_block_def eqs del: block_descs.simps take_map drop_map)
  have pl: "?p < length ?A" using len lA pos(3) by simp
  have "h \<lparr> heap_array := arr, heap_lock := False \<rparr> = h \<lparr> heap_array := arr \<rparr>" for arr
    using l by (cases h) simp
  then show ?thesis
    using a l d pl topg fwd bwd mark pos(3)
    by (simp add: vmm_page_free_def lock_acquire_def lock_release_def Let_def)
qed

subsection \<open>Allocated blocks do not overlap\<close>

lemma used_at_end: "used_at bs p n \<Longrightarrow> p + n \<le> pages_of bs"
  by (induction bs arbitrary: p) (auto split: if_splits, fastforce)

lemma used_at_disjoint: "used_at bs p n \<Longrightarrow> used_at bs q m \<Longrightarrow> p < q \<Longrightarrow> p + n \<le> q"
proof (induction bs arbitrary: p q)
  case (Cons b bs)
  show ?case
  proof (cases "p = 0")
    case True
    with Cons.prems show ?thesis by auto
  next
    case False
    with Cons.prems have le: "block_size b \<le> p"
      and u: "used_at bs (p - block_size b) n" "used_at bs (q - block_size b) m"
      by auto
    have "p - block_size b + n \<le> q - block_size b"
      using le Cons.prems(3) by (intro Cons.IH [OF u]) linarith
    with le Cons.prems(3) show ?thesis by linarith
  qed
qed simp

lemma used_at_inj: "used_at bs p n \<Longrightarrow> used_at bs p m \<Longrightarrow> n = m"
  by (induction bs arbitrary: p) (auto split: if_splits)

subsection \<open>Addresses\<close>

lemma heap_page_to_pointer_first:
  assumes "heap_addr_ok h" "heap_total_pages h < 2 ^ 20" "p < heap_pages h"
  shows "heap_page_to_pointer h p = heap_base h + p * PAGE_4KB_SIZE"
proof -
  have "p < 2 ^ 20" "p < ex_heap_start_page h"
    using assms by (auto simp: heap_addr_ok_def split: if_splits)
  moreover have "heap_base h + p * PAGE_4KB_SIZE < 2 ^ 64"
    using assms(1,3) by (simp add: heap_addr_ok_def)
  ultimately show ?thesis
    by (simp add: heap_page_to_pointer_def width_simps)
qed

lemma heap_page_to_pointer_ex:
  assumes "heap_addr_ok h" "heap_total_pages h < 2 ^ 20" "heap_pages h < p" "p < heap_total_pages h"
  shows "heap_page_to_pointer h p = ex_heap_base h + (p - heap_pages h - 1) * PAGE_4KB_SIZE"
proof -
  have ex: "ex_heap_pages h \<noteq> 0" "ex_heap_start_page h = heap_pages h"
    "heap_total_pages h = heap_pages h + ex_heap_pages h"
    using assms by (auto simp: heap_addr_ok_def split: if_splits)
  have "p - heap_pages h - 1 \<le> ex_heap_pages h"
    using assms(4) ex(3) by simp
  from mult_le_mono1 [OF this, of PAGE_4KB_SIZE]
  have "ex_heap_base h + (p - heap_pages h - 1) * PAGE_4KB_SIZE < 2 ^ 64"
    using assms(1) ex(1) by (simp add: heap_addr_ok_def)
  then show ?thesis
    using assms(2-4) ex by (simp add: heap_page_to_pointer_def width_simps)
qed

lemma heap_pointer_roundtrip:
  assumes ok: "heap_addr_ok h" and t: "heap_total_pages h < 2 ^ 20"
    and p: "p < heap_total_pages h" "ex_heap_pages h \<noteq> 0 \<Longrightarrow> p \<noteq> ex_heap_start_page h"
  shows "heap_pointer_to_page h (heap_page_to_pointer h p) = p"
    "heap_address_ok h (heap_page_to_pointer h p)"
    "heap_page_to_pointer h p \<noteq> 0"
proof -
  let ?a = "heap_page_to_pointer h p"
  have "heap_pointer_to_page h ?a = p \<and> heap_address_ok h ?a \<and> ?a \<noteq> 0"
  proof (cases "p < heap_pages h")
    case True
    have a: "?a = heap_base h + p * PAGE_4KB_SIZE"
      using heap_page_to_pointer_first [OF ok t True] .
    have hp: "heap_pages h < 2 ^ 20" "ex_heap_pages h < 2 ^ 20"
      using ok t by (auto simp: heap_addr_ok_def split: if_splits)
    have notex: "\<not> check_address_in_range ?a (ex_heap_base h) (u32 (ex_heap_pages h * PAGE_4KB_SIZE))"
      using ok hp True unfolding a check_address_in_range_def
      by (auto simp: heap_addr_ok_def width_simps u64_def u32_def split: if_splits)
    have "?a < 2 ^ 64" "?a mod PAGE_4KB_SIZE = 0" "0 < ?a"
      using ok True unfolding a heap_addr_ok_def by (auto simp: mod_add_eq)
    moreover have "heap_pointer_to_page h ?a = p"
      unfolding heap_pointer_to_page_def using notex
      using \<open>?a < 2 ^ 64\<close> hp True by (simp add: a width_simps)
    moreover have "check_address_in_range ?a (heap_base h) (u32 (heap_pages h * PAGE_4KB_SIZE))"
      using ok hp True unfolding a check_address_in_range_def heap_addr_ok_def
      by (auto simp: width_simps)
    ultimately show ?thesis by (auto simp: heap_address_ok_def)
  next
    case False
    then have ex: "ex_heap_pages h \<noteq> 0" "ex_heap_start_page h = heap_pages h" "heap_pages h < p"
      "heap_total_pages h = heap_pages h + ex_heap_pages h" "0 < ex_heap_base h"
      "ex_heap_base h mod PAGE_4KB_SIZE = 0"
      "ex_heap_base h + ex_heap_pages h * PAGE_4KB_SIZE < 2 ^ 64"
      using ok p by (auto simp: heap_addr_ok_def split: if_splits)
    have a: "?a = ex_heap_base h + (p - heap_pages h - 1) * PAGE_4KB_SIZE"
      using heap_page_to_pointer_ex [OF ok t ex(3) p(1)] .
    have hp: "ex_heap_pages h < 2 ^ 20" using ex t by simp
    have lt: "p - heap_pages h - 1 < ex_heap_pages h" using ex p by simp
    have "check_address_in_range ?a (ex_heap_base h) (u32 (ex_heap_pages h * PAGE_4KB_SIZE))"
      using ex hp lt unfolding a check_address_in_range_def by (auto simp: width_simps)
    moreover have "?a < 2 ^ 64" "?a mod PAGE_4KB_SIZE = 0" "0 < ?a"
      using ex lt unfolding a by (auto simp: mod_add_eq)
    ultimately show ?thesis
      using ex p t lt hp by (simp add: heap_pointer_to_page_def heap_address_ok_def a width_simps)
  qed
  then show "heap_pointer_to_page h ?a = p" "heap_address_ok h ?a" "?a \<noteq> 0" by auto
qed

lemma heap_liveE:
  assumes "heap_ok h" "heap_live h a n"
  obtains p where "used_at (heap_abs h) p n" "a = heap_page_to_pointer h p"
    "heap_pointer_to_page h a = p" "p < heap_total_pages h" "p + n \<le> heap_total_pages h" "0 < n"
    "ex_heap_pages h \<noteq> 0 \<Longrightarrow> p \<noteq> ex_heap_start_page h"
proof -
  let ?p = "heap_pointer_to_page h a"
  have u: "used_at (heap_abs h) ?p n" using assms(2) by (simp add: heap_live_def)
  have inv: "heap_inv h" using assms(1) by (simp add: heap_ok_def)
  have e: "?p + n \<le> heap_total_pages h"
    using used_at_end [OF u] heap_inv_pages_of [OF inv] by simp
  have "0 < n"
    using u used_at_split [of "heap_abs h" ?p n] inv unfolding heap_inv_def by fastforce
  then show thesis
    using that [OF u] e assms(2) by (simp add: heap_live_def)
qed

lemma heap_liveI:
  assumes "heap_ok h" "used_at (heap_abs h) p n" "p < heap_total_pages h"
    "ex_heap_pages h \<noteq> 0 \<Longrightarrow> p \<noteq> ex_heap_start_page h"
  shows "heap_live h (heap_page_to_pointer h p) n"
  using heap_pointer_roundtrip [of h p] assms
  by (simp add: heap_live_def heap_ok_def heap_inv_def)

lemma heap_live_disjoint:
  assumes ok: "heap_ok h" and a: "heap_live h a n" and b: "heap_live h b m" and ne: "a \<noteq> b"
  shows "a + n * PAGE_4KB_SIZE \<le> b \<or> b + m * PAGE_4KB_SIZE \<le> a"
proof -
  have A: "heap_addr_ok h" and T: "heap_total_pages h < 2 ^ 20"
    and B: "ex_heap_pages h \<noteq> 0 \<Longrightarrow> used_at (heap_abs h) (ex_heap_start_page h) 1"
    using ok by (auto simp: heap_ok_def heap_inv_def)
  have key: "x + k * PAGE_4KB_SIZE \<le> y \<or> y + j * PAGE_4KB_SIZE \<le> x"
    if u: "used_at (heap_abs h) p k" "used_at (heap_abs h) q j" "p < q"
      and x: "x = heap_page_to_pointer h p" and y: "y = heap_page_to_pointer h q"
      and ends: "q + j \<le> heap_total_pages h" "0 < j"
      and nb: "ex_heap_pages h \<noteq> 0 \<Longrightarrow> p \<noteq> ex_heap_start_page h"
        "ex_heap_pages h \<noteq> 0 \<Longrightarrow> q \<noteq> ex_heap_start_page h"
    for p q k j x y
  proof -
    have le: "p + k \<le> q" using used_at_disjoint [OF u] .
    have "ex_heap_pages h = 0 \<Longrightarrow> q < heap_pages h"
      "ex_heap_pages h \<noteq> 0 \<Longrightarrow> ex_heap_start_page h = heap_pages h"
      using A ends by (simp_all add: heap_addr_ok_def)
    then consider "q < heap_pages h"
      | "p < heap_pages h" "heap_pages h < q" "ex_heap_pages h \<noteq> 0"
      | "heap_pages h < p"
      using nb by (metis linorder_neqE_nat)
    then show ?thesis
    proof cases
      case 1
      then have "x = heap_base h + p * PAGE_4KB_SIZE" "y = heap_base h + q * PAGE_4KB_SIZE"
        using heap_page_to_pointer_first [OF A T] u(3) x y by auto
      then show ?thesis using le by simp
    next
      case 2
      have s: "ex_heap_start_page h = heap_pages h"
        using A 2 by (auto simp: heap_addr_ok_def split: if_splits)
      have "p + k \<le> heap_pages h"
        using used_at_disjoint [OF u(1) B [OF 2(3)]] 2 s by simp
      moreover have "x = heap_base h + p * PAGE_4KB_SIZE"
        "y = ex_heap_base h + (q - heap_pages h - 1) * PAGE_4KB_SIZE"
        using heap_page_to_pointer_first [OF A T 2(1)] heap_page_to_pointer_ex [OF A T 2(2)]
          ends x y by auto
      ultimately show ?thesis
        using A 2 ends by (auto simp: heap_addr_ok_def split: if_splits)
    next
      case 3
      then have "x = ex_heap_base h + (p - heap_pages h - 1) * PAGE_4KB_SIZE"
        "y = ex_heap_base h + (q - heap_pages h - 1) * PAGE_4KB_SIZE"
        using heap_page_to_pointer_ex [OF A T] u(3) ends x y by auto
      moreover have "p - heap_pages h - 1 + k \<le> q - heap_pages h - 1" using le 3 by simp
      from mult_le_mono1 [OF this, of PAGE_4KB_SIZE]
      have "(p - heap_pages h - 1) * PAGE_4KB_SIZE + k * PAGE_4KB_SIZE
          \<le> (q - heap_pages h - 1) * PAGE_4KB_SIZE"
        by (simp only: add_mult_distrib)
      ultimately show ?thesis by simp
    qed
  qed
  obtain p where p: "used_at (heap_abs h) p n" "a = heap_page_to_pointer h p"
    "p + n \<le> heap_total_pages h" "0 < n" "ex_heap_pages h \<noteq> 0 \<Longrightarrow> p \<noteq> ex_heap_start_page h"
    using ok a by (rule heap_liveE) blast
  obtain q where q: "used_at (heap_abs h) q m" "b = heap_page_to_pointer h q"
    "q + m \<le> heap_total_pages h" "0 < m" "ex_heap_pages h \<noteq> 0 \<Longrightarrow> q \<noteq> ex_heap_start_page h"
    using ok b by (rule heap_liveE) blast
  have "p < q \<or> q < p" using ne p(2) q(2) by (metis nat_neq_iff)
  then show ?thesis
    using key [of p n q m a b] key [of q m p n b a] p q by blast
qed

subsection \<open>The allocator contract\<close>

lemma heap_record_id: "h \<lparr> heap_lock := heap_lock h \<rparr> = h"
  by simp

lemma heap_lock_irrelevant [simp]:
  "heap_abs (h \<lparr> heap_lock := l \<rparr>) = heap_abs h"
  "heap_inv (h \<lparr> heap_lock := l \<rparr>) = heap_inv h"
  "heap_page_to_pointer (h \<lparr> heap_lock := l \<rparr>) = heap_page_to_pointer h"
  by (simp_all add: heap_abs_def heap_inv_def heap_page_to_pointer_def fun_eq_iff)

lemma heap_update_pages:
  assumes inv: "heap_inv h" and len: "pages_of bs = heap_total_pages h"
    and wf: "\<forall>b \<in> set bs. 0 < block_size b" "coalesced bs"
    and bd: "ex_heap_pages h \<noteq> 0 \<Longrightarrow> used_at bs (ex_heap_start_page h) 1"
    and h': "h' = h \<lparr> heap_array := descs bs @ drop (heap_total_pages h) (heap_array h),
                     max_used_pages := u \<rparr>"
  shows "heap_inv h'" "heap_abs h' = bs"
proof -
  have l: "length (descs bs) = heap_total_pages h" using length_descs [OF wf(1)] len by simp
  have t: "heap_total_pages h < 2 ^ 20" using inv by (simp add: heap_inv_def)
  show "heap_inv h'" "heap_abs h' = bs"
    by (rule heap_invI [of h' bs]; use l t wf bd in \<open>simp add: h'\<close>)+
qed

lemma heap_addr_irrelevant:
  assumes "h' = h \<lparr> heap_array := arr, max_used_pages := u \<rparr>"
  shows "heap_addr_ok h' = heap_addr_ok h" "heap_address_ok h' = heap_address_ok h"
    "heap_page_to_pointer h' = heap_page_to_pointer h"
    "heap_pointer_to_page h' = heap_pointer_to_page h"
  by (simp_all add: assms heap_addr_ok_def heap_address_ok_def heap_page_to_pointer_def
      heap_pointer_to_page_def fun_eq_iff)

lemma vmm_page_allocate_fail:
  assumes "heap_ok h" "0 < n" "alloc_blocks n (heap_abs h) = None"
  shows "vmm_page_allocate chk n h = Some (0, h)"
proof -
  have "h \<lparr> heap_lock := False \<rparr> = h" using assms(1) by (cases h) (simp add: heap_ok_def)
  then show ?thesis
    using assms page_alloc_refines [of "h \<lparr> heap_lock := True \<rparr>" n chk]
    by (simp add: vmm_page_allocate_def lock_acquire_def lock_release_def heap_ok_def)
qed

lemma vmm_page_allocate_Some:
  assumes ok: "heap_ok h" and n: "0 < n" and al: "alloc_blocks n (heap_abs h) = Some (p, bs')"
  defines "h' \<equiv> h \<lparr> heap_array := descs bs' @ drop (heap_total_pages h) (heap_array h),
                     max_used_pages := max (max_used_pages h) (p + n) \<rparr>"
  shows "vmm_page_allocate chk n h = Some (heap_page_to_pointer h p, h')"
    and "heap_ok h'" and "heap_abs h' = bs'" and "p < heap_total_pages h"
    and "ex_heap_pages h \<noteq> 0 \<Longrightarrow> p \<noteq> ex_heap_start_page h"
    and "heap_live h' b k \<longleftrightarrow> heap_live h b k \<or> (b = heap_page_to_pointer h p \<and> k = n)"
    and "\<not> heap_live h (heap_page_to_pointer h p) k"
proof -
  have inv: "heap_inv h" and adr: "heap_addr_ok h" and l: "\<not> heap_lock h"
    using ok by (auto simp: heap_ok_def)
  have pos: "\<forall>b \<in> set (heap_abs h). 0 < block_size b" and co: "coalesced (heap_abs h)"
    using inv by (auto simp: heap_inv_def)
  note W = alloc_blocks_wf [OF al pos n co]
  note U = alloc_blocks_used_at [OF al pos n]
  have "h' \<lparr> heap_lock := False \<rparr> = h'" using l by (cases h) (simp add: h'_def)
  then show "vmm_page_allocate chk n h = Some (heap_page_to_pointer h p, h')"
    using al n l inv page_alloc_refines [of "h \<lparr> heap_lock := True \<rparr>" n chk]
    by (simp add: vmm_page_allocate_def lock_acquire_def lock_release_def h'_def)
  have bd: "ex_heap_pages h \<noteq> 0 \<Longrightarrow> used_at (heap_abs h) (ex_heap_start_page h) 1"
    using inv by (simp add: heap_inv_def)
  have I: "heap_inv h'" "heap_abs h' = bs'"
    using heap_update_pages [OF inv _ W(1,2) _ h'_def [THEN meta_eq_to_obj_eq]]
      W(3) heap_inv_pages_of [OF inv] U(1) bd by auto
  note A = heap_addr_irrelevant [OF h'_def [THEN meta_eq_to_obj_eq]]
  have f: "ex_heap_pages h' = ex_heap_pages h" "ex_heap_start_page h' = ex_heap_start_page h"
    "heap_total_pages h' = heap_total_pages h" "heap_lock h' = heap_lock h"
    by (simp_all add: h'_def)
  show ok': "heap_ok h'" using I adr l A f by (simp add: heap_ok_def)
  show abs': "heap_abs h' = bs'" by (rule I(2))
  show pt: "p < heap_total_pages h"
    using W(4) n heap_inv_pages_of [OF inv] by simp
  show pb: "ex_heap_pages h \<noteq> 0 \<Longrightarrow> p \<noteq> ex_heap_start_page h"
    using bd U(2) by blast
  have T: "heap_total_pages h < 2 ^ 20" using inv by (simp add: heap_inv_def)
  note RT = heap_pointer_roundtrip [OF adr T pt pb]
  show "\<not> heap_live h (heap_page_to_pointer h p) k"
    using U(2) RT by (simp add: heap_live_def)
  show "heap_live h' b k \<longleftrightarrow> heap_live h b k \<or> (b = heap_page_to_pointer h p \<and> k = n)"
    using RT pb by (auto simp: heap_live_def A f abs' U(1))
qed

lemma vmm_page_free_live:
  assumes ok: "heap_ok h" and live: "heap_live h a n"
  obtains h' where "vmm_page_free chk a h = Some h'" "heap_ok h'"
    "\<And>b k. heap_live h' b k \<longleftrightarrow> heap_live h b k \<and> b \<noteq> a"
    "free_blocks [] (heap_pointer_to_page h a) (heap_abs h) = Some (heap_abs h')"
    "h' = h \<lparr> heap_array := descs (heap_abs h') @ drop (heap_total_pages h) (heap_array h) \<rparr>"
proof -
  have inv: "heap_inv h" and adr: "heap_addr_ok h" and l: "\<not> heap_lock h"
    using ok by (auto simp: heap_ok_def)
  have pos: "\<forall>b \<in> set (heap_abs h). 0 < block_size b" and co: "coalesced (heap_abs h)"
    using inv by (auto simp: heap_inv_def)
  obtain xs ys where bs: "heap_abs h = xs @ Used n # ys" and p: "heap_pointer_to_page h a = pages_of xs"
    using live used_at_split [OF pos] by (auto simp: heap_live_def)
  let ?bs = "release_block xs n ys"
  define h' where "h' = h \<lparr> heap_array := descs ?bs @ drop (heap_total_pages h) (heap_array h) \<rparr>"
  have h'2: "h' = h \<lparr> heap_array := descs ?bs @ drop (heap_total_pages h) (heap_array h),
                      max_used_pages := max_used_pages h \<rparr>"
    by (simp add: h'_def)
  note W = release_block_wf [OF pos [unfolded bs] co [unfolded bs]]
  have bd: "ex_heap_pages h \<noteq> 0 \<Longrightarrow> used_at (heap_abs h) (ex_heap_start_page h) 1"
    using inv by (simp add: heap_inv_def)
  have nb: "ex_heap_pages h \<noteq> 0 \<Longrightarrow> pages_of xs \<noteq> ex_heap_start_page h"
    using live p by (auto simp: heap_live_def)
  have tp: "pages_of ?bs = heap_total_pages h" using W(3) heap_inv_pages_of [OF inv] bs by simp
  have bd': "ex_heap_pages h \<noteq> 0 \<Longrightarrow> used_at ?bs (ex_heap_start_page h) 1"
    using bd nb by (simp add: W(4) bs)
  have I: "heap_inv h'" "heap_abs h' = ?bs"
    by (rule heap_update_pages [OF inv tp W(1,2) _ h'2]; erule bd')+
  note A = heap_addr_irrelevant [OF h'2]
  have f: "ex_heap_pages h' = ex_heap_pages h" "ex_heap_start_page h' = ex_heap_start_page h"
    "heap_lock h' = heap_lock h"
    by (simp_all add: h'_def)
  show thesis
  proof
    show "vmm_page_free chk a h = Some h'"
      unfolding h'_def using live
      by (intro page_free_refines [OF inv bs _ p l]) (simp add: heap_live_def)
    show "heap_ok h'" using I adr l A f by (simp add: heap_ok_def)
    have aa: "heap_page_to_pointer h (pages_of xs) = a" using live p by (simp add: heap_live_def)
    show "heap_live h' b k \<longleftrightarrow> heap_live h b k \<and> b \<noteq> a" for b k
      using p aa by (auto simp: heap_live_def A f I(2) W(4) bs)
    show "free_blocks [] (heap_pointer_to_page h a) (heap_abs h) = Some (heap_abs h')"
      using free_blocks_split [of xs "[]" n ys] pos by (simp add: p bs I(2))
    show "h' = h \<lparr> heap_array := descs (heap_abs h') @ drop (heap_total_pages h) (heap_array h) \<rparr>"
      unfolding I(2) by (rule h'_def)
  qed
qed

lemma alloc_free_blocks:
  assumes "alloc_blocks n bs = Some (p, bs')" "\<forall>b \<in> set bs. 0 < block_size b" "coalesced bs"
  shows "free_blocks [] p bs' = Some bs"
proof -
  from assms(1) obtain xs m ys where *: "bs = xs @ Free m # ys" "n \<le> m" "p = pages_of xs"
    "bs' = xs @ Used n # (if n < m then Free (m - n) # ys else ys)"
    by (rule alloc_blocks_Some)
  have pos: "\<forall>b \<in> set xs. 0 < block_size b" using assms(2) * by auto
  have "split_last_free xs = (xs, 0)"
    using assms(3) * unfolding split_last_free_def
    by (cases "last xs") (auto simp: coalesced_append)
  moreover have "split_first_free ys = (0, ys)"
    using assms(3) * by (cases ys rule: split_first_free.cases) (auto simp: coalesced_append)
  ultimately have "release_block xs n (if n < m then Free (m - n) # ys else ys) = bs"
    using * by (auto simp: release_block_def)
  then show ?thesis
    using free_blocks_split [OF pos, of "[]" n] * by simp
qed

lemma heap_live_iff:
  assumes "heap_ok h"
  shows "heap_live h a n \<longleftrightarrow> (\<exists>p. used_at (heap_abs h) p n \<and> p < heap_total_pages h \<and>
           (ex_heap_pages h \<noteq> 0 \<longrightarrow> p \<noteq> ex_heap_start_page h) \<and> a = heap_page_to_pointer h p)"
  (is "?l \<longleftrightarrow> ?r")
proof
  assume ?l
  then show ?r using assms by (elim heap_liveE [of h a n]) auto
next
  assume ?r
  then show ?l using heap_liveI [OF assms] by blast
qed

locale page_allocator =
  fixes alloc :: "nat \<Rightarrow> 's \<Rightarrow> (nat \<times> 's) option"
    and free :: "nat \<Rightarrow> 's \<Rightarrow> 's option"
    and live :: "'s \<Rightarrow> nat \<Rightarrow> nat \<Rightarrow> bool"
    and ok :: "'s \<Rightarrow> bool"
  assumes alloc_total: "ok s \<Longrightarrow> \<exists>a s'. alloc n s = Some (a, s') \<and> ok s'"
    and alloc_null: "ok s \<Longrightarrow> alloc n s = Some (0, s') \<Longrightarrow> s' = s"
    and alloc_live: "ok s \<Longrightarrow> alloc n s = Some (a, s') \<Longrightarrow> a \<noteq> 0 \<Longrightarrow>
          live s' b k \<longleftrightarrow> live s b k \<or> (b = a \<and> k = n)"
    and alloc_fresh: "ok s \<Longrightarrow> alloc n s = Some (a, s') \<Longrightarrow> a \<noteq> 0 \<Longrightarrow> \<not> live s a k"
    and free_live: "ok s \<Longrightarrow> live s a n \<Longrightarrow>
          \<exists>s'. free a s = Some s' \<and> ok s' \<and> (\<forall>b k. live s' b k \<longleftrightarrow> live s b k \<and> b \<noteq> a)"
    and live_disjoint: "ok s \<Longrightarrow> live s a n \<Longrightarrow> live s b m \<Longrightarrow> a \<noteq> b \<Longrightarrow>
          a + n * PAGE_4KB_SIZE \<le> b \<or> b + m * PAGE_4KB_SIZE \<le> a"
    and live_aligned: "ok s \<Longrightarrow> live s a n \<Longrightarrow> a \<noteq> 0 \<and> a mod PAGE_4KB_SIZE = 0"
begin

lemma alloc_ok: "ok s \<Longrightarrow> alloc n s = Some (a, s') \<Longrightarrow> ok s'"
  using alloc_total [of s n] by auto

text \<open>A new buffer overlaps none of the buffers that were allocated before.\<close>

lemma alloc_disjoint:
  assumes "ok s" "alloc n s = Some (a, s')" "a \<noteq> 0" "live s b m"
  shows "a + n * PAGE_4KB_SIZE \<le> b \<or> b + m * PAGE_4KB_SIZE \<le> a"
proof (rule live_disjoint)
  show "ok s'" using alloc_ok assms by blast
  show "live s' a n" "live s' b m" using alloc_live [OF assms(1-3)] assms(4) by auto
  show "a \<noteq> b" using alloc_fresh [OF assms(1-3)] assms(4) by auto
qed

lemma alloc_aligned:
  assumes "ok s" "alloc n s = Some (a, s')" "a \<noteq> 0"
  shows "a mod PAGE_4KB_SIZE = 0"
  using live_aligned [OF alloc_ok [OF assms(1,2)]] alloc_live [OF assms] by blast

text \<open>Giving back a new buffer leaves the same buffers allocated as before.\<close>

lemma alloc_free_live:
  assumes "ok s" "alloc n s = Some (a, s')" "a \<noteq> 0"
  shows "\<exists>s''. free a s' = Some s'' \<and> ok s'' \<and> live s'' = live s"
proof -
  have "live s' a n" using alloc_live [OF assms] by blast
  then obtain s'' where s'': "free a s' = Some s''" "ok s''"
    "\<forall>b k. live s'' b k \<longleftrightarrow> live s' b k \<and> b \<noteq> a"
    using free_live alloc_ok [OF assms(1,2)] by blast
  have "live s'' b k \<longleftrightarrow> live s b k" for b k
    using s''(3) alloc_live [OF assms] alloc_fresh [OF assms] by auto
  then have "live s'' = live s" by (simp add: fun_eq_iff)
  with s'' show ?thesis by blast
qed

end

lemma vmm_page_allocate_cases:
  assumes ok: "heap_ok h"
  obtains "vmm_page_allocate chk n h = Some (0, h)" "n = 0 \<or> alloc_blocks n (heap_abs h) = None"
  | p bs' h' where "0 < n" "alloc_blocks n (heap_abs h) = Some (p, bs')"
      "vmm_page_allocate chk n h = Some (heap_page_to_pointer h p, h')"
      "h' = h \<lparr> heap_array := descs bs' @ drop (heap_total_pages h) (heap_array h),
                max_used_pages := max (max_used_pages h) (p + n) \<rparr>"
      "heap_ok h'" "heap_abs h' = bs'" "heap_page_to_pointer h p \<noteq> 0"
      "\<And>b k. heap_live h' b k \<longleftrightarrow> heap_live h b k \<or> (b = heap_page_to_pointer h p \<and> k = n)"
      "\<And>k. \<not> heap_live h (heap_page_to_pointer h p) k"
proof (cases "n = 0")
  case True
  have "h \<lparr> heap_lock := False \<rparr> = h" using ok by (cases h) (simp add: heap_ok_def)
  with True ok have "vmm_page_allocate chk n h = Some (0, h)"
    by (simp add: vmm_page_allocate_def page_alloc_unprotected_def lock_acquire_def
        lock_release_def heap_ok_def)
  with that(1) True show thesis by simp
next
  case False
  show thesis
  proof (cases "alloc_blocks n (heap_abs h)")
    case None
    with False that(1) vmm_page_allocate_fail [OF ok] show thesis by simp
  next
    case (Some r)
    then obtain p bs' where al: "alloc_blocks n (heap_abs h) = Some (p, bs')" by (cases r) simp
    have n: "0 < n" using False by simp
    have adr: "heap_addr_ok h" "heap_total_pages h < 2 ^ 20"
      using ok by (auto simp: heap_ok_def heap_inv_def)
    note S = vmm_page_allocate_Some [OF ok n al]
    show thesis
      by (rule that(2) [OF n al S(1) refl S(2,3) heap_pointer_roundtrip(3) [OF adr S(4,5)] S(6,7)])
  qed
qed

interpretation heap: page_allocator "vmm_page_allocate chk" "vmm_page_free chk" heap_live heap_ok
  for chk
proof
  fix s :: heap_state and s' n m a b k
  assume ok: "heap_ok s"
  show "\<exists>a s'. vmm_page_allocate chk n s = Some (a, s') \<and> heap_ok s'"
    by (rule vmm_page_allocate_cases [OF ok, of chk n]) (use ok in auto)
  show "vmm_page_allocate chk n s = Some (0, s') \<Longrightarrow> s' = s"
    by (rule vmm_page_allocate_cases [OF ok, of chk n]) auto
  show "heap_live s' b k \<longleftrightarrow> heap_live s b k \<or> (b = a \<and> k = n)"
    if "vmm_page_allocate chk n s = Some (a, s')" "a \<noteq> 0"
    by (rule vmm_page_allocate_cases [OF ok, of chk n]) (use that in auto)
  show "\<not> heap_live s a k" if "vmm_page_allocate chk n s = Some (a, s')" "a \<noteq> 0"
    by (rule vmm_page_allocate_cases [OF ok, of chk n]) (use that in auto)
  show "\<exists>s'. vmm_page_free chk a s = Some s' \<and> heap_ok s' \<and>
          (\<forall>b k. heap_live s' b k \<longleftrightarrow> heap_live s b k \<and> b \<noteq> a)" if "heap_live s a n"
    by (rule vmm_page_free_live [OF ok that, of chk]) auto
  show "a + n * PAGE_4KB_SIZE \<le> b \<or> b + m * PAGE_4KB_SIZE \<le> a"
    if "heap_live s a n" "heap_live s b m" "a \<noteq> b"
    by (rule heap_live_disjoint [OF ok that])
  show "a \<noteq> 0 \<and> a mod PAGE_4KB_SIZE = 0" if l: "heap_live s a n"
  proof -
    obtain p where "a = heap_page_to_pointer s p" "p < heap_total_pages s"
      "ex_heap_pages s \<noteq> 0 \<Longrightarrow> p \<noteq> ex_heap_start_page s"
      using ok l by (rule heap_liveE) blast
    then show ?thesis
      using heap_pointer_roundtrip(3) [of s p] ok l
      by (auto simp: heap_ok_def heap_inv_def heap_live_def heap_address_ok_def)
  qed
qed

subsection \<open>Initialisation and extension\<close>

lemma free_run_descs:
  "tot < 2 ^ 31 \<Longrightarrow> i \<le> tot \<Longrightarrow>
     map (\<lambda>k. free_desc (u32_sub tot k)) [i..<tot] = block_descs (Free (tot - i))"
  by (intro nth_equalityI) (simp_all add: width_simps)

text \<open>
  The arithmetic of \<open>vmm_heap_initialize\<close>: the pages fit in the buffer, and the descriptors that are
  set up fit in front of the first page except when no descriptors were reserved for an extension, the
  estimated descriptors fill whole pages and the rest of the division holds one more page.
\<close>

lemma page_multiple_unique:
  "a mod PAGE_4KB_SIZE = 0 \<Longrightarrow> b mod PAGE_4KB_SIZE = 0 \<Longrightarrow> x \<le> a \<Longrightarrow> a < x + PAGE_4KB_SIZE \<Longrightarrow>
     x \<le> b \<Longrightarrow> b < x + PAGE_4KB_SIZE \<Longrightarrow> a = b"
  for a b x :: nat
proof -
  assume h: "a mod PAGE_4KB_SIZE = 0" "b mod PAGE_4KB_SIZE = 0" "x \<le> a" "a < x + PAGE_4KB_SIZE"
    "x \<le> b" "b < x + PAGE_4KB_SIZE"
  then obtain i j where ij: "a = PAGE_4KB_SIZE * i" "b = PAGE_4KB_SIZE * j" by (auto simp: mod_eq_0_iff_dvd dvd_def)
  have "i \<le> j" "j \<le> i" using h(3-6) unfolding ij by linarith+
  then show "a = b" by (simp add: ij)
qed

lemma round_up_1024: "N \<le> (N + 1023) div 1024 * 1024" "(N + 1023) div 1024 * 1024 < N + 1024" for N :: nat
  using mult_div_mod_eq [of 1024 "N + 1023"] mod_less_divisor [of 1024 "N + 1023"] by linarith+

lemma heap_layout_eq:
  assumes adr: "addr mod PAGE_4KB_SIZE = 0" "addr + bytes < 2 ^ 63"
    and g: "bytes + g * PAGE_4KB_SIZE < 2 ^ 32"
    and room: "4 * N + 8192 \<le> bytes"
    and N_def: "N = (bytes + g * PAGE_4KB_SIZE) div 4100"
    and base_def: "base = addr + (N + 1023) div 1024 * PAGE_4KB_SIZE"
    and tot_def: "tot = (bytes - (base - addr)) div PAGE_4KB_SIZE"
  shows "heap_layout g addr bytes = (addr, N, base, tot)"
    and "addr + 4 * N \<le> base" "base < addr + 4 * N + PAGE_4KB_SIZE" "base mod PAGE_4KB_SIZE = 0"
    and "0 < tot" "tot < 2 ^ 20" "tot \<le> N + 1" "base + tot * PAGE_4KB_SIZE \<le> addr + bytes"
    and "u64_sub base addr = base - addr"
proof -
  have k: "N \<le> (N + 1023) div 1024 * 1024" "(N + 1023) div 1024 * 1024 < N + 1024" by (rule round_up_1024)+
  show bl: "addr + 4 * N \<le> base" "base < addr + 4 * N + PAGE_4KB_SIZE" "base mod PAGE_4KB_SIZE = 0"
    unfolding base_def using adr(1) k by simp_all
  have N: "4100 * N \<le> bytes + g * PAGE_4KB_SIZE" "bytes + g * PAGE_4KB_SIZE < 4100 * N + 4100"
    unfolding N_def by (simp_all add: div_times_less_eq_dividend mult.commute)
  have "addr + 4 * N + PAGE_4KB_SIZE - 1 < 2 ^ 64" using adr room by simp
  note B = align_forward_props [OF _ this, simplified]
  have al: "align_forward (addr + 4 * N) PAGE_4KB_SIZE = base"
    by (rule page_multiple_unique [OF _ bl(3) _ _ bl(1,2)]) (use B in \<open>auto simp: dvd_eq_mod_eq_0\<close>)
  have tp: "tot * PAGE_4KB_SIZE \<le> bytes - (base - addr)"
    unfolding tot_def by (simp add: div_times_less_eq_dividend)
  have "bytes - (base - addr) < PAGE_4KB_SIZE * (N + 2)"
    using N(2) bl(1) room by simp
  then have "tot < N + 2"
    unfolding tot_def by (simp add: less_mult_imp_div_less mult.commute)
  then show "tot \<le> N + 1" by simp
  show "0 < tot" unfolding tot_def using bl room by (simp add: div_greater_zero_iff)
  show tlt: "tot < 2 ^ 20" using tp g by simp
  show "base + tot * PAGE_4KB_SIZE \<le> addr + bytes" using tp bl room by simp
  have n: "u32 (u64 (bytes + u32 (g * PAGE_4KB_SIZE)) div (PAGE_4KB_SIZE + 4)) = N"
    using g N(1) by (simp add: width_simps N_def)
  show sub: "u64_sub base addr = base - addr"
    using bl room adr by (intro u64_sub_id; simp)
  have "u64_sub bytes (base - addr) = bytes - (base - addr)"
    using bl room adr by (intro u64_sub_id; simp)
  moreover have "u32 tot = tot" using tlt by (intro u32_id) simp
  ultimately have t: "u32 (u64_sub bytes (u64_sub base addr) div PAGE_4KB_SIZE) = tot"
    by (simp only: tot_def [symmetric] sub)
  have a8: "align_forward addr 8 = addr"
    by (rule align_forward_8 [OF adr(1)]) (use adr(2) in simp)
  have "u64 (addr + 4 * N) = addr + 4 * N" using adr(2) room by (simp add: width_simps)
  then show "heap_layout g addr bytes = (addr, N, base, tot)"
    by (simp only: heap_layout_def Let_def a8 n al t)
qed

lemma descriptors_fit:
  fixes k :: nat
  assumes N_def: "N = (bytes + g * PAGE_4KB_SIZE) div 4100" and room: "4 * N + 8192 \<le> bytes"
    and k_def: "k = (N + 1023) div 1024"
  shows "descriptors_short g bytes \<Longrightarrow> (bytes - k * PAGE_4KB_SIZE) div PAGE_4KB_SIZE = k * 1024 + 1"
    and "\<not> descriptors_short g bytes \<Longrightarrow> (bytes - k * PAGE_4KB_SIZE) div PAGE_4KB_SIZE \<le> k * 1024"
proof -
  have N: "4100 * N \<le> bytes + g * PAGE_4KB_SIZE" "bytes + g * PAGE_4KB_SIZE < 4100 * N + 4100"
    unfolding N_def by (simp_all add: div_times_less_eq_dividend mult.commute)
  have k: "N \<le> k * 1024" "k * 1024 < N + 1024" unfolding k_def by (rule round_up_1024)+
  show "(bytes - k * PAGE_4KB_SIZE) div PAGE_4KB_SIZE = k * 1024 + 1" if "descriptors_short g bytes"
  proof -
    have "g = 0" "N mod 1024 = 0" "4096 \<le> bytes mod 4100" "N = bytes div 4100"
      using that by (auto simp: descriptors_short_def N_def)
    moreover from this have "N = k * 1024"
      using k by (auto simp: mod_eq_0_iff_dvd dvd_def)
    ultimately have "bytes = 4100 * (k * 1024) + bytes mod 4100" by simp
    moreover obtain r where "r = bytes mod 4100" by simp
    ultimately have r: "bytes = 4100 * (k * 1024) + r" "4096 \<le> r" "r < 4100"
      using \<open>4096 \<le> bytes mod 4100\<close> by simp_all
    have "(k * 1024 + 1) * 4096 \<le> bytes - k * 4096" "bytes - k * 4096 < (k * 1024 + 2) * 4096"
      unfolding r(1) using r(2,3) by simp_all
    then show ?thesis by (intro div_nat_eqI) (simp_all add: mult.commute)
  qed
  show "(bytes - k * PAGE_4KB_SIZE) div PAGE_4KB_SIZE \<le> k * 1024" if n: "\<not> descriptors_short g bytes"
  proof -
    have "bytes - k * PAGE_4KB_SIZE < (k * 1024 + 1) * PAGE_4KB_SIZE"
    proof (cases "0 < g \<or> N < k * 1024")
      case True
      then show ?thesis using N k by auto
    next
      case False
      then have "g = 0" "N = k * 1024" "N = bytes div 4100" using k by (auto simp: N_def)
      then have "bytes mod 4100 < 4096" using n by (simp add: descriptors_short_def)
      moreover have "bytes = 4100 * (k * 1024) + bytes mod 4100"
        using \<open>N = k * 1024\<close> \<open>N = bytes div 4100\<close> by (metis mult_div_mod_eq)
      ultimately obtain r where "bytes = 4100 * (k * 1024) + r" "r < 4096" by blast
      then show ?thesis by simp
    qed
    then have "(bytes - k * PAGE_4KB_SIZE) div PAGE_4KB_SIZE < k * 1024 + 1"
      by (rule less_mult_imp_div_less)
    then show ?thesis by simp
  qed
qed

lemma heap_initialize_correct:
  assumes adr: "0 < addr" "addr mod PAGE_4KB_SIZE = 0" "addr + bytes < 2 ^ 63"
    and g: "bytes + g * PAGE_4KB_SIZE < 2 ^ 32"
    and room: "4 * ((bytes + g * PAGE_4KB_SIZE) div 4100) + 8192 \<le> bytes"
    and fit: "\<not> descriptors_short g bytes"
  shows "\<exists>h'. vmm_heap_initialize chk g raw addr bytes (heap_static_init m)
           = Some (heap_base h' + heap_total_pages h' * PAGE_4KB_SIZE, h') \<and>
         heap_ok h' \<and> 0 < heap_total_pages h' \<and> heap_abs h' = [Free (heap_total_pages h')] \<and>
         heap_array_addr h' = addr \<and> addr + 4 * length (heap_array h') = heap_base h' \<and>
         heap_base h' = addr + ((bytes + g * PAGE_4KB_SIZE) div 4100 + 1023) div 1024 * PAGE_4KB_SIZE \<and>
         heap_total_pages h' = (bytes - (heap_base h' - addr)) div PAGE_4KB_SIZE \<and>
         heap_total_size h' = u32 (align_forward bytes PAGE_4KB_SIZE) \<and> ex_heap_pages h' = 0 \<and>
         heap_base h' + heap_total_pages h' * PAGE_4KB_SIZE \<le> addr + bytes"
proof -
  define N where "N = (bytes + g * PAGE_4KB_SIZE) div 4100"
  define k where "k = (N + 1023) div 1024"
  define base where "base = addr + k * PAGE_4KB_SIZE"
  define tot where "tot = (bytes - (base - addr)) div PAGE_4KB_SIZE"
  note G = heap_layout_eq [OF adr(2,3) g room [folded N_def] N_def base_def [unfolded k_def] tot_def]
  have slots: "(base - addr) div 4 = k * 1024" by (simp add: base_def)
  have le: "tot \<le> k * 1024"
    using descriptors_fit(2) [OF N_def room [folded N_def] k_def fit] by (simp add: tot_def base_def)
  let ?arr = "block_descs (Free tot) @ drop tot (map raw [0..<k * 1024])"
  define h' where "h' = heap_static_init m \<lparr> heap_array := ?arr, heap_array_addr := addr,
      heap_base := base, heap_total_pages := tot,
      heap_total_size := u32 (align_forward bytes PAGE_4KB_SIZE), heap_lock := False,
      heap_pages := tot, ex_heap_start_page := u32 (N + 1) \<rparr>"
  have fill: "heap_init_loop (map raw [0..<k * 1024]) 0 tot = Some ?arr"
    unfolding heap_init_loop_def using le G(6)
    by (simp add: arr_fill_inside free_run_descs del: block_descs.simps)
  have "u64 (base + u32 (tot * PAGE_4KB_SIZE)) = base + tot * PAGE_4KB_SIZE"
    using G(6,8) adr(3) by (simp add: width_simps)
  then have run: "vmm_heap_initialize chk g raw addr bytes (heap_static_init m)
      = Some (base + tot * PAGE_4KB_SIZE, h')"
    using G(5) by (simp add: vmm_heap_initialize_def G(1,9) slots fill h'_def del: block_descs.simps)
  have "heap_inv h'" "heap_abs h' = [Free tot]"
    by (rule heap_invI [of h' "[Free tot]"]; use G(5,6) le in \<open>simp add: h'_def heap_static_init_def\<close>)+
  moreover have "heap_addr_ok h'"
    using G(2,4,7,8) adr g room
    by (simp add: h'_def heap_static_init_def heap_addr_ok_def width_simps N_def)
  moreover have "heap_base h' = base" "heap_total_pages h' = tot" "addr + 4 * length (heap_array h') = base"
    "heap_array_addr h' = addr" "heap_total_size h' = u32 (align_forward bytes PAGE_4KB_SIZE)"
    "ex_heap_pages h' = 0" "\<not> heap_lock h'"
    using le by (simp_all add: h'_def heap_static_init_def base_def)
  ultimately show ?thesis
    unfolding N_def [symmetric] k_def [symmetric] heap_ok_def
    using run G(5,8) tot_def base_def by (intro exI [of _ h']) simp
qed

lemma heap_initialize_short:
  assumes adr: "addr mod PAGE_4KB_SIZE = 0" "addr + bytes < 2 ^ 63"
    and g: "bytes < 2 ^ 32" and room: "4 * (bytes div 4100) + 8192 \<le> bytes"
    and short: "descriptors_short 0 bytes"
  shows "\<exists>pages base tot. heap_layout 0 addr bytes = (addr, pages, base, tot) \<and>
      addr + 4 * (tot - 1) = base \<and> 1 < tot \<and> base + tot * PAGE_4KB_SIZE \<le> addr + bytes"
    and "vmm_heap_initialize chk 0 raw addr bytes h = None"
proof -
  define N where "N = bytes div 4100"
  define k where "k = (N + 1023) div 1024"
  define base where "base = addr + k * PAGE_4KB_SIZE"
  define tot where "tot = (bytes - (base - addr)) div PAGE_4KB_SIZE"
  have N: "N = (bytes + 0 * PAGE_4KB_SIZE) div 4100" by (simp add: N_def)
  have g': "bytes + 0 * PAGE_4KB_SIZE < 2 ^ 32" using g by simp
  have room': "4 * N + 8192 \<le> bytes" using room by (simp add: N_def)
  note G = heap_layout_eq [OF adr g' room' N base_def [unfolded k_def] tot_def]
  have slots: "(base - addr) div 4 = k * 1024" by (simp add: base_def)
  have tot: "tot = k * 1024 + 1"
    using descriptors_fit(1) [OF N room' k_def short] by (simp add: tot_def base_def)
  have "0 < k" using room' short by (auto simp: k_def N_def descriptors_short_def)
  then show "\<exists>pages base tot. heap_layout 0 addr bytes = (addr, pages, base, tot) \<and>
      addr + 4 * (tot - 1) = base \<and> 1 < tot \<and> base + tot * PAGE_4KB_SIZE \<le> addr + bytes"
    using G(1,8) tot by (intro exI [of _ N] exI [of _ base] exI [of _ tot]) (simp add: base_def)
  have "heap_init_loop (map raw [0..<k * 1024]) 0 tot = None"
    unfolding heap_init_loop_def by (rule arr_fill_outside) (simp_all add: tot)
  then show "vmm_heap_initialize chk 0 raw addr bytes h = None"
    by (simp add: vmm_heap_initialize_def G(1,9) slots)
qed

lemma release_block_not_in_use:
  assumes "\<forall>b \<in> set (xs @ Used n # ys). 0 < block_size b" "coalesced (xs @ Used n # ys)"
  shows "\<not> in_use (descs (release_block xs n ys) ! pages_of xs)"
proof -
  obtain xs' m k ys' where eqs: "split_last_free xs = (xs', m)" "split_first_free ys = (k, ys')"
    by fastforce
  have co: "coalesced xs" and pos: "\<forall>b \<in> set xs. 0 < block_size b" "0 < n"
    using assms by (auto simp: coalesced_append)
  note L = split_last_free_props [OF eqs(1) pos(1) co]
  show ?thesis
    using pos(2) length_descs [OF L(5)] by (simp add: release_block_def eqs L(2) nth_append)
qed

lemma heap_double_free:
  assumes ok: "heap_ok h" and live: "heap_live h a n" and f: "vmm_page_free chk a h = Some h1"
  shows "vmm_page_free False a h1 = Some (h1 \<lparr> heap_lock := True \<rparr>)"
    "vmm_page_free True a h1 = None"
proof -
  obtain h' where h': "vmm_page_free chk a h = Some h'" "heap_ok h'"
    "h' = h \<lparr> heap_array := descs (heap_abs h') @ drop (heap_total_pages h) (heap_array h) \<rparr>"
    "free_blocks [] (heap_pointer_to_page h a) (heap_abs h) = Some (heap_abs h')"
    using ok live by (rule vmm_page_free_live) blast
  have eq: "h1 = h'" using f h'(1) by simp
  have inv: "heap_inv h" "heap_inv h'" using ok h'(2) by (auto simp: heap_ok_def)
  have pos: "\<forall>b \<in> set (heap_abs h). 0 < block_size b" and co: "coalesced (heap_abs h)"
    using inv by (auto simp: heap_inv_def)
  obtain xs ys where bs: "heap_abs h = xs @ Used n # ys" and p: "heap_pointer_to_page h a = pages_of xs"
    using live used_at_split [OF pos] by (auto simp: heap_live_def)
  have abs': "heap_abs h' = release_block xs n ys"
    using h'(4) free_blocks_split [of xs "[]" n ys] pos by (simp add: p bs)
  have "h \<lparr> heap_array := arr \<rparr> = h \<lparr> heap_array := arr, max_used_pages := max_used_pages h \<rparr>"
    for arr by simp
  note A = heap_addr_irrelevant [OF trans [OF h'(3) this]]
  have T: "heap_total_pages h' = heap_total_pages h" and l: "heap_lock h' = heap_lock h"
    and arr: "heap_array h' = descs (heap_abs h') @ drop (heap_total_pages h) (heap_array h)"
    by (subst h'(3), simp)+
  have lt: "pages_of xs < heap_total_pages h"
    using heap_inv_pages_of [OF inv(1)] bs pos by simp
  have "length (descs (heap_abs h')) = heap_total_pages h"
    using inv(2) length_descs heap_inv_pages_of [OF inv(2)] by (simp add: heap_inv_def T)
  then have "pages_of xs < length (heap_array h')" "\<not> in_use (heap_array h' ! pages_of xs)"
    using release_block_not_in_use [of xs n ys] pos co lt
    by (simp_all add: bs abs' arr nth_append)
  moreover have "heap_address_ok h' a" "heap_pointer_to_page h' a = pages_of xs" "\<not> heap_lock h'"
    using live p ok l by (simp_all add: heap_live_def heap_ok_def A)
  ultimately show "vmm_page_free False a h1 = Some (h1 \<lparr> heap_lock := True \<rparr>)"
    "vmm_page_free True a h1 = None"
    by (simp_all add: eq vmm_page_free_def lock_acquire_def)
qed

lemma heap_extend_array:
  assumes inv: "heap_inv h" and cap: "heap_total_pages h + k + 1 \<le> length (heap_array h)"
      "heap_total_pages h + k + 1 < 2 ^ 20"
  shows "heap_init_loop ((heap_array h)[heap_total_pages h := used_desc 1])
           (heap_total_pages h + 1) (heap_total_pages h + k + 1)
       = Some (descs (heap_abs h @ [Used 1, Free k])
                @ drop (heap_total_pages h + k + 1) (heap_array h))"
proof -
  let ?A = "heap_array h" and ?T = "heap_total_pages h"
  have tA: "take ?T ?A = descs (heap_abs h)" using inv by (simp add: heap_inv_def)
  have "heap_init_loop (?A[?T := used_desc 1]) (?T + 1) (?T + k + 1)
      = Some (take (?T + 1) (?A[?T := used_desc 1])
          @ map (\<lambda>i. free_desc (u32_sub (?T + k + 1) i)) [?T + 1..<?T + k + 1]
          @ drop (?T + k + 1) (?A[?T := used_desc 1]))"
    unfolding heap_init_loop_def using cap(1) by (intro arr_fill_inside) simp_all
  also have "take (?T + 1) (?A[?T := used_desc 1]) = descs (heap_abs h @ [Used 1])"
    using cap(1) tA by (simp add: take_Suc_conv_app_nth width_simps)
  also have "map (\<lambda>i. free_desc (u32_sub (?T + k + 1) i)) [?T + 1..<?T + k + 1]
      = block_descs (Free k)"
    using free_run_descs [of "?T + k + 1" "?T + 1"] cap(2) by simp
  finally show ?thesis by simp
qed

lemma heap_extend_correct:
  assumes ok: "heap_ok h" and first: "ex_heap_pages h = 0"
    and adr: "0 < addr" "addr mod PAGE_4KB_SIZE = 0" "addr + bytes + PAGE_4KB_SIZE < 2 ^ 63"
      "PAGE_4KB_SIZE \<le> bytes"
    and cap: "heap_total_pages h + bytes div PAGE_4KB_SIZE + 1 \<le> length (heap_array h)"
      "heap_total_pages h + bytes div PAGE_4KB_SIZE + 1 < 2 ^ 20"
    and chks: "\<not> check_address_in_range addr (heap_array_addr h) (heap_total_size h)"
      "\<not> check_address_in_range (heap_array_addr h) addr bytes"
    and sep: "heap_base h + heap_pages h * PAGE_4KB_SIZE \<le> addr \<or>
      addr + (bytes div PAGE_4KB_SIZE + 1) * PAGE_4KB_SIZE < heap_base h"
  shows "\<exists>h'. vmm_heap_extend chk addr bytes h
            = Some (addr + (bytes div PAGE_4KB_SIZE + 1) * PAGE_4KB_SIZE, h') \<and>
          heap_ok h' \<and> heap_abs h' = heap_abs h @ [Used 1, Free (bytes div PAGE_4KB_SIZE)] \<and>
          (\<forall>a n. heap_live h' a n \<longleftrightarrow> heap_live h a n)"
proof -
  let ?T = "heap_total_pages h"
  define k where "k = bytes div PAGE_4KB_SIZE"
  have k: "0 < k" "k * PAGE_4KB_SIZE \<le> bytes" "k < 2 ^ 20"
    using adr(4) cap(2) by (auto simp: k_def div_greater_zero_iff div_times_less_eq_dividend)
  have inv: "heap_inv h" and A: "heap_addr_ok h" and l: "\<not> heap_lock h"
    using ok by (auto simp: heap_ok_def)
  have a8: "align_forward addr 8 = addr"
    by (rule align_forward_8 [OF adr(2)]) (use adr(3) in simp)
  have exb: "ex_heap_base h = 0" "heap_pages h = ?T"
    using A first by (auto simp: heap_addr_ok_def)
  let ?bs = "heap_abs h @ [Used 1, Free k]"
  define h' where "h' = h \<lparr> heap_array := descs ?bs @ drop (?T + k + 1) (heap_array h),
      heap_total_size := u32 (heap_total_size h + u32 (align_forward bytes PAGE_4KB_SIZE)),
      heap_total_pages := ?T + k + 1, ex_heap_base := addr, ex_heap_pages := k + 1,
      ex_heap_start_page := ?T \<rparr>"
  have w: "u64_sub bytes (u64_sub addr addr) = bytes" "u32 (?T + 1) = ?T + 1" "u32 k = k"
    "u32 (k + 1) = k + 1" "u32 (?T + (k + 1)) = ?T + k + 1"
    "u64 (addr + u32 ((k + 1) * PAGE_4KB_SIZE)) = addr + (k + 1) * PAGE_4KB_SIZE"
    using cap(2) k adr(3) by (simp_all add: width_simps k_def [symmetric])
  have "h' \<lparr> heap_lock := False \<rparr> = h'" using l by (cases h) (simp add: h'_def)
  then have run: "vmm_heap_extend chk addr bytes h = Some (addr + (k + 1) * PAGE_4KB_SIZE, h')"
    using l chks exb w cap heap_extend_array [OF inv, of k]
    by (simp add: vmm_heap_extend_def a8 Let_def lock_acquire_def lock_release_def
        k_def [symmetric] h'_def)
  have bs: "\<forall>b \<in> set ?bs. 0 < block_size b" "coalesced ?bs"
    using inv k by (auto simp: heap_inv_def coalesced_append)
  have pT: "pages_of (heap_abs h) = ?T" by (rule heap_inv_pages_of [OF inv])
  have pos: "\<forall>b \<in> set (heap_abs h). 0 < block_size b" using bs by simp
  have larr: "length (descs ?bs) = ?T + k + 1"
    using length_descs [OF bs(1)] pT by simp
  have bd: "used_at ?bs ?T 1"
    using pT by (simp add: used_at_append [OF pos])
  have I: "heap_inv h'" "heap_abs h' = ?bs"
    by (rule heap_invI [of h' ?bs];
        use bs larr cap bd in \<open>simp add: h'_def k_def del: descs_simps(2,3)\<close>)+
  have A': "heap_addr_ok h'"
    using A adr(1-3) k(1,2) sep exb by (simp add: heap_addr_ok_def h'_def k_def [symmetric])
  have ok': "heap_ok h'" using I A' l by (simp add: heap_ok_def h'_def)
  have ptr: "heap_page_to_pointer h' p = heap_page_to_pointer h p" if "p < ?T" for p
    using heap_page_to_pointer_first [OF A, of p] heap_page_to_pointer_first [OF A', of p]
      that exb cap(2) inv by (simp add: h'_def heap_inv_def k_def)
  have ends: "used_at (heap_abs h) p n \<Longrightarrow> p < ?T" for p n
    using used_at_split [OF pos] pT pos by fastforce
  have "heap_live h' a n \<longleftrightarrow> heap_live h a n" for a n
    unfolding heap_live_iff [OF ok] heap_live_iff [OF ok'] I(2)
    using first ends ptr by (auto simp: h'_def used_at_append [OF pos] pT split: if_splits)
  then show ?thesis
    using run ok' I(2) unfolding k_def by blast
qed


text \<open>
  An extension by the pages for which \<open>vmm_heap_initialize\<close> reserved descriptors needs one descriptor more,
  for the boundary page.  There is room for it in what the alignment of the first page leaves over, except
  when the two buffers have a multiple of 1025 pages, or one page more.
\<close>

lemma reserved_descriptors:
  fixes M :: nat
  defines "k \<equiv> ((PAGE_4KB_SIZE * M) div 4100 + 1023) div 1024"
  shows "M mod 1025 \<le> 1 \<Longrightarrow> M = 1025 * k + M mod 1025" "1 < M mod 1025 \<Longrightarrow> M + 1 \<le> 1025 * k"
proof -
  define q r where "q = M div 1025" and "r = M mod 1025"
  have M: "M = 1025 * q + r" and r: "r < 1025" by (simp_all add: q_def r_def)
  have "(PAGE_4KB_SIZE * M) div 4100 = (1024 * M) div 1025"
    using div_mult_mult1 [of 4 "1024 * M" 1025] by simp
  also have "\<dots> = 1024 * q + (r - 1)"
    using r by (intro div_nat_eqI) (auto simp: M)
  finally have k: "k = (1024 * q + (r - 1) + 1023) div 1024" by (simp add: k_def)
  show "M = 1025 * k + M mod 1025" if "M mod 1025 \<le> 1"
  proof -
    have "k = q" unfolding k using that by (intro div_nat_eqI) (simp_all add: r_def [symmetric])
    then show ?thesis using M unfolding r_def by simp
  qed
  show "M + 1 \<le> 1025 * k" if "1 < M mod 1025"
  proof -
    have "k = q + 1" unfolding k using that r by (intro div_nat_eqI) (auto simp: r_def [symmetric])
    then show ?thesis using M r by simp
  qed
qed

lemma heap_run_keeps:
  assumes "heap_run chk h h'" "heap_ok h"
  shows "heap_ok h' \<and> (\<exists>arr m. h' = h \<lparr> heap_array := arr, max_used_pages := m \<rparr> \<and> length arr = length (heap_array h))"
  using assms
proof (induction rule: heap_run.induct)
  case start
  then show ?case by (intro conjI exI [of _ "heap_array h"] exI [of _ "max_used_pages h"]) simp_all
next
  case (allocate h' n a h'')
  then obtain arr m where h': "heap_ok h'" "h' = h \<lparr> heap_array := arr, max_used_pages := m \<rparr>"
    "length arr = length (heap_array h)" by blast
  from h'(1) show ?case
  proof (cases rule: vmm_page_allocate_cases [where n = n and chk = chk])
    case 1
    then show ?thesis using allocate(2) h' by auto
  next
    case (2 p bs' g)
    have "length (descs bs') = heap_total_pages h'"
      using 2(4-6) length_descs [of bs'] heap_inv_pages_of [of g] by (simp add: heap_ok_def heap_inv_def)
    then obtain arr' m' where arr': "g = h' \<lparr> heap_array := arr', max_used_pages := m' \<rparr>"
      "length arr' = length (heap_array h')"
      using 2(4) h'(1) by (simp add: heap_ok_def heap_inv_def)
    have "h'' = g" using 2(3) allocate(2) by simp
    then show ?thesis
      using 2(5) arr' h' by (intro conjI exI [of _ arr'] exI [of _ m']) simp_all
  qed
next
  case (release h' a n h'')
  then obtain arr m where h': "heap_ok h'" "h' = h \<lparr> heap_array := arr, max_used_pages := m \<rparr>"
    "length arr = length (heap_array h)" by blast
  obtain g where g: "vmm_page_free chk a h' = Some g" "heap_ok g"
    "g = h' \<lparr> heap_array := descs (heap_abs g) @ drop (heap_total_pages h') (heap_array h') \<rparr>"
    using vmm_page_free_live [OF h'(1) release(2)] by metis
  have "heap_total_pages g = heap_total_pages h'" by (subst g(3)) simp
  then have "length (descs (heap_abs g)) = heap_total_pages h'"
    using g(2) length_descs [of "heap_abs g"] heap_inv_pages_of [of g] by (simp add: heap_ok_def heap_inv_def)
  then have "length (descs (heap_abs g) @ drop (heap_total_pages h') (heap_array h')) = length (heap_array h')"
    using h'(1) by (simp add: heap_ok_def heap_inv_def)
  then obtain arr' where arr': "g = h' \<lparr> heap_array := arr' \<rparr>" "length arr' = length (heap_array h')"
    using g(3) by blast
  have "h'' = g" using g(1) release(3) by simp
  then show ?case
    using g(2) arr' h' by (intro conjI exI [of _ arr'] exI [of _ m]) simp_all
qed

lemma heap_extend_short:
  assumes ok: "heap_ok h" and len: "length (heap_array h) \<le> heap_total_pages h + k"
    and k: "0 < k" "heap_total_pages h + k + 1 < 2 ^ 20"
    and adr: "addr mod PAGE_4KB_SIZE = 0" "addr < 2 ^ 63"
  shows "vmm_heap_extend chk addr (k * PAGE_4KB_SIZE) h = None"
proof -
  have a8: "align_forward addr 8 = addr"
    by (rule align_forward_8 [OF adr])
  have "heap_init_loop ((heap_array h)[heap_total_pages h := used_desc 1]) (heap_total_pages h + 1)
      (heap_total_pages h + k + 1) = None"
    unfolding heap_init_loop_def using len k by (intro arr_fill_outside) simp_all
  then have "\<exists>arr. arr_set (heap_array h) (heap_total_pages h) (used_desc 1) = Some arr \<Longrightarrow>
      Option.bind (arr_set (heap_array h) (heap_total_pages h) (used_desc 1))
        (\<lambda>arr. heap_init_loop arr (heap_total_pages h + 1) (heap_total_pages h + (k + 1))) = None"
    by (auto simp: arr_set_def split: if_splits)
  moreover have "u64_sub (k * PAGE_4KB_SIZE) (u64_sub addr addr) div PAGE_4KB_SIZE = k"
    "u32 k = k" "u32 (k + 1) = k + 1" "u32 (heap_total_pages h + (k + 1)) = heap_total_pages h + (k + 1)"
    "u32 (heap_total_pages h + 1) = heap_total_pages h + 1"
    using k adr(2) by (simp_all add: width_simps)
  ultimately show ?thesis
    by (cases "arr_set (heap_array h) (heap_total_pages h) (used_desc 1)")
      (simp_all add: vmm_heap_extend_def a8 Let_def bind_eq_None_conv)
qed

text \<open>What an initialised and used heap, before its extension, keeps of the layout.\<close>

lemma heap_before_extension:
  assumes adr: "0 < addr" "addr mod PAGE_4KB_SIZE = 0" "addr + bytes < 2 ^ 63" "bytes mod PAGE_4KB_SIZE = 0"
    and g: "1 \<le> g" "bytes + g * PAGE_4KB_SIZE < 2 ^ 32"
    and room: "4 * ((bytes + g * PAGE_4KB_SIZE) div 4100) + 8192 \<le> bytes"
    and init: "vmm_heap_initialize chk g raw addr bytes (heap_static_init m) = Some (e, h0)"
    and run: "heap_run chk h0 h"
    and k_def: "k = ((bytes + g * PAGE_4KB_SIZE) div 4100 + 1023) div 1024"
  shows "heap_ok h" "ex_heap_pages h = 0" "heap_array_addr h = addr" "heap_total_size h = bytes"
    "heap_base h = addr + k * PAGE_4KB_SIZE" "length (heap_array h) = k * 1024"
    "heap_total_pages h + k = bytes div PAGE_4KB_SIZE" "heap_pages h = heap_total_pages h" "0 < k"
    "heap_base h + heap_pages h * PAGE_4KB_SIZE = addr + bytes"
proof -
  have "\<not> descriptors_short g bytes" using g by (simp add: descriptors_short_def)
  from heap_initialize_correct [OF adr(1-3) g(2) room this, of chk raw m, folded k_def]
  obtain h' where h': "vmm_heap_initialize chk g raw addr bytes (heap_static_init m)
      = Some (heap_base h' + heap_total_pages h' * PAGE_4KB_SIZE, h')"
    and h0': "heap_ok h'" "heap_array_addr h' = addr" "addr + 4 * length (heap_array h') = heap_base h'"
    "heap_base h' = addr + k * PAGE_4KB_SIZE" "0 < heap_total_pages h'"
    "heap_total_pages h' = (bytes - (heap_base h' - addr)) div PAGE_4KB_SIZE"
    "heap_total_size h' = u32 (align_forward bytes PAGE_4KB_SIZE)" "ex_heap_pages h' = 0"
    by (elim exE conjE)
  have "h' = h0" using h' init by simp
  note h0 = h0' [unfolded this]
  obtain arr x where h: "heap_ok h" "h = h0 \<lparr> heap_array := arr, max_used_pages := x \<rparr>"
    "length arr = length (heap_array h0)"
    using heap_run_keeps [OF run h0(1)] by blast
  have "bytes < 2 ^ 32" using g(2) by simp
  then have "align_forward bytes PAGE_4KB_SIZE = bytes"
    using adr(4) by (intro align_forward_id) (simp_all add: dvd_eq_mod_eq_0)
  then have "heap_total_size h0 = bytes"
    using \<open>bytes < 2 ^ 32\<close> by (simp add: h0(7) width_simps)
  moreover obtain b where b: "bytes = b * PAGE_4KB_SIZE" using adr(4) by (auto simp: mod_eq_0_iff_dvd dvd_def)
  have t: "heap_total_pages h0 = b - k" by (simp add: h0(4,6) b flip: diff_mult_distrib)
  moreover have "k \<le> b" using t h0(5) by simp
  moreover have "heap_pages h0 = heap_total_pages h0"
    using h0(1,8) by (simp add: heap_ok_def heap_addr_ok_def)
  moreover have "0 < k" unfolding k_def using room b g by (simp add: div_greater_zero_iff)
  ultimately have t: "heap_total_size h0 = bytes" "heap_total_pages h0 = b - k" "k \<le> b"
    "heap_pages h0 = b - k" "0 < k" by simp_all
  show "heap_ok h" "0 < k" by (fact h(1) t(5))+
  show "ex_heap_pages h = 0" "heap_array_addr h = addr" "heap_total_size h = bytes"
    "heap_base h = addr + k * PAGE_4KB_SIZE" "heap_pages h = heap_total_pages h"
    using h0(2,4,8) t by (simp_all add: h(2))
  show "length (heap_array h) = k * 1024" using h0(3,4) h(3) by (simp add: h(2))
  show "heap_total_pages h + k = bytes div PAGE_4KB_SIZE" using t(2,3) by (simp add: h(2) b)
  have "k * PAGE_4KB_SIZE + (b - k) * PAGE_4KB_SIZE = b * PAGE_4KB_SIZE"
    using t(3) by (simp flip: distrib_right)
  then show "heap_base h + heap_pages h * PAGE_4KB_SIZE = addr + bytes"
    using t(4) h0(4) by (simp add: h(2) b)
qed

subsection \<open>Scattered pages and byte buffers\<close>

lemma page_alloc_locked:
  assumes "heap_ok h" "0 < n" "vmm_page_allocate chk n h = Some (p, h')"
  shows "page_alloc_unprotected chk n (h \<lparr> heap_lock := True \<rparr>)
           = Some (p, h' \<lparr> heap_lock := True \<rparr>)"
proof (cases "alloc_blocks n (heap_abs h)")
  case None
  then show ?thesis
    using assms vmm_page_allocate_fail [OF assms(1,2) None] page_alloc_refines [of "h \<lparr> heap_lock := True \<rparr>" n chk]
    by (simp add: heap_ok_def)
next
  case (Some r)
  obtain q bs' where r: "r = (q, bs')" by fastforce
  have l: "\<not> heap_lock h" using assms(1) by (simp add: heap_ok_def)
  show ?thesis
    using assms vmm_page_allocate_Some(1) [OF assms(1,2) Some [unfolded r], of chk]
      page_alloc_refines [of "h \<lparr> heap_lock := True \<rparr>" n chk] Some r
    by (auto simp: heap_ok_def)
qed

lemma heap_scatter_loop_correct:
  assumes "heap_ok h"
  shows "\<exists>ps h'. heap_scatter_loop chk k (h \<lparr> heap_lock := True \<rparr>) = Some (ps, h' \<lparr> heap_lock := True \<rparr>) \<and>
     heap_ok h' \<and> length ps \<le> k \<and> distinct ps \<and> 0 \<notin> set ps \<and>
     (\<forall>b j. heap_live h' b j \<longleftrightarrow> heap_live h b j \<or> (b \<in> set ps \<and> j = 1)) \<and>
     (\<forall>p \<in> set ps. \<forall>j. \<not> heap_live h p j) \<and>
     (length ps < k \<longrightarrow> (\<forall>m. Free m \<notin> set (heap_abs h')))"
  using assms
proof (induction k arbitrary: h)
  case 0
  then show ?case by (auto intro: exI [of _ h])
next
  case (Suc k)
  obtain a h1 where a: "vmm_page_allocate chk 1 h = Some (a, h1)" "heap_ok h1"
    using heap.alloc_total [OF Suc.prems, of chk 1] by blast
  note u = page_alloc_locked [OF Suc.prems _ a(1), simplified]
  show ?case
  proof (cases "a = 0")
    case True
    then have h1: "h1 = h" using heap.alloc_null Suc.prems a(1) by blast
    have "alloc_blocks 1 (heap_abs h) = None"
      by (rule vmm_page_allocate_cases [OF Suc.prems, of chk 1]) (use a True in auto)
    then have "\<forall>m. Free m \<in> set (heap_abs h) \<longrightarrow> m < 1" by (simp only: alloc_blocks_None)
    moreover have "\<forall>b \<in> set (heap_abs h). 0 < block_size b"
      using Suc.prems by (simp add: heap_ok_def heap_inv_def)
    ultimately have "Free m \<notin> set (heap_abs h)" for m
      by (metis block_size.simps(1) less_one not_less_iff_gr_or_eq)
    then show ?thesis
      using u True h1 Suc.prems by (intro exI [of _ "[]"] exI [of _ h]) simp
  next
    case False
    note L = heap.alloc_live [OF Suc.prems a(1) False]
    note F = heap.alloc_fresh [OF Suc.prems a(1) False]
    obtain ps h' where IH: "heap_scatter_loop chk k (h1 \<lparr> heap_lock := True \<rparr>) = Some (ps, h' \<lparr> heap_lock := True \<rparr>)"
      "heap_ok h'" "length ps \<le> k" "distinct ps" "0 \<notin> set ps"
      "\<forall>b j. heap_live h' b j \<longleftrightarrow> heap_live h1 b j \<or> (b \<in> set ps \<and> j = 1)"
      "\<forall>p \<in> set ps. \<forall>j. \<not> heap_live h1 p j"
      "length ps < k \<longrightarrow> (\<forall>m. Free m \<notin> set (heap_abs h'))"
      using Suc.IH [OF a(2)] by blast
    have "a \<notin> set ps" using IH(7) L by blast
    then show ?thesis
      using u False IH L F by (intro exI [of _ "a # ps"] exI [of _ h']) auto
  qed
qed

lemma heap_mem_irrelevant [simp]:
  "heap_live (h \<lparr> heap_mem := m \<rparr>) = heap_live h"
  "heap_ok (h \<lparr> heap_mem := m \<rparr>) = heap_ok h"
  by (simp_all add: fun_eq_iff heap_live_def heap_ok_def heap_inv_def heap_addr_ok_def heap_abs_def
      heap_address_ok_def heap_page_to_pointer_def heap_pointer_to_page_def)

lemma vmm_memory_allocate_correct:
  assumes ok: "heap_ok h" and s: "0 < bytes" "bytes \<le> 2 ^ 32 - PAGE_4KB_SIZE"
  shows "\<exists>a h'. vmm_memory_allocate chk bytes h = Some (a, h') \<and> heap_ok h' \<and>
     (a = 0 \<longrightarrow> h' = h) \<and>
     (a \<noteq> 0 \<longrightarrow> heap_live h' a ((bytes + 4095) div PAGE_4KB_SIZE) \<and>
        (\<forall>x. a \<le> x \<and> x < a + bytes \<longrightarrow> heap_mem h' x = 0) \<and>
        (\<forall>b n x. heap_live h b n \<and> b \<le> x \<and> x < b + n * PAGE_4KB_SIZE \<longrightarrow> heap_mem h' x = heap_mem h x))"
proof -
  let ?n = "(bytes + 4095) div PAGE_4KB_SIZE" and ?s = "align_backward (bytes + 4095) PAGE_4KB_SIZE"
  have w: "u32 (bytes + PAGE_4KB_SIZE - 1) = bytes + 4095"
    using s by (simp add: width_simps)
  have sn: "?s = ?n * PAGE_4KB_SIZE" by (simp add: align_backward_def minus_mod_eq_div_mult)
  have sb: "bytes \<le> ?n * PAGE_4KB_SIZE"
    using div_mult_mod_eq [of "bytes + 4095" 4096] mod_less_divisor [of 4096 "bytes + 4095"] by linarith
  obtain a h1 where a: "vmm_page_allocate chk ?n h = Some (a, h1)" "heap_ok h1"
    using heap.alloc_total [OF ok] by blast
  have run: "vmm_memory_allocate chk bytes h = Some (a, if a \<noteq> 0 then h1 \<lparr> heap_mem := vmm_memset (heap_mem h1) a 0 ?s \<rparr> else h1)"
    using a s w by (simp add: vmm_memory_allocate_def Let_def sn)
  show ?thesis
  proof (cases "a = 0")
    case True
    then show ?thesis using run heap.alloc_null [OF ok] a ok by auto
  next
    case False
    define h2 where "h2 = h1 \<lparr> heap_mem := vmm_memset (heap_mem h1) a 0 ?s \<rparr>"
    have ok2: "heap_ok h2" and live: "heap_live h2 a ?n"
      using a(2) heap.alloc_live [OF ok a(1) False] by (simp_all add: h2_def)
    have mem: "heap_mem h1 = heap_mem h"
      by (rule vmm_page_allocate_cases [OF ok, of chk ?n]) (use a in auto)
    have zero: "\<forall>x. a \<le> x \<and> x < a + bytes \<longrightarrow> heap_mem h2 x = 0"
      using sb by (simp add: h2_def vmm_memset_def sn)
    have keep: "\<forall>b n x. heap_live h b n \<and> b \<le> x \<and> x < b + n * PAGE_4KB_SIZE \<longrightarrow>
        heap_mem h2 x = heap_mem h x"
      using heap.alloc_disjoint [OF ok a(1) False] by (force simp: h2_def vmm_memset_def sn mem)
    from run False have "vmm_memory_allocate chk bytes h = Some (a, h2)" by (simp add: h2_def)
    then show ?thesis
      using ok2 live zero keep False by blast
  qed
qed

text \<open>
  \<open>vmm_memory_allocate\<close> adds exactly one buffer, and fails exactly when there is no free run that is
  long enough.
\<close>

lemma vmm_memory_allocate_buffers:
  assumes ok: "heap_ok h" and s: "0 < bytes" "bytes \<le> 2 ^ 32 - PAGE_4KB_SIZE"
    and n: "n = (bytes + 4095) div PAGE_4KB_SIZE"
  obtains "vmm_memory_allocate chk bytes h = Some (0, h)" "alloc_blocks n (heap_abs h) = None"
  | a h' p bs where "vmm_memory_allocate chk bytes h = Some (a, h')" "a \<noteq> 0" "heap_ok h'"
      "alloc_blocks n (heap_abs h) = Some (p, bs)" "heap_abs h' = bs" "\<And>k. \<not> heap_live h a k"
      "\<And>b k. heap_live h' b k \<longleftrightarrow> heap_live h b k \<or> (b = a \<and> k = n)"
proof -
  have w: "u32 (bytes + PAGE_4KB_SIZE - 1) = bytes + 4095" using s by (simp add: width_simps)
  have sn: "align_backward (bytes + 4095) PAGE_4KB_SIZE = n * PAGE_4KB_SIZE"
    by (simp add: n align_backward_def minus_mod_eq_div_mult)
  have pos: "0 < n" using s(1) by (simp add: n)
  have run: "vmm_memory_allocate chk bytes h = do {
      (a, h1) \<leftarrow> vmm_page_allocate chk n h;
      Some (a, if a \<noteq> 0 then h1 \<lparr> heap_mem := vmm_memset (heap_mem h1) a 0 (n * PAGE_4KB_SIZE) \<rparr> else h1) }"
    using s w by (simp add: vmm_memory_allocate_def Let_def sn)
  show thesis
  proof (rule vmm_page_allocate_cases [OF ok, of chk n])
    assume "vmm_page_allocate chk n h = Some (0, h)" "n = 0 \<or> alloc_blocks n (heap_abs h) = None"
    then show thesis using that(1) run pos by simp
  next
    fix p bs h1
    assume 1: "alloc_blocks n (heap_abs h) = Some (p, bs)"
      "vmm_page_allocate chk n h = Some (heap_page_to_pointer h p, h1)" "heap_ok h1" "heap_abs h1 = bs"
      "heap_page_to_pointer h p \<noteq> 0"
      "\<And>b k. heap_live h1 b k \<longleftrightarrow> heap_live h b k \<or> (b = heap_page_to_pointer h p \<and> k = n)"
      "\<And>k. \<not> heap_live h (heap_page_to_pointer h p) k"
    let ?a = "heap_page_to_pointer h p"
    let ?h = "h1 \<lparr> heap_mem := vmm_memset (heap_mem h1) ?a 0 (n * PAGE_4KB_SIZE) \<rparr>"
    have abs: "heap_abs ?h = bs" using 1(4) by (simp add: heap_abs_def)
    have r: "vmm_memory_allocate chk bytes h = Some (?a, ?h)" using run 1(2,5) by simp
    show thesis
      by (rule that(2) [OF r 1(5) _ 1(1) abs 1(7)]) (use 1(3,6) in simp_all)
  qed
qed

section \<open>Properties\<close>

lemma heap_example_abs: "heap_inv heap_example" "heap_abs heap_example = [Used 2, Free 3, Used 1]"
  by (rule heap_invI [of heap_example "[Used 2, Free 3, Used 1]"];
      simp add: heap_example_def heap_static_init_def)+

lemma heap_example_ok: "heap_ok heap_example"
  using heap_example_abs(1)
  by (simp add: heap_ok_def heap_addr_ok_def heap_example_def heap_static_init_def)

lemma heap_example_pointers:
  "heap_page_to_pointer heap_example 0 = 8192"
  "heap_page_to_pointer heap_example 2 = 16384"
  "heap_page_to_pointer heap_example 5 = 28672"
  "heap_total_pages heap_example = 6"
  "ex_heap_pages heap_example = 0"
  by (simp_all add: heap_page_to_pointer_def heap_example_def heap_static_init_def width_simps)

lemma heap_example_live: "heap_live heap_example 28672 1" "heap_live heap_example 8192 2"
  unfolding heap_live_iff [OF heap_example_ok] heap_example_abs
  by (rule exI [of _ 5], simp add: heap_example_pointers)
     (rule exI [of _ 0], simp add: heap_example_pointers)

lemma heap_example_first_fit:
  "alloc_blocks 2 (heap_abs heap_example) = Some (2, [Used 2, Used 2, Free 1, Used 1])"
  by (simp add: heap_example_abs)

lemma heap_example_alloc:
  obtains h' where "vmm_page_allocate chk 2 heap_example = Some (16384, h')"
  using vmm_page_allocate_Some(1) [OF heap_example_ok _ heap_example_first_fit, of chk]
  by (simp add: heap_example_pointers)

text \<open>
  C1. \<open>vmm_page_allocate\<close> implements first fit.  On a well-formed heap a request for \<open>n > 0\<close>
  pages takes the first \<open>n\<close> pages of the first free run that has that many and leaves the rest
  of the run free; when there is no such run it returns \<^verbatim>\<open>NULL\<close> and changes nothing.  No
  assertion fires, in either build.
\<close>

theorem heap_allocate_first_fit:
  assumes "heap_ok h" "0 < n"
  shows "case alloc_blocks n (heap_abs h) of
      None \<Rightarrow> vmm_page_allocate chk n h = Some (0, h)
    | Some (p, bs') \<Rightarrow> \<exists>h'. vmm_page_allocate chk n h = Some (heap_page_to_pointer h p, h') \<and>
        heap_page_to_pointer h p \<noteq> 0 \<and> heap_ok h' \<and> heap_abs h' = bs'"
  by (rule vmm_page_allocate_cases [OF assms(1), of chk n]) (use assms(2) in auto)

theorem heap_allocate_first_fit_witness:
  "\<exists>h'. vmm_page_allocate True 2 heap_example = Some (16384, h') \<and>
     heap_ok h' \<and> heap_abs h' = [Used 2, Used 2, Free 1, Used 1]"
  using heap_allocate_first_fit [OF heap_example_ok, of 2 True]
  by (simp add: heap_example_first_fit heap_example_pointers)

text \<open>
  C2. A buffer that \<open>vmm_page_allocate\<close> returns is page aligned, is allocated afterwards, and
  overlaps none of the buffers that were allocated before; those stay allocated.
\<close>

theorem heap_allocate_disjoint:
  assumes "heap_ok h" "vmm_page_allocate chk n h = Some (a, h')" "a \<noteq> 0"
  shows "heap_live h' a n \<and> a mod PAGE_4KB_SIZE = 0 \<and>
    (\<forall>b m. heap_live h b m \<longrightarrow> heap_live h' b m \<and>
       (a + n * PAGE_4KB_SIZE \<le> b \<or> b + m * PAGE_4KB_SIZE \<le> a))"
  using heap.alloc_live [OF assms] heap.alloc_aligned [OF assms] heap.alloc_disjoint [OF assms]
  by blast

theorem heap_allocate_disjoint_witness:
  "\<exists>h'. vmm_page_allocate False 2 heap_example = Some (16384, h') \<and>
     heap_live h' 16384 2 \<and> heap_live h' 28672 1"
proof (rule heap_example_alloc [of False])
  fix h' assume h': "vmm_page_allocate False 2 heap_example = Some (16384, h')"
  from heap_allocate_disjoint [OF heap_example_ok h'] heap_example_live h'
  show ?thesis by auto
qed

text \<open>
  C3. \<open>vmm_page_free\<close> of an allocated buffer returns, keeps the heap well formed, ends the
  allocation of that buffer only, and merges the released pages with a free run before and after
  them (\<open>free_blocks\<close>).
\<close>

theorem heap_free_coalesces:
  assumes "heap_ok h" "heap_live h a n"
  shows "\<exists>h'. vmm_page_free chk a h = Some h' \<and> heap_ok h' \<and>
    free_blocks [] (heap_pointer_to_page h a) (heap_abs h) = Some (heap_abs h') \<and>
    (\<forall>b k. heap_live h' b k \<longleftrightarrow> heap_live h b k \<and> b \<noteq> a)"
  by (rule vmm_page_free_live [OF assms, of chk]) blast

theorem heap_free_coalesces_witness:
  "\<exists>h'. vmm_page_free True 28672 heap_example = Some h' \<and> heap_abs h' = [Used 2, Free 4] \<and>
     heap_live h' 8192 2"
proof -
  have "heap_pointer_to_page heap_example 28672 = 5"
    using heap_pointer_roundtrip(1) [of heap_example 5] heap_example_ok
    by (simp add: heap_example_pointers heap_ok_def)
  then show ?thesis
    using heap_free_coalesces [OF heap_example_ok heap_example_live(1), of True] heap_example_live(2)
    by (auto simp: heap_example_abs release_block_def split_last_free_def)
qed

text \<open>
  C4. Releasing a buffer right after it was allocated restores the heap exactly: every
  descriptor and every other variable has its old value, except the high-water mark.
\<close>

theorem heap_allocate_free_roundtrip:
  assumes "heap_ok h" "vmm_page_allocate chk n h = Some (a, h')" "a \<noteq> 0"
  shows "\<exists>u. vmm_page_free chk a h' = Some (h \<lparr> max_used_pages := u \<rparr>)"
proof (rule vmm_page_allocate_cases [OF assms(1), of chk n])
  assume "vmm_page_allocate chk n h = Some (0, h)"
  then show ?thesis using assms(2,3) by simp
next
  fix p bs' h1
  assume n: "0 < n" and al: "alloc_blocks n (heap_abs h) = Some (p, bs')"
    and run: "vmm_page_allocate chk n h = Some (heap_page_to_pointer h p, h1)"
    and h1: "h1 = h \<lparr> heap_array := descs bs' @ drop (heap_total_pages h) (heap_array h),
                max_used_pages := max (max_used_pages h) (p + n) \<rparr>"
    and ok: "heap_ok h1" and abs: "heap_abs h1 = bs'"
  have eq: "a = heap_page_to_pointer h p" "h' = h1" using run assms(2) by simp_all
  have live: "heap_live h1 a n" using heap.alloc_live [OF assms] eq by blast
  obtain h2 where h2: "vmm_page_free chk a h1 = Some h2"
    "free_blocks [] (heap_pointer_to_page h1 a) bs' = Some (heap_abs h2)"
    "h2 = h1 \<lparr> heap_array := descs (heap_abs h2) @ drop (heap_total_pages h1) (heap_array h1) \<rparr>"
    using ok live by (rule vmm_page_free_live) (use abs in blast)
  have inv: "heap_inv h" "heap_inv h1" using assms(1) ok by (auto simp: heap_ok_def)
  have pg: "heap_pointer_to_page h1 a = p"
    using heap_pointer_roundtrip(1) [of h p] vmm_page_allocate_Some(4,5) [OF assms(1) n al]
      heap_addr_irrelevant(4) [OF h1] assms(1) eq(1) by (simp add: heap_ok_def heap_inv_def)
  have "heap_abs h2 = heap_abs h"
    using h2(2) alloc_free_blocks [OF al] inv(1) by (simp add: pg heap_inv_def)
  moreover have "length (descs bs') = heap_total_pages h"
    using inv(2) abs length_descs [of bs'] heap_inv_pages_of [OF inv(2)] by (simp add: heap_inv_def h1)
  moreover have "descs (heap_abs h) @ drop (heap_total_pages h) (heap_array h) = heap_array h"
    using inv(1) append_take_drop_id [of "heap_total_pages h" "heap_array h"] by (simp add: heap_inv_def)
  ultimately have "h2 = h \<lparr> max_used_pages := max (max_used_pages h) (p + n) \<rparr>"
    using h2(3) by (simp add: h1)
  then show ?thesis using h2(1) eq(2) by blast
qed

theorem heap_allocate_free_roundtrip_witness:
  "\<exists>h' u. vmm_page_allocate True 2 heap_example = Some (16384, h') \<and>
     vmm_page_free True 16384 h' = Some (heap_example \<lparr> max_used_pages := u \<rparr>)"
proof (rule heap_example_alloc [of True])
  fix h' assume h': "vmm_page_allocate True 2 heap_example = Some (16384, h')"
  from heap_allocate_free_roundtrip [OF heap_example_ok h'] h'
  show ?thesis by auto
qed



text \<open>
  C6. A heap that was initialised on whole pages, with descriptors reserved for \<open>g\<close> more pages, and
  then used by any sequence of allocations and releases is extended by \<open>g\<close> pages apart from it.  Unless
  the pages of both buffers together are a multiple of 1025 or one more, \<open>vmm_heap_extend\<close> returns the address
  one page behind the new buffer, keeps every allocated buffer and adds a boundary page in use followed by
  one free run.  In these cases, because the boundary page was not counted, one or two descriptors do not fit in front of the
  first page, and the operation writes outside the descriptors.
\<close>

theorem heap_extend_preserves:
  assumes "0 < addr" "addr mod PAGE_4KB_SIZE = 0" "addr + bytes < 2 ^ 63" "bytes mod PAGE_4KB_SIZE = 0"
    and "1 \<le> g" "bytes + g * PAGE_4KB_SIZE < 2 ^ 32"
    and "4 * ((bytes + g * PAGE_4KB_SIZE) div 4100) + 8192 \<le> bytes"
    and "vmm_heap_initialize chk g raw addr bytes (heap_static_init m) = Some (e, h0)" "heap_run chk h0 h"
    and "0 < ex_addr" "ex_addr mod PAGE_4KB_SIZE = 0" "ex_addr + (g + 1) * PAGE_4KB_SIZE < 2 ^ 63"
    and "addr + bytes < ex_addr \<or> ex_addr + (g + 1) * PAGE_4KB_SIZE < addr"
  shows "(1 < (bytes div PAGE_4KB_SIZE + g) mod 1025 \<longrightarrow>
      (\<exists>h'. vmm_heap_extend chk ex_addr (g * PAGE_4KB_SIZE) h = Some (ex_addr + (g + 1) * PAGE_4KB_SIZE, h') \<and>
        heap_ok h' \<and> heap_abs h' = heap_abs h @ [Used 1, Free g] \<and> (\<forall>a n. heap_live h' a n \<longleftrightarrow> heap_live h a n))) \<and>
    ((bytes div PAGE_4KB_SIZE + g) mod 1025 \<le> 1 \<longrightarrow>
      heap_total_pages h + g + 1 = length (heap_array h) + 1 + (bytes div PAGE_4KB_SIZE + g) mod 1025 \<and>
      vmm_heap_extend chk ex_addr (g * PAGE_4KB_SIZE) h = None)"
proof -
  define k where "k = ((bytes + g * PAGE_4KB_SIZE) div 4100 + 1023) div 1024"
  note H = heap_before_extension [OF assms(1-9) k_def]
  define M where "M = bytes div PAGE_4KB_SIZE + g"
  have "bytes + g * PAGE_4KB_SIZE = PAGE_4KB_SIZE * M"
    using assms(4) by (auto simp: M_def algebra_simps mod_eq_0_iff_dvd)
  then have k: "k = ((PAGE_4KB_SIZE * M) div 4100 + 1023) div 1024" by (simp add: k_def)
  have M: "heap_total_pages h + g + k = M" using H(7) by (simp add: M_def)
  have lt: "M < 2 ^ 20" using assms(6) \<open>bytes + g * PAGE_4KB_SIZE = PAGE_4KB_SIZE * M\<close> by simp
  have apart: "\<not> check_address_in_range ex_addr (heap_array_addr h) (heap_total_size h)"
    "\<not> check_address_in_range (heap_array_addr h) ex_addr (g * PAGE_4KB_SIZE)"
    using assms(3,12,13) by (auto simp: check_address_in_range_def H width_simps)
  have sep: "heap_base h + heap_pages h * PAGE_4KB_SIZE \<le> ex_addr \<or>
      ex_addr + (g * PAGE_4KB_SIZE div PAGE_4KB_SIZE + 1) * PAGE_4KB_SIZE < heap_base h"
    using assms(13) H(5,10) by auto
  have "\<exists>h'. vmm_heap_extend chk ex_addr (g * PAGE_4KB_SIZE) h = Some (ex_addr + (g + 1) * PAGE_4KB_SIZE, h') \<and>
        heap_ok h' \<and> heap_abs h' = heap_abs h @ [Used 1, Free g] \<and> (\<forall>a n. heap_live h' a n \<longleftrightarrow> heap_live h a n)"
    if "1 < M mod 1025"
    using heap_extend_correct [OF H(1,2) assms(10,11) _ _ _ _ apart sep, of chk]
      reserved_descriptors(2) [OF that, folded k] assms(5,12) M H(6) lt
    by (simp add: algebra_simps)
  moreover have "heap_total_pages h + g + 1 = length (heap_array h) + 1 + M mod 1025 \<and>
      vmm_heap_extend chk ex_addr (g * PAGE_4KB_SIZE) h = None" if "M mod 1025 \<le> 1"
  proof -
    have "heap_total_pages h + g = length (heap_array h) + M mod 1025"
      using reserved_descriptors(1) [OF that, folded k] M H(6) by linarith
    then show ?thesis
      using heap_extend_short [OF H(1), of g ex_addr chk] assms(5,11,12) M H(9) lt by simp
  qed
  ultimately show ?thesis by (simp add: M_def)
qed

theorem heap_extend_preserves_witness:
  "\<exists>h0 e. vmm_heap_initialize True 1 (\<lambda>_. used_desc 5) 4096 1048576 (heap_static_init (\<lambda>_. 0)) = Some (e, h0) \<and>
     (\<exists>h'. vmm_heap_extend True 2097152 4096 h0 = Some (2105344, h') \<and> heap_ok h')"
proof -
  obtain h0 e where h0: "vmm_heap_initialize True 1 (\<lambda>_. used_desc 5) 4096 1048576 (heap_static_init (\<lambda>_. 0)) = Some (e, h0)"
    using heap_initialize_correct [of 4096 1048576 1 True "\<lambda>_. used_desc 5" "\<lambda>_. 0"]
    by (auto simp: descriptors_short_def)
  then show ?thesis
    using heap_extend_preserves [OF _ _ _ _ _ _ _ h0 heap_run.start, of 2097152] by auto
qed

text \<open>
  C7. \<open>vmm_page_allocate_scattered\<close> fills the array with distinct pages that are new
  allocations, followed by \<^verbatim>\<open>NULL\<close>s; it returns their number, and it returns less than asked
  only when no free page is left.
\<close>

theorem heap_scattered_pages:
  assumes "heap_ok h"
  shows "\<exists>ps h'. vmm_page_allocate_scattered chk n h
           = Some (length ps, ps @ replicate (n - length ps) 0, h') \<and>
     heap_ok h' \<and> length ps \<le> n \<and> distinct ps \<and> 0 \<notin> set ps \<and>
     (\<forall>b j. heap_live h' b j \<longleftrightarrow> heap_live h b j \<or> (b \<in> set ps \<and> j = 1)) \<and>
     (\<forall>p \<in> set ps. \<forall>j. \<not> heap_live h p j) \<and>
     (length ps < n \<longrightarrow> (\<forall>m. Free m \<notin> set (heap_abs h')))"
proof -
  have l: "\<not> heap_lock h" using assms by (simp add: heap_ok_def)
  obtain ps h' where *: "heap_scatter_loop chk n (h \<lparr> heap_lock := True \<rparr>)
      = Some (ps, h' \<lparr> heap_lock := True \<rparr>)"
    and rest: "heap_ok h' \<and> length ps \<le> n \<and> distinct ps \<and> 0 \<notin> set ps \<and>
     (\<forall>b j. heap_live h' b j \<longleftrightarrow> heap_live h b j \<or> (b \<in> set ps \<and> j = 1)) \<and>
     (\<forall>p \<in> set ps. \<forall>j. \<not> heap_live h p j) \<and>
     (length ps < n \<longrightarrow> (\<forall>m. Free m \<notin> set (heap_abs h')))"
    using heap_scatter_loop_correct [OF assms, of chk n] by blast
  have "h' \<lparr> heap_lock := False \<rparr> = h'" using rest by (cases h') (simp add: heap_ok_def)
  then have "vmm_page_allocate_scattered chk n h
      = Some (length ps, ps @ replicate (n - length ps) 0, h')"
    using * l by (simp add: vmm_page_allocate_scattered_def lock_acquire_def lock_release_def)
  with rest show ?thesis by blast
qed

theorem heap_scattered_pages_witness:
  "\<exists>ps h'. vmm_page_allocate_scattered True 5 heap_example
      = Some (length ps, ps @ replicate (5 - length ps) 0, h') \<and> heap_ok h' \<and> distinct ps"
  using heap_scattered_pages [OF heap_example_ok, of True 5] by blast

text \<open>
  C8. \<open>vmm_memory_allocate\<close> rounds the size up to pages and returns a new buffer whose bytes
  are zero; the contents of the other allocated buffers do not change.
\<close>

theorem heap_memory_allocate_zeroed:
  assumes "heap_ok h" "0 < bytes" "bytes \<le> 2 ^ 32 - PAGE_4KB_SIZE"
  shows "\<exists>a h'. vmm_memory_allocate chk bytes h = Some (a, h') \<and> heap_ok h' \<and>
     (a = 0 \<longrightarrow> h' = h) \<and>
     (a \<noteq> 0 \<longrightarrow> heap_live h' a ((bytes + 4095) div PAGE_4KB_SIZE) \<and>
        (\<forall>x. a \<le> x \<and> x < a + bytes \<longrightarrow> heap_mem h' x = 0) \<and>
        (\<forall>b n x. heap_live h b n \<and> b \<le> x \<and> x < b + n * PAGE_4KB_SIZE \<longrightarrow>
           heap_mem h' x = heap_mem h x))"
  by (rule vmm_memory_allocate_correct [OF assms])

theorem heap_memory_allocate_zeroed_witness:
  "\<exists>a h'. vmm_memory_allocate True 5000 heap_example = Some (a, h') \<and> heap_ok h'"
  using heap_memory_allocate_zeroed [OF heap_example_ok, of 5000 True] by auto

text \<open>
  C9. A second \<open>vmm_page_free\<close> of the same buffer is detected, but in the build where the dead
  loop is compiled out it returns with the heap lock still taken, so that no later allocation
  comes back.
\<close>

theorem heap_double_free_keeps_lock:
  assumes "heap_ok h" "heap_live h a n" "vmm_page_free False a h = Some h1"
  shows "vmm_page_free False a h1 = Some (h1 \<lparr> heap_lock := True \<rparr>) \<and>
    vmm_page_allocate False k (h1 \<lparr> heap_lock := True \<rparr>) = None"
  using heap_double_free(1) [OF assms]
  by (simp add: vmm_page_allocate_def lock_acquire_def)

theorem heap_double_free_keeps_lock_witness:
  "\<exists>h1 h2. vmm_page_free False 28672 heap_example = Some h1 \<and>
     vmm_page_free False 28672 h1 = Some h2 \<and> vmm_page_allocate False 1 h2 = None"
  using heap.free_live [OF heap_example_ok heap_example_live(1), of False]
    heap_double_free_keeps_lock [OF heap_example_ok heap_example_live(1)]
  by blast

text \<open>
  C10. Without extra descriptors (\<open>g_heap_pa_num = 0\<close>) the estimate of \<open>vmm_heap_initialize\<close> is one
  descriptor short whenever the estimated descriptors fill whole pages and the division leaves room for one
  more page: then the number of pages is such that the last of their descriptors lies at the address of the first
  heap page, and the loop writes there, outside the descriptors.
\<close>

theorem heap_initialize_overrun:
  assumes "addr mod PAGE_4KB_SIZE = 0" "addr + bytes < 2 ^ 63" "bytes < 2 ^ 32"
    and "4 * (bytes div 4100) + 8192 \<le> bytes"
    and "bytes div 4100 mod 1024 = 0" "PAGE_4KB_SIZE \<le> bytes mod 4100"
  shows "(\<exists>pages base tot. heap_layout 0 addr bytes = (addr, pages, base, tot) \<and>
      addr + 4 * (tot - 1) = base \<and> 1 < tot \<and> base + tot * PAGE_4KB_SIZE \<le> addr + bytes) \<and>
    vmm_heap_initialize chk 0 raw addr bytes h = None"
  using heap_initialize_short [OF assms(1-4)] assms(5,6) by (simp add: descriptors_short_def)

theorem heap_initialize_overrun_witness:
  "vmm_heap_initialize False 0 (\<lambda>_. used_desc 5) 4096 4202496 (heap_static_init (\<lambda>_. 0)) = None"
  using heap_initialize_overrun [of 4096 4202496] by simp

end
