(* ===== verification/VmmHash64.thy ===== *)
theory VmmHash64
  imports VmmHeap "HOL-Library.Multiset"
begin

text \<open>
  The hash table of \<^verbatim>\<open>vmm/utils/hash64.c\<close> and \<^verbatim>\<open>vmm/utils/hash64.h\<close>: an array of cells, each the head
  of a singly linked chain of nodes, with the node allocator, the hash function and the
  allocator of the table itself as function pointers in the table.

  A table owns its nodes: \<open>nodes\<close> maps the address of a node to its fields, and following a
  pointer that is not in its domain gives \<^const>\<open>None\<close>.  \<open>NULL\<close> is 0.  The heap is passed
  explicitly.  Loops that follow \<^verbatim>\<open>next\<close> pointers are \<^verbatim>\<open>partial_function\<close>s, for which \<^const>\<open>None\<close>
  also stands for a chain that never ends; the lemmas show that they end on the chains of a
  well-formed table.

  The abstract view of a table is the partial map \<open>hash64_abs\<close> from keys to values.
\<close>

section \<open>State\<close>

record hash64_node =
  node_next :: nat
  node_key :: nat
  node_value :: nat

type_synonym hash64_func = "nat \<Rightarrow> nat \<Rightarrow> nat option"
type_synonym heap_alloc_func = "heap_state \<Rightarrow> (nat \<times> heap_state) option"
type_synonym heap_free_func = "nat \<Rightarrow> heap_state \<Rightarrow> heap_state option"

record hash64_table =
  hash_addr :: nat
  array_addr :: nat
  hash_array :: "nat list"
  hash_func :: hash64_func
  mem_alloc_func :: "(nat \<Rightarrow> heap_alloc_func) option"
  mem_dealloc_func :: "heap_free_func option"
  node_alloc_func :: heap_alloc_func
  node_dealloc_func :: heap_free_func
  hash_size :: nat
  element_count :: nat
  is_multiple_values_hash :: bool
  nodes :: "nat \<rightharpoonup> hash64_node"

section \<open>Operations\<close>

definition hash64_retrieve_appropriate_array_cell :: "hash64_table \<Rightarrow> nat \<Rightarrow> nat option" where
  "hash64_retrieve_appropriate_array_cell h key = do {
     cell_index \<leftarrow> hash_func h key (hash_size h);
     if cell_index < length (hash_array h) then Some cell_index else None
   }"

partial_function (option) hash64_find_loop ::
    "(nat \<rightharpoonup> hash64_node) \<Rightarrow> nat \<Rightarrow> nat \<Rightarrow> nat option" where
  "hash64_find_loop ns key node =
     (if node = 0 then Some 0
      else do {
        n \<leftarrow> ns node;
        if node_key n = key then Some node else hash64_find_loop ns key (node_next n)
      })"

definition hash64_find :: "hash64_table \<Rightarrow> nat \<Rightarrow> nat option" where
  "hash64_find h key = do {
     cell \<leftarrow> hash64_retrieve_appropriate_array_cell h key;
     hash64_find_loop (nodes h) key (hash_array h ! cell)
   }"

definition hash64_insert_internal ::
    "bool \<Rightarrow> hash64_table \<Rightarrow> nat \<Rightarrow> nat \<Rightarrow> bool \<Rightarrow> heap_state
       \<Rightarrow> (bool \<times> hash64_table \<times> heap_state) option" where
  "hash64_insert_internal chk h key value update_when_found s = do {
     node \<leftarrow> (if update_when_found then hash64_find h key
              else do { f \<leftarrow> hash64_find h key; vmm_assert chk (f = 0); Some 0 });
     if node = 0
     then do {
       (new, s') \<leftarrow> node_alloc_func h s;
       if new = 0 then Some (False, h, s')
       else do {
         cell \<leftarrow> hash64_retrieve_appropriate_array_cell h key;
         let h' = h \<lparr> nodes := (nodes h)(new \<mapsto>
                          \<lparr> node_next = hash_array h ! cell, node_key = key, node_value = value \<rparr>),
                      hash_array := (hash_array h)[cell := new],
                      element_count := u32 (element_count h + 1) \<rparr>;
         f \<leftarrow> hash64_find h' key;
         vmm_assert chk (f \<noteq> 0);
         Some (True, h', s')
       }
     }
     else do {
       n \<leftarrow> nodes h node;
       vmm_assert chk (node_key n = key);
       let h' = h \<lparr> nodes := (nodes h)(node \<mapsto> n \<lparr> node_value := value \<rparr>) \<rparr>;
       f \<leftarrow> hash64_find h' key;
       vmm_assert chk (f \<noteq> 0);
       Some (True, h', s)
     }
   }"

text \<open>
  Allocation of the table and of its cells: a \<^verbatim>\<open>NULL\<close> function pointer selects the page heap.
  The size of the cell array is computed in 64 bits and passed as a 32-bit argument.
\<close>

definition hash64_mem_alloc ::
    "bool \<Rightarrow> (nat \<Rightarrow> heap_alloc_func) option \<Rightarrow> nat \<Rightarrow> heap_alloc_func" where
  "hash64_mem_alloc chk mem_alloc bytes s =
     (case mem_alloc of None \<Rightarrow> vmm_memory_allocate chk (u32 bytes) s | Some f \<Rightarrow> f (u32 bytes) s)"

definition hash64_mem_free ::
    "bool \<Rightarrow> heap_free_func option \<Rightarrow> nat \<Rightarrow> heap_state \<Rightarrow> heap_state option" where
  "hash64_mem_free chk mem_dealloc p s =
     (case mem_dealloc of None \<Rightarrow> vmm_page_free chk p s | Some f \<Rightarrow> f p s)"

text \<open>
  The result \<^term>\<open>None\<close> of \<open>hash64_create_hash_internal\<close> inside the outer option is
  \<^verbatim>\<open>HASH64_INVALID_HANDLE\<close>.  An allocator returns room for as many cells as it was asked for, so
  that a truncated size gives an array that the clearing loop overruns.
\<close>

definition hash64_create_hash_internal ::
    "bool \<Rightarrow> hash64_func \<Rightarrow> (nat \<Rightarrow> heap_alloc_func) option \<Rightarrow> heap_free_func option
       \<Rightarrow> heap_alloc_func \<Rightarrow> heap_free_func \<Rightarrow> nat \<Rightarrow> bool \<Rightarrow> heap_state
       \<Rightarrow> (hash64_table option \<times> heap_state) option" where
  "hash64_create_hash_internal chk hf mem_alloc mem_dealloc node_alloc node_dealloc sz multiple s =
     do {
       (hash, s1) \<leftarrow> hash64_mem_alloc chk mem_alloc 72 s;
       if hash = 0 then Some (None, s1)
       else do {
         (arr, s2) \<leftarrow> hash64_mem_alloc chk mem_alloc (8 * sz) s1;
         if arr = 0
         then do {
           s3 \<leftarrow> hash64_mem_free chk mem_dealloc hash s2;
           Some (None, s3)
         }
         else do {
           cells \<leftarrow> arr_fill (\<lambda>_. 0) (replicate (u32 (8 * sz) div 8) 0) 0 sz;
           Some (Some \<lparr> hash_addr = hash, array_addr = arr, hash_array = cells, hash_func = hf,
                        mem_alloc_func = mem_alloc, mem_dealloc_func = mem_dealloc,
                        node_alloc_func = node_alloc, node_dealloc_func = node_dealloc,
                        hash_size = sz, element_count = 0,
                        is_multiple_values_hash = multiple, nodes = Map.empty \<rparr>, s2)
         }
       }
     }"

text \<open>The loops of \<open>hash64_destroy_hash_internal\<close>.\<close>

partial_function (option) hash64_destroy_values ::
    "hash64_table \<Rightarrow> nat \<Rightarrow> heap_state \<Rightarrow> heap_state option" where
  "hash64_destroy_values h node s =
     (if node = 0 then Some s
      else do {
        n \<leftarrow> nodes h node;
        s' \<leftarrow> node_dealloc_func h node s;
        hash64_destroy_values h (node_next n) s'
      })"

partial_function (option) hash64_destroy_chain ::
    "bool \<Rightarrow> hash64_table \<Rightarrow> nat \<Rightarrow> nat \<Rightarrow> heap_state \<Rightarrow> (nat \<times> heap_state) option" where
  "hash64_destroy_chain chk h cnt node s =
     (if node = 0 then Some (cnt, s)
      else do {
        n \<leftarrow> nodes h node;
        vmm_assert chk (cnt \<noteq> 0);
        s1 \<leftarrow> (if is_multiple_values_hash h then hash64_destroy_values h (node_value n) s
               else Some s);
        s2 \<leftarrow> node_dealloc_func h node s1;
        hash64_destroy_chain chk h (u32_sub cnt 1) (node_next n) s2
      })"

fun hash64_destroy_cells ::
    "bool \<Rightarrow> hash64_table \<Rightarrow> nat \<Rightarrow> nat list \<Rightarrow> heap_state \<Rightarrow> (nat \<times> heap_state) option" where
  "hash64_destroy_cells chk h cnt [] s = Some (cnt, s)"
| "hash64_destroy_cells chk h cnt (node # cells) s =
     (if cnt = 0
      then do { vmm_assert chk (node = 0); Some (cnt, s) }
      else do {
        (cnt', s') \<leftarrow> hash64_destroy_chain chk h cnt node s;
        hash64_destroy_cells chk h cnt' cells s'
      })"

definition hash64_destroy_hash_internal ::
    "bool \<Rightarrow> hash64_table \<Rightarrow> heap_state \<Rightarrow> heap_state option" where
  "hash64_destroy_hash_internal chk h s = do {
     (cnt, s1) \<leftarrow> hash64_destroy_cells chk h (element_count h) (take (hash_size h) (hash_array h)) s;
     vmm_assert chk (cnt = 0);
     s2 \<leftarrow> hash64_mem_free chk (mem_dealloc_func h) (array_addr h) s1;
     hash64_mem_free chk (mem_dealloc_func h) (hash_addr h) s2
   }"

definition hash64_get_node_size :: nat where
  "hash64_get_node_size = 24"

definition hash64_create_hash ::
    "bool \<Rightarrow> hash64_func \<Rightarrow> (nat \<Rightarrow> heap_alloc_func) option \<Rightarrow> heap_free_func option
       \<Rightarrow> heap_alloc_func \<Rightarrow> heap_free_func \<Rightarrow> nat \<Rightarrow> heap_state
       \<Rightarrow> (hash64_table option \<times> heap_state) option" where
  "hash64_create_hash chk hf mem_alloc mem_dealloc node_alloc node_dealloc sz s =
     hash64_create_hash_internal chk hf mem_alloc mem_dealloc node_alloc node_dealloc sz False s"

definition hash64_destroy_hash :: "bool \<Rightarrow> hash64_table \<Rightarrow> heap_state \<Rightarrow> heap_state option" where
  "hash64_destroy_hash chk h s = do {
     vmm_assert chk (\<not> is_multiple_values_hash h);
     hash64_destroy_hash_internal chk h s
   }"

definition hash64_destroy_multiple_values_hash ::
    "bool \<Rightarrow> hash64_table \<Rightarrow> heap_state \<Rightarrow> heap_state option" where
  "hash64_destroy_multiple_values_hash chk h s = do {
     vmm_assert chk (is_multiple_values_hash h);
     hash64_destroy_hash_internal chk h s
   }"

text \<open>A remainder by zero does not return.\<close>

definition hash64_default_hash_func :: hash64_func where
  "hash64_default_hash_func key sz = (if sz = 0 then None else Some (u32 (key mod sz)))"

definition hash64_default_node_alloc_func :: "bool \<Rightarrow> heap_alloc_func" where
  "hash64_default_node_alloc_func chk s = vmm_memory_allocate chk hash64_get_node_size s"

definition hash64_default_node_dealloc_func :: "bool \<Rightarrow> heap_free_func" where
  "hash64_default_node_dealloc_func chk p s = vmm_page_free chk p s"

definition hash64_create_default_hash ::
    "bool \<Rightarrow> nat \<Rightarrow> heap_state \<Rightarrow> (hash64_table option \<times> heap_state) option" where
  "hash64_create_default_hash chk sz s =
     hash64_create_hash chk hash64_default_hash_func None None
       (hash64_default_node_alloc_func chk) (hash64_default_node_dealloc_func chk) sz s"

text \<open>
  The public operations take a handle, for which \<^const>\<open>None\<close> is \<^verbatim>\<open>NULL\<close>.  \<open>hash64_lookup\<close> returns
  the value it stores through its output pointer, or \<^const>\<open>None\<close> for \<^verbatim>\<open>FALSE\<close>.
\<close>

definition hash64_lookup :: "bool \<Rightarrow> hash64_table option \<Rightarrow> nat \<Rightarrow> nat option option" where
  "hash64_lookup chk handle key =
     (case handle of
        None \<Rightarrow> Some None
      | Some h \<Rightarrow> do {
          node \<leftarrow> hash64_find h key;
          if node \<noteq> 0
          then do {
            n \<leftarrow> nodes h node;
            vmm_assert chk (node_key n = key);
            Some (Some (node_value n))
          }
          else Some None
        })"

definition hash64_insert ::
    "bool \<Rightarrow> hash64_table option \<Rightarrow> nat \<Rightarrow> nat \<Rightarrow> heap_state
       \<Rightarrow> (bool \<times> hash64_table option \<times> heap_state) option" where
  "hash64_insert chk handle key value s =
     (case handle of
        None \<Rightarrow> Some (False, None, s)
      | Some h \<Rightarrow> do {
          (r, h', s') \<leftarrow> hash64_insert_internal chk h key value False s;
          Some (r, Some h', s')
        })"

definition hash64_update ::
    "bool \<Rightarrow> hash64_table option \<Rightarrow> nat \<Rightarrow> nat \<Rightarrow> heap_state
       \<Rightarrow> (bool \<times> hash64_table option \<times> heap_state) option" where
  "hash64_update chk handle key value s =
     (case handle of
        None \<Rightarrow> Some (False, None, s)
      | Some h \<Rightarrow> do {
          (r, h', s') \<leftarrow> hash64_insert_internal chk h key value True s;
          Some (r, Some h', s')
        })"

text \<open>
  \<open>hash64_remove\<close>: \<open>hash64_unlink\<close> is the common end of its two branches, after the node has been
  taken out of the chain.
\<close>

definition hash64_unlink ::
    "bool \<Rightarrow> hash64_table \<Rightarrow> nat \<Rightarrow> nat \<Rightarrow> heap_state
       \<Rightarrow> (bool \<times> hash64_table option \<times> heap_state) option" where
  "hash64_unlink chk h key node s = do {
     f \<leftarrow> hash64_find h key;
     vmm_assert chk (f = 0);
     s' \<leftarrow> node_dealloc_func h node s;
     vmm_assert chk (0 < element_count h);
     Some (True, Some (h \<lparr> nodes := (nodes h)(node := None),
                           element_count := u32_sub (element_count h) 1 \<rparr>), s')
   }"

partial_function (option) hash64_remove_loop ::
    "bool \<Rightarrow> hash64_table \<Rightarrow> nat \<Rightarrow> nat \<Rightarrow> heap_state
       \<Rightarrow> (bool \<times> hash64_table option \<times> heap_state) option" where
  "hash64_remove_loop chk h key node s =
     (if node = 0 then Some (False, Some h, s)
      else do {
        prev \<leftarrow> nodes h node;
        if node_next prev = 0 then Some (False, Some h, s)
        else do {
          n \<leftarrow> nodes h (node_next prev);
          if node_key n = key
          then hash64_unlink chk
                 (h \<lparr> nodes := (nodes h)(node \<mapsto> prev \<lparr> node_next := node_next n \<rparr>) \<rparr>)
                 key (node_next prev) s
          else hash64_remove_loop chk h key (node_next prev) s
        }
      })"

definition hash64_remove ::
    "bool \<Rightarrow> hash64_table option \<Rightarrow> nat \<Rightarrow> heap_state
       \<Rightarrow> (bool \<times> hash64_table option \<times> heap_state) option" where
  "hash64_remove chk handle key s =
     (case handle of
        None \<Rightarrow> Some (False, None, s)
      | Some h \<Rightarrow> do {
          f \<leftarrow> hash64_find h key;
          vmm_assert chk (f \<noteq> 0);
          cell \<leftarrow> hash64_retrieve_appropriate_array_cell h key;
          let node = hash_array h ! cell;
          if node = 0 then Some (False, Some h, s)
          else do {
            n \<leftarrow> nodes h node;
            if node_key n = key
            then hash64_unlink chk (h \<lparr> hash_array := (hash_array h)[cell := node_next n] \<rparr>)
                   key node s
            else hash64_remove_loop chk h key node s
          }
        })"

definition hash64_is_empty :: "hash64_table option \<Rightarrow> bool" where
  "hash64_is_empty handle =
     (case handle of None \<Rightarrow> False | Some h \<Rightarrow> element_count h = 0)"

text \<open>The two loops of \<open>hash64_change_size_and_rehash\<close>; \<open>h\<close> already has the new array.\<close>

partial_function (option) hash64_rehash_chain ::
    "hash64_table \<Rightarrow> nat \<Rightarrow> hash64_table option" where
  "hash64_rehash_chain h node =
     (if node = 0 then Some h
      else do {
        n \<leftarrow> nodes h node;
        cell \<leftarrow> hash64_retrieve_appropriate_array_cell h (node_key n);
        hash64_rehash_chain
          (h \<lparr> nodes := (nodes h)(node \<mapsto> n \<lparr> node_next := hash_array h ! cell \<rparr>),
               hash_array := (hash_array h)[cell := node] \<rparr>)
          (node_next n)
      })"

fun hash64_rehash_cells :: "hash64_table \<Rightarrow> nat list \<Rightarrow> hash64_table option" where
  "hash64_rehash_cells h [] = Some h"
| "hash64_rehash_cells h (node # cells) = do {
     h' \<leftarrow> hash64_rehash_chain h node;
     hash64_rehash_cells h' cells
   }"

definition hash64_change_size_and_rehash ::
    "bool \<Rightarrow> hash64_table option \<Rightarrow> nat \<Rightarrow> heap_state
       \<Rightarrow> (bool \<times> hash64_table option \<times> heap_state) option" where
  "hash64_change_size_and_rehash chk handle sz s =
     (case handle of
        None \<Rightarrow> Some (False, None, s)
      | Some h \<Rightarrow> do {
          (arr, s1) \<leftarrow> hash64_mem_alloc chk (mem_alloc_func h) (8 * sz) s;
          if arr = 0 then Some (False, Some h, s1)
          else do {
            cells \<leftarrow> arr_fill (\<lambda>_. 0) (replicate (u32 (8 * sz) div 8) 0) 0 sz;
            h' \<leftarrow> hash64_rehash_cells
                    (h \<lparr> hash_array := cells, array_addr := arr, hash_size := sz \<rparr>)
                    (take (hash_size h) (hash_array h));
            s2 \<leftarrow> hash64_mem_free chk (mem_dealloc_func h) (array_addr h) s1;
            Some (True, Some h', s2)
          }
        })"

definition hash64_get_num_of_elements :: "bool \<Rightarrow> hash64_table option \<Rightarrow> nat option" where
  "hash64_get_num_of_elements chk handle = do {
     vmm_assert chk (handle \<noteq> None);
     h \<leftarrow> handle;
     Some (element_count h)
   }"

section \<open>Abstract view\<close>

text \<open>
  The entries of a table are the keys and values of its nodes, wherever the cells and the \<^verbatim>\<open>next\<close> pointers
  place them; the map of a table is the map of its entries.
\<close>

definition hash64_entries :: "hash64_table \<Rightarrow> (nat \<times> nat) set" where
  "hash64_entries h = {(node_key n, node_value n) |p n. nodes h p = Some n}"

definition hash64_abs :: "hash64_table \<Rightarrow> nat \<rightharpoonup> nat" where
  "hash64_abs h key =
     (if \<exists>v. (key, v) \<in> hash64_entries h then Some (THE v. (key, v) \<in> hash64_entries h) else None)"

text \<open>The chain of nodes that starts at a pointer.\<close>

fun chain :: "(nat \<rightharpoonup> hash64_node) \<Rightarrow> nat \<Rightarrow> nat list \<Rightarrow> bool" where
  "chain ns p [] \<longleftrightarrow> p = 0"
| "chain ns p (q # qs) \<longleftrightarrow>
     p = q \<and> q \<noteq> 0 \<and> (case ns q of None \<Rightarrow> False | Some n \<Rightarrow> chain ns (node_next n) qs)"

abbreviation key_at :: "hash64_table \<Rightarrow> nat \<Rightarrow> nat" where
  "key_at h p \<equiv> node_key (the (nodes h p))"

text \<open>
  The invariant: \<open>css\<close> lists the nodes of every cell and \<open>rest\<close> the nodes that are not yet in
  a cell (while a table is rehashed).  Nodes are not shared, every node is in the cell its key
  hashes to, no two nodes have the same key, the counter counts the nodes.
\<close>

definition hash64_part :: "hash64_table \<Rightarrow> nat list list \<Rightarrow> nat list \<Rightarrow> bool" where
  "hash64_part h css rest \<longleftrightarrow>
     0 < hash_size h \<and> length (hash_array h) = hash_size h \<and> length css = hash_size h \<and>
     (\<forall>i < hash_size h. chain (nodes h) (hash_array h ! i) (css ! i)) \<and>
     distinct (concat css @ rest) \<and>
     dom (nodes h) = set (concat css @ rest) \<and> 0 \<notin> dom (nodes h) \<and>
     (\<forall>i < hash_size h. \<forall>p \<in> set (css ! i).
        hash_func h (key_at h p) (hash_size h) = Some i) \<and>
     inj_on (key_at h) (dom (nodes h)) \<and>
     element_count h = length (concat css @ rest) \<and> element_count h < 2 ^ 32 - 1"

definition hash64_inv :: "hash64_table \<Rightarrow> bool" where
  "hash64_inv h \<longleftrightarrow> (\<exists>css. hash64_part h css [])"

text \<open>The nodes of the table are live buffers of the node allocator.\<close>

definition hash64_owns :: "(heap_state \<Rightarrow> nat \<Rightarrow> bool) \<Rightarrow> hash64_table \<Rightarrow> heap_state \<Rightarrow> bool" where
  "hash64_owns live h s \<longleftrightarrow> (\<forall>p \<in> dom (nodes h). live s p)"

text \<open>What is needed of the hash function: it maps every key to a cell.\<close>

definition hash64_total :: "hash64_func \<Rightarrow> bool" where
  "hash64_total hf \<longleftrightarrow> (\<forall>key sz. 0 < sz \<and> sz < 2 ^ 32 \<longrightarrow> (\<exists>i < sz. hf key sz = Some i))"

definition hash64_wf ::
    "hash64_func \<Rightarrow> heap_alloc_func \<Rightarrow> heap_free_func \<Rightarrow> (heap_state \<Rightarrow> nat \<Rightarrow> bool)
       \<Rightarrow> hash64_table \<Rightarrow> heap_state \<Rightarrow> bool" where
  "hash64_wf hf alloc dealloc live h s \<longleftrightarrow>
     hash64_inv h \<and> hash_func h = hf \<and> node_alloc_func h = alloc \<and>
     node_dealloc_func h = dealloc \<and> hash_size h < 2 ^ 32 \<and> hash64_owns live h s"

text \<open>An operation on the nodes keeps the buffers that are not nodes and the fields of the table.\<close>

definition hash64_keeps ::
    "(heap_state \<Rightarrow> nat \<Rightarrow> bool) \<Rightarrow> hash64_table \<Rightarrow> heap_state \<Rightarrow> hash64_table \<Rightarrow> heap_state \<Rightarrow> bool" where
  "hash64_keeps live h s h' s' \<longleftrightarrow>
     (\<forall>b. live s' b \<and> b \<notin> dom (nodes h') \<longleftrightarrow> live s b \<and> b \<notin> dom (nodes h)) \<and>
     h' = h \<lparr> nodes := nodes h', hash_array := hash_array h', element_count := element_count h' \<rparr>"

abbreviation key_value_at :: "hash64_table \<Rightarrow> nat \<Rightarrow> (nat \<times> nat) option" where
  "key_value_at h p \<equiv> map_option (\<lambda>n. (node_key n, node_value n)) (nodes h p)"

definition hash64_table_ok ::
    "(nat \<Rightarrow> heap_alloc_func) option \<Rightarrow> heap_free_func option \<Rightarrow> (heap_state \<Rightarrow> nat \<Rightarrow> bool)
       \<Rightarrow> hash64_table \<Rightarrow> heap_state \<Rightarrow> bool" where
  "hash64_table_ok mem_alloc mem_dealloc live h s \<longleftrightarrow>
     mem_alloc_func h = mem_alloc \<and> mem_dealloc_func h = mem_dealloc \<and>
     live s (hash_addr h) \<and> live s (array_addr h) \<and> hash_addr h \<noteq> array_addr h \<and>
     hash_addr h \<notin> dom (nodes h) \<and> array_addr h \<notin> dom (nodes h)"

definition hash64_owned :: "hash64_table \<Rightarrow> nat set" where
  "hash64_owned h = {hash_addr h, array_addr h} \<union> dom (nodes h)"

definition heap_buffer :: "heap_state \<Rightarrow> nat \<Rightarrow> bool" where
  "heap_buffer s a \<longleftrightarrow> (\<exists>n. heap_live s a n)"

definition hash64_default_ok :: "bool \<Rightarrow> hash64_table \<Rightarrow> heap_state \<Rightarrow> bool" where
  "hash64_default_ok chk h s \<longleftrightarrow> heap_ok s \<and> \<not> is_multiple_values_hash h \<and>
     hash64_wf hash64_default_hash_func (hash64_default_node_alloc_func chk)
       (hash64_default_node_dealloc_func chk) heap_buffer h s \<and>
     hash64_table_ok None None heap_buffer h s"

text \<open>The buffers of the heap that do not belong to the table.\<close>

definition hash64_foreign :: "hash64_table \<Rightarrow> heap_state \<Rightarrow> nat set" where
  "hash64_foreign h s = {b. heap_buffer s b \<and> b \<notin> hash64_owned h}"


section \<open>Chains\<close>

lemma chain_frame: "(\<And>q. q \<in> set ps \<Longrightarrow> ns' q = ns q) \<Longrightarrow> chain ns' p ps = chain ns p ps"
  by (induction ps arbitrary: p) (auto split: option.splits)

lemma chain_frame_upd [simp]: "q \<notin> set ps \<Longrightarrow> chain (ns(q := x)) p ps = chain ns p ps"
  by (rule chain_frame) auto

lemma chain_dom: "chain ns p ps \<Longrightarrow> set ps \<subseteq> dom ns \<and> 0 \<notin> set ps"
  by (induction ps arbitrary: p) (auto split: option.splits)

lemma chain_next:
  "chain ns p (q # qs) \<longleftrightarrow> p = q \<and> q \<noteq> 0 \<and> (\<exists>n. ns q = Some n \<and> chain ns (node_next n) qs)"
  by (auto split: option.splits)

lemma hash64_find_loop_chain:
  assumes "chain ns p ps"
  shows "hash64_find_loop ns key p =
    Some (case List.find (\<lambda>q. node_key (the (ns q)) = key) ps of None \<Rightarrow> 0 | Some q \<Rightarrow> q)"
  using assms
  by (induction ps arbitrary: p)
     (auto simp: hash64_find_loop.simps split: option.splits)

lemma concat_list_update:
  assumes "i < length css"
  shows "concat (css[i := ys]) = concat (take i css) @ ys @ concat (drop (Suc i) css)"
    and "concat css = concat (take i css) @ css ! i @ concat (drop (Suc i) css)"
proof -
  show "concat (css[i := ys]) = concat (take i css) @ ys @ concat (drop (Suc i) css)"
    using assms by (simp add: upd_conv_take_nth_drop)
  have "concat css = concat (take i css @ css ! i # drop (Suc i) css)"
    using id_take_nth_drop [OF assms] by simp
  then show "concat css = concat (take i css) @ css ! i @ concat (drop (Suc i) css)"
    by simp
qed

lemma concat_eq_set_nth: "p \<in> set (concat css) \<Longrightarrow> \<exists>j < length css. p \<in> set (css ! j)"
  by (metis in_set_conv_nth set_concat UN_E)

lemma concat_cons_cell:
  assumes "i < length css"
  shows "set (concat (css[i := p # css ! i])) = insert p (set (concat css))"
    and "length (concat (css[i := p # css ! i])) = Suc (length (concat css))"
    and "distinct (concat (css[i := p # css ! i]) @ rest) \<longleftrightarrow> distinct (concat css @ p # rest)"
  by (auto simp: concat_list_update [OF assms] simp del: concat_append)

lemma hash64_total_default: "hash64_total hash64_default_hash_func"
  unfolding hash64_total_def
proof (intro allI impI)
  fix key sz :: nat
  assume sz: "0 < sz \<and> sz < 2 ^ 32"
  then have "key mod sz < sz" by simp
  moreover from this sz have "u32 (key mod sz) = key mod sz" by (intro u32_id) linarith
  ultimately show "\<exists>i < sz. hash64_default_hash_func key sz = Some i"
    using sz by (simp add: hash64_default_hash_func_def)
qed

lemma hash64_partD:
  assumes "hash64_part h css rest"
  shows "0 < hash_size h" "length (hash_array h) = hash_size h" "length css = hash_size h"
    "\<And>i. i < hash_size h \<Longrightarrow> chain (nodes h) (hash_array h ! i) (css ! i)"
    "distinct (concat css @ rest)" "dom (nodes h) = set (concat css @ rest)"
    "\<And>i p. i < hash_size h \<Longrightarrow> p \<in> set (css ! i) \<Longrightarrow>
       hash_func h (key_at h p) (hash_size h) = Some i"
    "inj_on (key_at h) (dom (nodes h))"
    "element_count h = length (concat css @ rest)" "element_count h < 2 ^ 32 - 1"
    "0 \<notin> dom (nodes h)"
  using assms unfolding hash64_part_def by (elim conjE, (assumption | blast))+

lemma hash64_partI:
  assumes "0 < hash_size h" "length (hash_array h) = hash_size h" "length css = hash_size h"
    "\<And>i. i < hash_size h \<Longrightarrow> chain (nodes h) (hash_array h ! i) (css ! i)"
    "distinct (concat css @ rest)" "dom (nodes h) = set (concat css @ rest)"
    "\<And>i p. i < hash_size h \<Longrightarrow> p \<in> set (css ! i) \<Longrightarrow>
       hash_func h (key_at h p) (hash_size h) = Some i"
    "inj_on (key_at h) (dom (nodes h))"
    "element_count h = length (concat css @ rest)" "element_count h < 2 ^ 32 - 1"
    "0 \<notin> dom (nodes h)"
  shows "hash64_part h css rest"
  unfolding hash64_part_def by (intro conjI allI ballI impI) (fact assms | (rule assms; assumption))+

lemma hash64_cell:
  assumes "hash64_part h css rest" "hash64_total (hash_func h)" "hash_size h < 2 ^ 32"
  obtains i where "i < hash_size h" "hash_func h key (hash_size h) = Some i"
    "hash64_retrieve_appropriate_array_cell h key = Some i"
proof -
  note P = hash64_partD [OF assms(1)]
  from assms(2,3) P(1) obtain i where "i < hash_size h" "hash_func h key (hash_size h) = Some i"
    unfolding hash64_total_def by blast
  with P(2) that show thesis
    by (simp add: hash64_retrieve_appropriate_array_cell_def)
qed

text \<open>\<open>hash64_find\<close> finds the node with the key among the nodes that are in a cell.\<close>

lemma hash64_find_part:
  assumes part: "hash64_part h css rest" and tot: "hash64_total (hash_func h)" "hash_size h < 2 ^ 32"
  shows "\<forall>p \<in> set (concat css). key_at h p \<noteq> key \<Longrightarrow> hash64_find h key = Some 0"
    and "p \<in> set (concat css) \<Longrightarrow> key_at h p = key \<Longrightarrow> hash64_find h key = Some p \<and> p \<noteq> 0"
proof -
  note P = hash64_partD [OF part]
  obtain i where i: "i < hash_size h" "hash_func h key (hash_size h) = Some i"
    "hash64_retrieve_appropriate_array_cell h key = Some i"
    using hash64_cell [OF part tot] .
  have f: "hash64_find h key
      = Some (case List.find (\<lambda>q. key_at h q = key) (css ! i) of None \<Rightarrow> 0 | Some q \<Rightarrow> q)"
    by (simp add: hash64_find_def i(3) hash64_find_loop_chain [OF P(4) [OF i(1)]])
  have sub: "set (css ! i) \<subseteq> dom (nodes h)" "0 \<notin> set (css ! i)"
    using chain_dom [OF P(4) [OF i(1)]] by auto
  have cell: "css ! i \<in> set css" using i(1) P(3) by simp
  show "hash64_find h key = Some 0" if "\<forall>p \<in> set (concat css). key_at h p \<noteq> key"
  proof -
    have "List.find (\<lambda>q. key_at h q = key) (css ! i) = None"
      unfolding find_None_iff using that cell by auto
    then show ?thesis using f by simp
  qed
  show "hash64_find h key = Some p \<and> p \<noteq> 0" if p: "p \<in> set (concat css)" "key_at h p = key"
  proof -
    obtain cs where "cs \<in> set css" "p \<in> set cs" using p(1) by auto
    then obtain j where j: "j < hash_size h" "p \<in> set (css ! j)"
      using P(3) by (metis in_set_conv_nth)
    then have "hash_func h (key_at h p) (hash_size h) = Some j" by (rule P(7))
    then have in_i: "p \<in> set (css ! i)" using p(2) i(2) j by simp
    then have "List.find (\<lambda>q. key_at h q = key) (css ! i) \<noteq> None"
      unfolding find_None_iff using p(2) by blast
    then obtain r where r: "List.find (\<lambda>q. key_at h q = key) (css ! i) = Some r" by blast
    then have "r \<in> set (css ! i)" "key_at h r = key"
      by (auto simp: find_Some_iff)
    then have "key_at h r = key_at h p" "r \<in> dom (nodes h)" "p \<in> dom (nodes h)"
      using p sub in_i by auto
    then have "r = p" by (rule inj_onD [OF P(8)])
    then show ?thesis using f r sub in_i by (cases "p = 0") auto
  qed
qed

lemma hash64_find_correct:
  assumes part: "hash64_part h css []" and tot: "hash64_total (hash_func h)" "hash_size h < 2 ^ 32"
  shows "hash64_find h key = Some 0 \<longleftrightarrow> (\<forall>p n. nodes h p = Some n \<longrightarrow> node_key n \<noteq> key)"
    and "nodes h p = Some n \<Longrightarrow> node_key n = key \<Longrightarrow> hash64_find h key = Some p \<and> p \<noteq> 0"
proof -
  have dom: "dom (nodes h) = set (concat css)" using hash64_partD(6) [OF part] by simp
  show some: "nodes h p = Some n \<Longrightarrow> node_key n = key \<Longrightarrow> hash64_find h key = Some p \<and> p \<noteq> 0"
    for p n
    using hash64_find_part(2) [OF part tot, of p key] dom by (metis domI option.sel)
  show "hash64_find h key = Some 0 \<longleftrightarrow> (\<forall>p n. nodes h p = Some n \<longrightarrow> node_key n \<noteq> key)"
  proof
    assume "hash64_find h key = Some 0"
    then show "\<forall>p n. nodes h p = Some n \<longrightarrow> node_key n \<noteq> key" using some by fastforce
  next
    assume "\<forall>p n. nodes h p = Some n \<longrightarrow> node_key n \<noteq> key"
    then have "\<forall>p \<in> set (concat css). key_at h p \<noteq> key"
      unfolding dom [symmetric] by (metis domD option.sel)
    then show "hash64_find h key = Some 0" by (rule hash64_find_part(1) [OF part tot])
  qed
qed

lemma hash64_abs_iff:
  assumes "hash64_part h css []" "hash64_total (hash_func h)" "hash_size h < 2 ^ 32"
  shows "hash64_abs h key = Some v \<longleftrightarrow>
    (\<exists>p n. nodes h p = Some n \<and> node_key n = key \<and> node_value n = v)"
    and "hash64_abs h key = None \<longleftrightarrow> hash64_find h key = Some 0"
proof -
  note F = hash64_find_correct [OF assms]
  have E: "(k, v) \<in> hash64_entries h \<longleftrightarrow> (\<exists>p n. nodes h p = Some n \<and> node_key n = k \<and> node_value n = v)" for k v
    by (auto simp: hash64_entries_def)
  have "v = w" if "(key, v) \<in> hash64_entries h" "(key, w) \<in> hash64_entries h" for v w
  proof -
    obtain p n q m where n: "nodes h p = Some n" "node_key n = key" "node_value n = v"
      and m: "nodes h q = Some m" "node_key m = key" "node_value m = w"
      using \<open>(key, v) \<in> _\<close> \<open>(key, w) \<in> _\<close> unfolding E by blast
    then have "p = q" using F(2) [OF n(1,2)] F(2) [OF m(1,2)] by simp
    then show ?thesis using n m by simp
  qed
  then have the: "(THE w. (key, w) \<in> hash64_entries h) = v" if "(key, v) \<in> hash64_entries h" for v
    using that by (intro the_equality)
  then show "hash64_abs h key = Some v \<longleftrightarrow>
    (\<exists>p n. nodes h p = Some n \<and> node_key n = key \<and> node_value n = v)"
    unfolding E [symmetric] hash64_abs_def by auto
  show "hash64_abs h key = None \<longleftrightarrow> hash64_find h key = Some 0"
    unfolding F(1) hash64_abs_def E by auto
qed


section \<open>Linking and unlinking nodes\<close>

lemma hash64_part_add:
  assumes part: "hash64_part h css rest" and p: "p \<notin> dom (nodes h)" "p \<noteq> 0"
    and key: "\<forall>q m. nodes h q = Some m \<longrightarrow> node_key m \<noteq> node_key n"
    and lim: "element_count h < 2 ^ 32 - 2"
    and h': "h' = h \<lparr> nodes := (nodes h)(p \<mapsto> n), element_count := u32 (element_count h + 1) \<rparr>"
  shows "hash64_part h' css (p # rest)"
proof -
  note P = hash64_partD [OF part]
  have fr: "p \<notin> set (concat css @ rest)" using p(1) P(6) by auto
  have cell: "p \<notin> set (css ! i)" if "i < hash_size h" for i
    using fr that P(3) by (auto simp: set_concat)
  have k: "key_at h' q = (if q = p then node_key n else key_at h q)" for q
    by (simp add: h')
  have inj: "inj_on (key_at h') (dom (nodes h'))"
  proof (rule inj_onI)
    fix x y assume "x \<in> dom (nodes h')" "y \<in> dom (nodes h')" "key_at h' x = key_at h' y"
    then show "x = y"
      using P(8) key p(1) by (auto simp: k h' dom_def inj_on_def split: if_splits)
  qed
  have c: "u32 (element_count h + 1) = element_count h + 1" using lim by (intro u32_id) simp
  then have cnt: "element_count h' = element_count h + 1" by (simp add: h')
  have ch: "chain (nodes h') (hash_array h' ! i) (css ! i)" if "i < hash_size h'" for i
    using P(4) cell that by (simp add: h')
  show ?thesis
  proof (rule hash64_partI)
    show "hash_func h' (key_at h' q) (hash_size h') = Some i"
      if "i < hash_size h'" "q \<in> set (css ! i)" for i q
      using P(7) [of i q] that cell by (auto simp: k) (simp_all add: h')
    show "distinct (concat css @ p # rest)" using P(5) fr by auto
    show "dom (nodes h') = set (concat css @ p # rest)" using P(6) by (auto simp: h')
    show "element_count h' = length (concat css @ p # rest)" "element_count h' < 2 ^ 32 - 1"
      using P(9) lim cnt by simp_all
    show "0 \<notin> dom (nodes h')" using P(11) p(2) by (simp add: h')
  qed (use P(1-3) ch inj in \<open>simp_all add: h'\<close>)
qed

lemma hash64_part_link:
  assumes part: "hash64_part h css (p # rest)" and n: "nodes h p = Some n"
    and i: "i < hash_size h" "hash_func h (node_key n) (hash_size h) = Some i"
    and h': "h' = h \<lparr> nodes := (nodes h)(p \<mapsto> n \<lparr> node_next := hash_array h ! i \<rparr>),
                      hash_array := (hash_array h)[i := p] \<rparr>"
  shows "hash64_part h' (css[i := p # css ! i]) rest"
proof -
  note P = hash64_partD [OF part]
  have fr: "p \<notin> set (concat css)" "p \<noteq> 0" using P(5,11) n by auto
  have cell: "p \<notin> set (css ! j)" if "j < hash_size h" for j
    using fr(1) that P(3) by (auto simp: set_concat)
  have k: "key_at h' q = key_at h q" for q using n by (simp add: h')
  have d: "dom (nodes h') = dom (nodes h)" using n by (auto simp: h')
  have il: "i < length css" using i(1) P(3) by simp
  have ch: "chain (nodes h') (hash_array h' ! j) (css[i := p # css ! i] ! j)" if "j < hash_size h'" for j
  proof (cases "j = i")
    case True
    then show ?thesis using P(2,4) cell i(1) fr(2) il by (simp add: h')
  next
    case False
    then show ?thesis using P(4) cell that by (simp add: h')
  qed
  have hf: "hash_func h' (key_at h' q) (hash_size h') = Some j"
    if "j < hash_size h'" "q \<in> set (css[i := p # css ! i] ! j)" for j q
  proof (cases "j = i")
    case True
    then show ?thesis unfolding k using that i n il P(7) [of i q] by (auto simp: h')
  next
    case False
    then show ?thesis unfolding k using that P(7) [of j q] by (simp add: h')
  qed
  note C = concat_cons_cell [OF il, of p]
  show ?thesis
  proof (rule hash64_partI)
    show "distinct (concat (css[i := p # css ! i]) @ rest)" unfolding C(3) by (rule P(5))
    show "dom (nodes h') = set (concat (css[i := p # css ! i]) @ rest)"
      using P(6) C(1) unfolding d set_append by auto
    show "inj_on (key_at h') (dom (nodes h'))" using P(8) by (simp only: d k)
    show "element_count h' = length (concat (css[i := p # css ! i]) @ rest)"
      using P(9) C(2) by (simp add: h')
    show "0 \<notin> dom (nodes h')" using P(11) by (simp only: d not_False_eq_True)
  qed (use P(1-3,10) ch hf in \<open>simp_all add: h'\<close>)
qed

lemma hash64_part_drop:
  assumes part: "hash64_part h css (p # rest)"
    and h': "h' = h \<lparr> nodes := (nodes h)(p := None), element_count := u32_sub (element_count h) 1 \<rparr>"
  shows "hash64_part h' css rest"
proof -
  note P = hash64_partD [OF part]
  have fr: "p \<notin> set (concat css @ rest)" using P(5) by auto
  have cell: "p \<notin> set (css ! j)" if "j < hash_size h" for j
    using fr that P(3) by (auto simp: set_concat)
  have c: "u32_sub (element_count h) 1 = element_count h - 1"
    using P(9,10) by (intro u32_sub_id) simp_all
  then have cnt: "element_count h' = element_count h - 1" by (simp add: h')
  have inj: "inj_on (key_at h') (dom (nodes h'))"
    using P(8) by (auto simp: h' inj_on_def)
  have ch: "chain (nodes h') (hash_array h' ! i) (css ! i)" if "i < hash_size h'" for i
    using P(4) cell that by (simp add: h')
  show ?thesis
  proof (rule hash64_partI)
    show "hash_func h' (key_at h' q) (hash_size h') = Some i"
      if "i < hash_size h'" "q \<in> set (css ! i)" for i q
      using P(7) [of i q] that cell [of i] by (auto simp: h')
    show "distinct (concat css @ rest)" using P(5) by auto
    show "dom (nodes h') = set (concat css @ rest)" using P(6) fr by (auto simp: h')
    show "element_count h' = length (concat css @ rest)" "element_count h' < 2 ^ 32 - 1"
      using P(9,10) cnt by simp_all
    show "0 \<notin> dom (nodes h')" using P(11) by (simp add: h')
  qed (use P(1-3) ch inj in \<open>simp_all add: h'\<close>)
qed

lemma chain_unlink_next:
  assumes "chain ns a (xs @ q # p # ys)" "distinct (xs @ q # p # ys)" "ns q = Some m" "ns p = Some n"
  shows "chain (ns(q \<mapsto> m \<lparr> node_next := node_next n \<rparr>)) a (xs @ q # ys)"
  using assms
proof (induction xs arbitrary: a)
  case (Cons x xs)
  then show ?case by (auto split: option.splits)
qed simp

lemma hash64_part_unlink:
  assumes part: "hash64_part h css []" and i: "i < hash_size h" "css ! i = xs @ p # ys"
    and n: "nodes h p = Some n"
    and h': "h' = (case rev xs of
        [] \<Rightarrow> h \<lparr> hash_array := (hash_array h)[i := node_next n] \<rparr>
      | q # _ \<Rightarrow> h \<lparr> nodes := (nodes h)(q \<mapsto> (the (nodes h q)) \<lparr> node_next := node_next n \<rparr>) \<rparr>)"
  shows "hash64_part h' (css[i := xs @ ys]) [p]"
proof -
  note P = hash64_partD [OF part]
  have il: "i < length css" using i(1) P(3) by simp
  have di: "distinct (concat css)" using P(5) by simp
  have cat: "concat css = concat (take i css) @ (xs @ p # ys) @ concat (drop (Suc i) css)"
    using concat_list_update(2) [OF il] i(2) by simp
  have dxs: "distinct (xs @ p # ys)" using di unfolding cat by auto
  have sub: "set (xs @ p # ys) \<subseteq> dom (nodes h)" using chain_dom [OF P(4) [OF i(1)]] i(2) by simp
  have flds: "hash_size h' = hash_size h" "hash_func h' = hash_func h" "element_count h' = element_count h"
    "length (hash_array h') = length (hash_array h)"
    by (simp_all add: h' split: list.split)
  have k: "key_at h' q = key_at h q" for q by (simp add: h' split: list.split)
  have d: "dom (nodes h') = dom (nodes h)"
  proof (cases xs rule: rev_cases)
    case (snoc zs q)
    then show ?thesis using sub by (auto simp: h')
  qed (simp add: h')
  have ch: "chain (nodes h') (hash_array h' ! j) (css[i := xs @ ys] ! j)" if j: "j < hash_size h'" for j
  proof (cases xs rule: rev_cases)
    case Nil
    then have "chain (nodes h) (node_next n) ys"
      using P(4) [OF i(1)] i(2) n by (simp split: option.splits)
    then show ?thesis using Nil P(2,4) j i(1) il flds by (cases "j = i") (simp_all add: h')
  next
    case (snoc zs q)
    have h'2: "h' = h \<lparr> nodes := (nodes h)(q \<mapsto> (the (nodes h q)) \<lparr> node_next := node_next n \<rparr>) \<rparr>"
      by (simp add: h' snoc)
    have q: "nodes h q = Some (the (nodes h q))" using sub snoc by auto
    show ?thesis
    proof (cases "j = i")
      case True
      then show ?thesis
        using chain_unlink_next [of "nodes h" "hash_array h ! i" zs q p ys "the (nodes h q)" n]
          P(4) [OF i(1)] i(2) dxs q n snoc il by (simp add: h'2)
    next
      case False
      have "q \<notin> set (css ! j)"
      proof
        assume "q \<in> set (css ! j)"
        then have "hash_func h (key_at h q) (hash_size h) = Some j"
          using P(7) j flds by simp
        moreover have "hash_func h (key_at h q) (hash_size h) = Some i"
          using P(7) [OF i(1), of q] i(2) snoc by simp
        ultimately show False using False by simp
      qed
      then show ?thesis using False P(4) j flds by (simp add: h'2)
    qed
  qed
  have hf: "hash_func h' (key_at h' q) (hash_size h') = Some j"
    if "j < hash_size h'" "q \<in> set (css[i := xs @ ys] ! j)" for j q
    using that P(7) [of j q] i il by (cases "j = i") (auto simp: k flds)
  have "mset (concat (css[i := xs @ ys]) @ [p]) = mset (concat css)"
    unfolding cat concat_list_update(1) [OF il] by simp
  then have m: "set (concat (css[i := xs @ ys]) @ [p]) = set (concat css)"
    "distinct (concat (css[i := xs @ ys]) @ [p]) = distinct (concat css)"
    "length (concat (css[i := xs @ ys]) @ [p]) = length (concat css)"
    using mset_eq_setD mset_eq_imp_distinct_iff mset_eq_length by blast+
  show ?thesis
  proof (rule hash64_partI)
    show "distinct (concat (css[i := xs @ ys]) @ [p])" using di m(2) by simp
    show "dom (nodes h') = set (concat (css[i := xs @ ys]) @ [p])"
      unfolding m(1) d using P(6) by simp
    show "inj_on (key_at h') (dom (nodes h'))" using P(8) by (simp only: d k)
    show "element_count h' = length (concat (css[i := xs @ ys]) @ [p])"
      unfolding m(3) flds using P(9) by simp
    show "0 \<notin> dom (nodes h')" using P(11) by (simp only: d not_False_eq_True)
  qed (use P(1-3,10) ch hf flds in simp_all)
qed


section \<open>The operations on a well-formed table\<close>

text \<open>
  The node allocator as the hash table sees it: \<open>live\<close> are the nodes that are handed out.
\<close>

locale node_allocator =
  fixes alloc :: "'s \<Rightarrow> (nat \<times> 's) option"
    and dealloc :: "nat \<Rightarrow> 's \<Rightarrow> 's option"
    and live :: "'s \<Rightarrow> nat \<Rightarrow> bool"
    and ok :: "'s \<Rightarrow> bool"
  assumes node_alloc: "ok s \<Longrightarrow> \<exists>a s'. alloc s = Some (a, s') \<and> ok s' \<and>
      (a = 0 \<longrightarrow> s' = s) \<and> (a \<noteq> 0 \<longrightarrow> \<not> live s a \<and> (\<forall>b. live s' b \<longleftrightarrow> live s b \<or> b = a))"
    and node_dealloc: "ok s \<Longrightarrow> live s a \<Longrightarrow>
      \<exists>s'. dealloc a s = Some s' \<and> ok s' \<and> (\<forall>b. live s' b \<longleftrightarrow> live s b \<and> b \<noteq> a)"

locale hash64_env = node_allocator alloc dealloc live ok
  for alloc :: heap_alloc_func and dealloc :: heap_free_func
    and live :: "heap_state \<Rightarrow> nat \<Rightarrow> bool" and ok :: "heap_state \<Rightarrow> bool" +
  fixes hf :: hash64_func
  assumes hf_total: "hash64_total hf"

lemma hash64_part_value:
  assumes part: "hash64_part h css rest" and n: "nodes h p = Some n"
    and h': "h' = h \<lparr> nodes := (nodes h)(p \<mapsto> n \<lparr> node_value := v \<rparr>) \<rparr>"
  shows "hash64_part h' css rest"
proof -
  note P = hash64_partD [OF part]
  have k: "key_at h' q = key_at h q" for q using n by (simp add: h')
  have d: "dom (nodes h') = dom (nodes h)" using n by (auto simp: h')
  have c: "chain (nodes h') q qs \<longleftrightarrow> chain (nodes h) q qs" for q qs
    using n by (induction qs arbitrary: q) (auto simp: h' split: option.splits)
  show ?thesis
    by (rule hash64_partI; (unfold k d c)?; (simp only: h' hash64_table.simps)?;
        (rule P; assumption | fact P)?) (use P in \<open>simp_all add: h'\<close>)
qed


lemma hash64_wfD:
  assumes "hash64_wf hf alloc dealloc live h s"
  obtains css where "hash64_part h css []" "hash_func h = hf" "node_alloc_func h = alloc"
    "node_dealloc_func h = dealloc" "hash_size h < 2 ^ 32" "\<forall>p \<in> dom (nodes h). live s p"
  using assms unfolding hash64_wf_def hash64_inv_def hash64_owns_def by blast

lemma hash64_wfI:
  assumes "hash64_part h css []" "hash_func h = hf" "node_alloc_func h = alloc"
    "node_dealloc_func h = dealloc" "hash_size h < 2 ^ 32" "\<forall>p \<in> dom (nodes h). live s p"
  shows "hash64_wf hf alloc dealloc live h s"
  using assms unfolding hash64_wf_def hash64_inv_def hash64_owns_def by blast

lemma hash64_abs_eqI:
  assumes "hash64_part h css []" "hash64_total (hash_func h)" "hash_size h < 2 ^ 32"
    and "\<And>k v. (\<exists>p n. nodes h p = Some n \<and> node_key n = k \<and> node_value n = v) \<longleftrightarrow> m k = Some v"
  shows "hash64_abs h = m"
proof
  fix k
  have "hash64_abs h k = Some v \<longleftrightarrow> m k = Some v" for v
    unfolding hash64_abs_iff(1) [OF assms(1-3)] by (rule assms(4))
  then show "hash64_abs h k = m k" by (metis not_None_eq)
qed

context hash64_env
begin

lemma lookup_correct:
  assumes "hash64_wf hf alloc dealloc live h s"
  shows "hash64_lookup chk (Some h) key = Some (hash64_abs h key)"
    and "hash64_abs h key = Some v \<longleftrightarrow> (\<exists>p n. nodes h p = Some n \<and> node_key n = key \<and> node_value n = v)"
proof -
  obtain css where part: "hash64_part h css []" and hf: "hash_func h = hf" and sz: "hash_size h < 2 ^ 32"
    using assms by (rule hash64_wfD)
  have tot: "hash64_total (hash_func h)" using hf hf_total by simp
  note F = hash64_find_correct [OF part tot sz]
  show iff: "hash64_abs h key = Some v \<longleftrightarrow> (\<exists>p n. nodes h p = Some n \<and> node_key n = key \<and> node_value n = v)"
    for v by (rule hash64_abs_iff(1) [OF part tot sz])
  show "hash64_lookup chk (Some h) key = Some (hash64_abs h key)"
  proof (cases "hash64_abs h key")
    case None
    then have "hash64_find h key = Some 0" using hash64_abs_iff(2) [OF part tot sz] by blast
    then show ?thesis using None by (simp add: hash64_lookup_def)
  next
    case (Some v)
    then obtain p n where p: "nodes h p = Some n" "node_key n = key" "node_value n = v" using iff by blast
    then show ?thesis using F(2) [OF p(1,2)] Some by (simp add: hash64_lookup_def)
  qed
qed

lemma insert_new:
  assumes wf: "hash64_wf hf alloc dealloc live h s" and ok: "ok s"
    and new: "hash64_abs h key = None" and lim: "element_count h < 2 ^ 32 - 2"
  shows "\<exists>r h' s'. hash64_insert_internal chk h key value upd s = Some (r, h', s') \<and> ok s' \<and>
    hash64_wf hf alloc dealloc live h' s' \<and>
    hash64_keeps live h s h' s' \<and>
    (if r then hash64_abs h' = (hash64_abs h)(key \<mapsto> value) \<and> element_count h' = element_count h + 1
     else h' = h \<and> s' = s)"
proof -
  obtain css where part: "hash64_part h css []" and hf: "hash_func h = hf"
    and al: "node_alloc_func h = alloc" and de: "node_dealloc_func h = dealloc"
    and sz: "hash_size h < 2 ^ 32" and own: "\<forall>p \<in> dom (nodes h). live s p"
    using wf by (rule hash64_wfD)
  have tot: "hash64_total (hash_func h)" using hf hf_total by simp
  have f0: "hash64_find h key = Some 0" using hash64_abs_iff(2) [OF part tot sz] new by simp
  obtain a s' where a: "alloc s = Some (a, s')" "ok s'" "a = 0 \<Longrightarrow> s' = s"
    "a \<noteq> 0 \<Longrightarrow> \<not> live s a" "a \<noteq> 0 \<Longrightarrow> live s' b \<longleftrightarrow> live s b \<or> b = a" for b
    using node_alloc [OF ok] by blast
  show ?thesis
  proof (cases "a = 0")
    case True
    then have "hash64_insert_internal chk h key value upd s = Some (False, h, s)"
      using a f0 al by (simp add: hash64_insert_internal_def)
    then show ?thesis using wf ok by (intro exI [of _ False] exI) (auto simp: hash64_keeps_def)
  next
    case False
    obtain i where i: "i < hash_size h" "hash_func h key (hash_size h) = Some i"
      "hash64_retrieve_appropriate_array_cell h key = Some i"
      using hash64_cell [OF part tot sz] .
    let ?n = "\<lparr> node_next = hash_array h ! i, node_key = key, node_value = value \<rparr>"
    define h1 where "h1 = h \<lparr> nodes := (nodes h)(a \<mapsto> ?n), element_count := u32 (element_count h + 1) \<rparr>"
    define h2 where "h2 = h1 \<lparr> nodes := (nodes h1)(a \<mapsto> ?n \<lparr> node_next := hash_array h1 ! i \<rparr>),
        hash_array := (hash_array h1)[i := a] \<rparr>"
    have fresh: "a \<notin> dom (nodes h)" using own a(4) [OF False] by blast
    have nokey: "\<forall>q m. nodes h q = Some m \<longrightarrow> node_key m \<noteq> node_key ?n"
      using hash64_find_correct(1) [OF part tot sz] f0 by simp
    have p1: "hash64_part h1 css [a]"
      by (rule hash64_part_add [OF part fresh False nokey lim h1_def])
    have p2: "hash64_part h2 (css[i := a # css ! i]) []"
      by (rule hash64_part_link [OF p1 _ _ _ h2_def]) (use i in \<open>simp_all add: h1_def\<close>)
    have h2: "h2 = h \<lparr> nodes := (nodes h)(a \<mapsto> ?n), hash_array := (hash_array h)[i := a],
        element_count := u32 (element_count h + 1) \<rparr>"
      by (simp add: h2_def h1_def)
    have tot2: "hash64_total (hash_func h2)" "hash_size h2 < 2 ^ 32" using tot sz by (simp_all add: h2)
    have ka: "nodes h2 a = Some ?n" by (simp add: h2)
    have f2: "hash64_find h2 key = Some a"
      using hash64_find_correct(2) [OF p2 tot2 ka] by simp
    have run: "hash64_insert_internal chk h key value upd s = Some (True, h2, s')"
      using f0 al a(1) False i(3) f2 [unfolded h2]
      by (simp add: hash64_insert_internal_def Let_def h2)
    have wf2: "hash64_wf hf alloc dealloc live h2 s'"
      by (rule hash64_wfI [OF p2]) (use own a(5) [OF False] hf al de sz in \<open>simp_all add: h2\<close>)
    have "hash64_abs h2 = (hash64_abs h)(key \<mapsto> value)"
    proof (rule hash64_abs_eqI [OF p2 tot2])
      fix k v
      show "(\<exists>p n. nodes h2 p = Some n \<and> node_key n = k \<and> node_value n = v) \<longleftrightarrow>
            ((hash64_abs h)(key \<mapsto> value)) k = Some v"
      proof (cases "k = key")
        case True
        then show ?thesis
          using nokey ka by (auto simp: h2 split: if_splits)
      next
        case F: False
        then have "(\<exists>p n. nodes h2 p = Some n \<and> node_key n = k \<and> node_value n = v) \<longleftrightarrow>
            (\<exists>p n. nodes h p = Some n \<and> node_key n = k \<and> node_value n = v)"
          using fresh by (auto simp: h2)
        then show ?thesis using F hash64_abs_iff(1) [OF part tot sz, of k v] by simp
      qed
    qed
    moreover have "element_count h2 = element_count h + 1"
      using lim by (simp add: h2 width_simps)
    moreover have "hash64_keeps live h s h2 s'"
      using a(4,5) [OF False] fresh own by (auto simp: hash64_keeps_def h2)
    ultimately show ?thesis
      using run wf2 a(2) by (intro exI [of _ True] exI [of _ h2] exI [of _ s']) simp
  qed
qed

lemma update_existing:
  assumes wf: "hash64_wf hf alloc dealloc live h s" and ex: "hash64_abs h key = Some v"
  shows "\<exists>h'. hash64_insert_internal chk h key value True s = Some (True, h', s) \<and>
    hash64_wf hf alloc dealloc live h' s \<and> hash64_abs h' = (hash64_abs h)(key \<mapsto> value) \<and>
    hash64_keeps live h s h' s \<and> element_count h' = element_count h"
proof -
  obtain css where part: "hash64_part h css []" and hf: "hash_func h = hf"
    and al: "node_alloc_func h = alloc" and de: "node_dealloc_func h = dealloc"
    and sz: "hash_size h < 2 ^ 32" and own: "\<forall>p \<in> dom (nodes h). live s p"
    using wf by (rule hash64_wfD)
  have tot: "hash64_total (hash_func h)" using hf hf_total by simp
  obtain p n where p: "nodes h p = Some n" "node_key n = key"
    using ex hash64_abs_iff(1) [OF part tot sz] by blast
  note f = hash64_find_correct(2) [OF part tot sz p]
  define h' where "h' = h \<lparr> nodes := (nodes h)(p \<mapsto> n \<lparr> node_value := value \<rparr>) \<rparr>"
  have p': "hash64_part h' css []" by (rule hash64_part_value [OF part p(1) h'_def])
  have tot': "hash64_total (hash_func h')" "hash_size h' < 2 ^ 32" using tot sz by (simp_all add: h'_def)
  have f': "hash64_find h' key = Some p"
    using hash64_find_correct(2) [OF p' tot', of p "n \<lparr> node_value := value \<rparr>" key] p by (simp add: h'_def)
  have run: "hash64_insert_internal chk h key value True s = Some (True, h', s)"
    using f f' p by (simp add: hash64_insert_internal_def Let_def h'_def [symmetric])
  have wf': "hash64_wf hf alloc dealloc live h' s"
    by (rule hash64_wfI [OF p']) (use own hf al de sz p(1) in \<open>auto simp: h'_def\<close>)
  have uniq: "q = p" if "nodes h q = Some m" "node_key m = key" for q m
    using f hash64_find_correct(2) [OF part tot sz that] by simp
  have "hash64_abs h' = (hash64_abs h)(key \<mapsto> value)"
  proof (rule hash64_abs_eqI [OF p' tot'])
    fix k v
    show "(\<exists>p n. nodes h' p = Some n \<and> node_key n = k \<and> node_value n = v) \<longleftrightarrow>
          ((hash64_abs h)(key \<mapsto> value)) k = Some v"
    proof (cases "k = key")
      case True
      have "nodes h' q = Some m \<and> node_key m = key \<longleftrightarrow> q = p \<and> m = n \<lparr> node_value := value \<rparr>" for q m
      proof (cases "q = p")
        case True
        then show ?thesis using p by (auto simp: h'_def)
      next
        case False
        then show ?thesis using uniq [of q m] by (auto simp: h'_def)
      qed
      then have "(\<exists>q m. (nodes h' q = Some m \<and> node_key m = key) \<and> node_value m = v) \<longleftrightarrow> value = v"
        by simp
      then show ?thesis by (simp only: True conj_assoc fun_upd_same option.inject)
    next
      case False
      have "(nodes h' q = Some m \<and> node_key m = k) \<longleftrightarrow> (nodes h q = Some m \<and> node_key m = k)" for q m
        using p False by (cases "q = p") (auto simp: h'_def)
      then have "(\<exists>p n. nodes h' p = Some n \<and> node_key n = k \<and> node_value n = v) \<longleftrightarrow>
          (\<exists>p n. nodes h p = Some n \<and> node_key n = k \<and> node_value n = v)"
        by (simp only: conj_assoc [symmetric])
      then show ?thesis using False hash64_abs_iff(1) [OF part tot sz, of k v] by simp
    qed
  qed
  moreover have "hash64_keeps live h s h' s" using p(1) by (auto simp: hash64_keeps_def h'_def)
  ultimately show ?thesis using run wf' by (auto simp: h'_def)
qed

end


lemma hash64_abs_key_value:
  assumes "hash64_part h css []" "hash64_total (hash_func h)" "hash_size h < 2 ^ 32"
  shows "hash64_abs h k = Some v \<longleftrightarrow> (\<exists>p. key_value_at h p = Some (k, v))"
  unfolding hash64_abs_iff(1) [OF assms] by auto

lemma hash64_abs_cong:
  assumes "hash64_part h css []" "hash64_total (hash_func h)" "hash_size h < 2 ^ 32"
    and "hash64_part h' css' []" "hash64_total (hash_func h')" "hash_size h' < 2 ^ 32"
    and "\<And>p. key_value_at h' p = key_value_at h p"
  shows "hash64_abs h' = hash64_abs h"
proof
  fix k
  have "hash64_abs h' k = Some v \<longleftrightarrow> hash64_abs h k = Some v" for v
    unfolding hash64_abs_key_value [OF assms(1-3)] hash64_abs_key_value [OF assms(4-6)] assms(7) ..
  then show "hash64_abs h' k = hash64_abs h k" by (metis not_None_eq)
qed

lemma hash64_abs_remove:
  assumes "hash64_part h css []" "hash64_total (hash_func h)" "hash_size h < 2 ^ 32"
    and "hash64_part h' css' []" "hash64_total (hash_func h')" "hash_size h' < 2 ^ 32"
    and p: "nodes h p = Some n" "node_key n = key"
    and kv: "\<And>q. key_value_at h' q = (if q = p then None else key_value_at h q)"
  shows "hash64_abs h' = (hash64_abs h)(key := None)"
proof
  fix k
  have inj: "inj_on (key_at h) (dom (nodes h))" by (rule hash64_partD(8) [OF assms(1)])
  have "hash64_abs h' k = Some v \<longleftrightarrow> k \<noteq> key \<and> hash64_abs h k = Some v" for v
    unfolding hash64_abs_key_value [OF assms(1-3)] hash64_abs_key_value [OF assms(4-6)] kv
  proof
    assume "\<exists>q. (if q = p then None else key_value_at h q) = Some (k, v)"
    then obtain q where q: "q \<noteq> p" "key_value_at h q = Some (k, v)" by (auto split: if_splits)
    then have "q \<in> dom (nodes h)" "key_at h q = k" by auto
    moreover have "p \<in> dom (nodes h)" "key_at h p = key" using p by auto
    ultimately have "k \<noteq> key" using inj q(1) by (metis inj_onD)
    with q show "k \<noteq> key \<and> (\<exists>p. key_value_at h p = Some (k, v))" by blast
  next
    assume *: "k \<noteq> key \<and> (\<exists>q. key_value_at h q = Some (k, v))"
    then obtain q where q: "key_value_at h q = Some (k, v)" by blast
    then have "q \<noteq> p" using p * by auto
    with q show "\<exists>q. (if q = p then None else key_value_at h q) = Some (k, v)"
      by (intro exI [of _ q]) simp
  qed
  then show "hash64_abs h' k = ((hash64_abs h)(key := None)) k"
    by (cases "k = key") (simp, metis not_None_eq, simp, metis not_None_eq)
qed

lemma hash64_remove_loop_chain:
  assumes "chain (nodes h) a (zs @ q # p # ys)" "nodes h q = Some m" "nodes h p = Some n"
    and "\<forall>r \<in> set (zs @ [q]). key_at h r \<noteq> key" "node_key n = key"
  shows "hash64_remove_loop chk h key a s =
    hash64_unlink chk (h \<lparr> nodes := (nodes h)(q \<mapsto> m \<lparr> node_next := node_next n \<rparr>) \<rparr>) key p s"
  using assms
proof (induction zs arbitrary: a)
  case Nil
  then have a: "a = q" "q \<noteq> 0" "node_next m = p" "p \<noteq> 0" by auto
  show ?case using a Nil(2,3,5) by (subst hash64_remove_loop.simps) simp
next
  case (Cons z zs)
  then obtain nz where z: "a = z" "z \<noteq> 0" "nodes h z = Some nz"
    "chain (nodes h) (node_next nz) (zs @ q # p # ys)"
    by (auto split: option.splits)
  let ?w = "node_next nz"
  have w: "?w \<in> set (zs @ [q])" "?w \<noteq> 0"
    using z(4) by (cases zs; auto)+
  obtain nw where nw: "nodes h ?w = Some nw"
    using chain_dom [OF z(4)] w(1) by auto
  have "node_key nw \<noteq> key" using Cons.prems(4) w(1) nw by fastforce
  then have "hash64_remove_loop chk h key a s = hash64_remove_loop chk h key ?w s"
    using z w nw by (subst hash64_remove_loop.simps) simp
  also have "\<dots> = hash64_unlink chk (h \<lparr> nodes := (nodes h)(q \<mapsto> m \<lparr> node_next := node_next n \<rparr>) \<rparr>) key p s"
    by (rule Cons.IH) (use z Cons.prems in auto)
  finally show ?case .
qed

context hash64_env
begin

lemma unlink_correct:
  assumes part: "hash64_part h1 css [p]" and flds: "hash_func h1 = hf" "node_alloc_func h1 = alloc"
      "node_dealloc_func h1 = dealloc" "hash_size h1 < 2 ^ 32"
    and own: "\<forall>q \<in> dom (nodes h1). live s q" and ok: "ok s" and key: "key_at h1 p = key"
  defines "h2 \<equiv> h1 \<lparr> nodes := (nodes h1)(p := None), element_count := u32_sub (element_count h1) 1 \<rparr>"
  shows "\<exists>s'. hash64_unlink chk h1 key p s = Some (True, Some h2, s') \<and> ok s' \<and>
    (\<forall>b. live s' b \<longleftrightarrow> live s b \<and> b \<noteq> p) \<and> hash64_part h2 css [] \<and>
    hash64_wf hf alloc dealloc live h2 s'"
proof -
  note P = hash64_partD [OF part]
  have tot: "hash64_total (hash_func h1)" using flds hf_total by simp
  have pd: "p \<in> dom (nodes h1)" "p \<notin> set (concat css)" using P(5,6) by auto
  have "\<forall>q \<in> set (concat css). key_at h1 q \<noteq> key"
  proof
    fix q assume q: "q \<in> set (concat css)"
    then have "q \<in> dom (nodes h1)" "q \<noteq> p" using P(6) pd(2) by auto
    then show "key_at h1 q \<noteq> key" using inj_onD [OF P(8), of q p] pd(1) key by metis
  qed
  then have f: "hash64_find h1 key = Some 0"
    by (rule hash64_find_part(1) [OF part tot flds(4)])
  obtain s' where s': "dealloc p s = Some s'" "ok s'" "\<forall>b. live s' b \<longleftrightarrow> live s b \<and> b \<noteq> p"
    using node_dealloc [OF ok] own pd(1) by blast
  have p2: "hash64_part h2 css []" by (rule hash64_part_drop [OF part h2_def [THEN meta_eq_to_obj_eq]])
  have "hash64_unlink chk h1 key p s = Some (True, Some h2, s')"
    using f s'(1) flds P(9) by (simp add: hash64_unlink_def h2_def)
  moreover have "hash64_wf hf alloc dealloc live h2 s'"
    by (rule hash64_wfI [OF p2]) (use flds own s'(3) in \<open>auto simp: h2_def\<close>)
  ultimately show ?thesis using s' p2 by blast
qed

lemma remove_existing:
  assumes wf: "hash64_wf hf alloc dealloc live h s" and ok: "ok s" and ex: "hash64_abs h key = Some v"
  shows "\<exists>h' s'. hash64_remove chk (Some h) key s = Some (True, Some h', s') \<and> ok s' \<and>
    hash64_wf hf alloc dealloc live h' s' \<and> hash64_abs h' = (hash64_abs h)(key := None) \<and>
    hash64_keeps live h s h' s' \<and> element_count h' = element_count h - 1"
proof -
  obtain css where part: "hash64_part h css []" and hf: "hash_func h = hf"
    and al: "node_alloc_func h = alloc" and de: "node_dealloc_func h = dealloc"
    and sz: "hash_size h < 2 ^ 32" and own: "\<forall>p \<in> dom (nodes h). live s p"
    using wf by (rule hash64_wfD)
  note P = hash64_partD [OF part]
  have tot: "hash64_total (hash_func h)" using hf hf_total by simp
  obtain p n where p: "nodes h p = Some n" "node_key n = key"
    using ex hash64_abs_iff(1) [OF part tot sz] by blast
  note f = hash64_find_correct(2) [OF part tot sz p]
  obtain i where i: "i < hash_size h" "hash_func h key (hash_size h) = Some i"
    "hash64_retrieve_appropriate_array_cell h key = Some i"
    using hash64_cell [OF part tot sz] .
  obtain j where j: "j < hash_size h" "p \<in> set (css ! j)"
    using concat_eq_set_nth [of p css] P(3,6) p(1) by auto
  have "j = i" using P(7) [OF j] i(2) p by simp
  then obtain xs ys where xs: "css ! i = xs @ p # ys" using j(2) by (meson split_list)
  define h1 where "h1 = (case rev xs of
        [] \<Rightarrow> h \<lparr> hash_array := (hash_array h)[i := node_next n] \<rparr>
      | q # _ \<Rightarrow> h \<lparr> nodes := (nodes h)(q \<mapsto> (the (nodes h q)) \<lparr> node_next := node_next n \<rparr>) \<rparr>)"
  have p1: "hash64_part h1 (css[i := xs @ ys]) [p]"
    by (rule hash64_part_unlink [OF part i(1) xs p(1) h1_def])
  have ch: "chain (nodes h) (hash_array h ! i) (xs @ p # ys)" using P(4) [OF i(1)] xs by simp
  have sub: "set (xs @ p # ys) \<subseteq> dom (nodes h)" using chain_dom [OF ch] by simp
  have flds: "hash_func h1 = hf" "node_alloc_func h1 = alloc" "node_dealloc_func h1 = dealloc"
    "hash_size h1 < 2 ^ 32" "element_count h1 = element_count h"
    using hf al de sz by (simp_all add: h1_def split: list.split)
  have dom1: "dom (nodes h1) = dom (nodes h)"
    using hash64_partD(6) [OF p1] P(6) concat_list_update(1) [of i css "xs @ ys"]
      concat_list_update(2) [of i css] i(1) P(3) xs by auto
  have kv1: "key_value_at h1 q = key_value_at h q" for q
  proof (cases xs rule: rev_cases)
    case (snoc zs r)
    then show ?thesis using sub by (auto simp: h1_def)
  qed (simp add: h1_def)
  have key1: "key_at h1 p = key"
    using kv1 [of p] p by (cases "nodes h1 p") auto
  have run: "hash64_remove chk (Some h) key s = hash64_unlink chk h1 key p s"
  proof (cases xs rule: rev_cases)
    case Nil
    then have "hash_array h ! i = p" "p \<noteq> 0" using ch by auto
    then show ?thesis using f i(3) p Nil by (simp add: hash64_remove_def h1_def Let_def)
  next
    case (snoc zs q)
    have q: "nodes h q = Some (the (nodes h q))" using sub snoc by auto
    have nokey: "\<forall>r \<in> set (zs @ [q]). key_at h r \<noteq> key"
    proof
      fix r assume r: "r \<in> set (zs @ [q])"
      have "distinct (xs @ p # ys)"
        using P(5) concat_list_update(2) [of i css] i(1) P(3) xs by auto
      then have "r \<noteq> p" using r snoc by auto
      moreover have "r \<in> dom (nodes h)" "p \<in> dom (nodes h)" using r sub snoc p(1) by auto
      ultimately show "key_at h r \<noteq> key" using inj_onD [OF P(8), of r p] p by auto
    qed
    have hd: "hash_array h ! i \<in> set (zs @ [q])" "hash_array h ! i \<noteq> 0"
      using ch snoc by (cases zs; auto)+
    then obtain nh where nh: "nodes h (hash_array h ! i) = Some nh" "node_key nh \<noteq> key"
      using nokey sub snoc by fastforce
    have "hash64_remove chk (Some h) key s = hash64_remove_loop chk h key (hash_array h ! i) s"
      using f i(3) hd(2) nh by (simp add: hash64_remove_def Let_def)
    also have "\<dots> = hash64_unlink chk h1 key p s"
      unfolding h1_def using ch snoc
      by (subst hash64_remove_loop_chain [OF _ q p(1) nokey p(2)]) simp_all
    finally show ?thesis .
  qed
  have own1: "\<forall>q \<in> dom (nodes h1). live s q" using own dom1 by simp
  define h2 where "h2 = h1 \<lparr> nodes := (nodes h1)(p := None), element_count := u32_sub (element_count h1) 1 \<rparr>"
  obtain s' where s': "hash64_unlink chk h1 key p s = Some (True, Some h2, s')" "ok s'"
    "\<forall>b. live s' b \<longleftrightarrow> live s b \<and> b \<noteq> p" "hash64_part h2 (css[i := xs @ ys]) []"
    "hash64_wf hf alloc dealloc live h2 s'"
    using unlink_correct [OF p1 flds(1-4) own1 ok key1, of chk] by (auto simp: h2_def)
  have "hash64_abs h2 = (hash64_abs h)(key := None)"
  proof (rule hash64_abs_remove [OF part tot sz s'(4) _ _ p])
    show "hash64_total (hash_func h2)" "hash_size h2 < 2 ^ 32"
      using flds hf_total by (simp_all add: h2_def)
    show "key_value_at h2 q = (if q = p then None else key_value_at h q)" for q
      using kv1 [of q] by (simp add: h2_def)
  qed
  moreover have "element_count h2 = element_count h - 1"
    using hash64_partD(9,10) [OF p1] flds(5) by (simp add: h2_def width_simps)
  moreover have "hash64_keeps live h s h2 s'"
    using s'(3) dom1 p(1) by (auto simp: hash64_keeps_def h2_def h1_def split: list.split)
  ultimately show ?thesis using run s' by auto
qed

end


lemma hash64_remove_loop_absent:
  assumes "chain (nodes h) a ps" "\<forall>r \<in> set ps. key_at h r \<noteq> key"
  shows "hash64_remove_loop chk h key a s = Some (False, Some h, s)"
  using assms
proof (induction ps arbitrary: a)
  case Nil
  then show ?case by (subst hash64_remove_loop.simps) simp
next
  case (Cons p ps)
  then obtain n where n: "a = p" "p \<noteq> 0" "nodes h p = Some n" "chain (nodes h) (node_next n) ps"
    by (auto split: option.splits)
  show ?case
  proof (cases ps)
    case Nil
    then show ?thesis using n by (subst hash64_remove_loop.simps) simp
  next
    case (Cons q qs)
    then obtain m where "node_next n = q" "q \<noteq> 0" "nodes h q = Some m" "node_key m \<noteq> key"
      using n(4) Cons.prems(2) by (auto split: option.splits)
    then show ?thesis using n Cons.IH [OF n(4)] Cons.prems(2)
      by (subst hash64_remove_loop.simps) simp
  qed
qed

lemma hash64_rehash_chain_correct:
  assumes "hash64_part h css (ps @ rest)" "chain (nodes h) a ps" "hash64_total (hash_func h)"
    "hash_size h < 2 ^ 32"
  shows "\<exists>h' css'. hash64_rehash_chain h a = Some h' \<and> hash64_part h' css' rest \<and>
    (\<forall>p. key_value_at h' p = key_value_at h p) \<and> (\<forall>q \<in> set rest. nodes h' q = nodes h q) \<and>
    h' = h \<lparr> nodes := nodes h', hash_array := hash_array h' \<rparr>"
  using assms
proof (induction ps arbitrary: a h css)
  case Nil
  then show ?case by (subst hash64_rehash_chain.simps) auto
next
  case (Cons p ps)
  obtain n where n: "a = p" "p \<noteq> 0" "nodes h p = Some n" "chain (nodes h) (node_next n) ps"
    using Cons.prems(2) by (auto split: option.splits)
  have part: "hash64_part h css (p # ps @ rest)" using Cons.prems(1) by simp
  have fresh: "p \<notin> set ps" "p \<notin> set rest" using hash64_partD(5) [OF part] by auto
  obtain i where i: "i < hash_size h" "hash_func h (node_key n) (hash_size h) = Some i"
    "hash64_retrieve_appropriate_array_cell h (node_key n) = Some i"
    using hash64_cell [OF part Cons.prems(3,4)] .
  define h1 where "h1 = h \<lparr> nodes := (nodes h)(p \<mapsto> n \<lparr> node_next := hash_array h ! i \<rparr>),
                      hash_array := (hash_array h)[i := p] \<rparr>"
  have p1: "hash64_part h1 (css[i := p # css ! i]) (ps @ rest)"
    by (rule hash64_part_link [OF part n(3) i(1,2) h1_def])
  have c1: "chain (nodes h1) (node_next n) ps" using n(4) fresh by (simp add: h1_def)
  have t1: "hash64_total (hash_func h1)" "hash_size h1 < 2 ^ 32"
    using Cons.prems(3,4) by (simp_all add: h1_def)
  obtain h' css' where h': "hash64_rehash_chain h1 (node_next n) = Some h'" "hash64_part h' css' rest"
    "\<forall>p. key_value_at h' p = key_value_at h1 p" "\<forall>q \<in> set rest. nodes h' q = nodes h1 q"
    "h' = h1 \<lparr> nodes := nodes h', hash_array := hash_array h' \<rparr>"
    using Cons.IH [OF p1 c1 t1] by blast
  have "hash64_rehash_chain h a = Some h'"
    using n i(3) h'(1) by (subst hash64_rehash_chain.simps) (simp add: h1_def)
  moreover have "key_value_at h' q = key_value_at h q" for q using h'(3) n(3) by (simp add: h1_def)
  moreover have "\<forall>q \<in> set rest. nodes h' q = nodes h q" using h'(4) fresh by (auto simp: h1_def)
  moreover have "h' = h \<lparr> nodes := nodes h', hash_array := hash_array h' \<rparr>"
    using h'(5) by (simp add: h1_def)
  ultimately show ?case using h'(2) by blast
qed

lemma hash64_rehash_cells_correct:
  assumes "hash64_part h css (concat pss)" "list_all2 (chain (nodes h)) cells pss"
    "hash64_total (hash_func h)" "hash_size h < 2 ^ 32"
  shows "\<exists>h' css'. hash64_rehash_cells h cells = Some h' \<and> hash64_part h' css' [] \<and>
    (\<forall>p. key_value_at h' p = key_value_at h p) \<and>
    h' = h \<lparr> nodes := nodes h', hash_array := hash_array h' \<rparr>"
  using assms
proof (induction pss arbitrary: cells h css)
  case Nil
  then show ?case by auto
next
  case (Cons ps pss)
  then obtain a as where c: "cells = a # as" "chain (nodes h) a ps" "list_all2 (chain (nodes h)) as pss"
    by (auto simp: list_all2_Cons2)
  have part: "hash64_part h css (ps @ concat pss)" using Cons.prems(1) by simp
  obtain h1 css1 where h1: "hash64_rehash_chain h a = Some h1" "hash64_part h1 css1 (concat pss)"
    "\<forall>p. key_value_at h1 p = key_value_at h p" "\<forall>q \<in> set (concat pss). nodes h1 q = nodes h q"
    "h1 = h \<lparr> nodes := nodes h1, hash_array := hash_array h1 \<rparr>"
    using hash64_rehash_chain_correct [OF part c(2) Cons.prems(3,4)] by blast
  have "chain (nodes h1) b qs = chain (nodes h) b qs" if "qs \<in> set pss" for b qs
    by (rule chain_frame) (use h1(4) that in auto)
  then have c1: "list_all2 (chain (nodes h1)) as pss"
    using c(3) by (auto simp: list_all2_conv_all_nth)
  have t1: "hash64_total (hash_func h1)" "hash_size h1 < 2 ^ 32"
    using Cons.prems(3,4) arg_cong [OF h1(5), of hash_func] arg_cong [OF h1(5), of hash_size]
    by simp_all
  obtain h' css' where h': "hash64_rehash_cells h1 as = Some h'" "hash64_part h' css' []"
    "\<forall>p. key_value_at h' p = key_value_at h1 p"
    "h' = h1 \<lparr> nodes := nodes h', hash_array := hash_array h' \<rparr>"
    using Cons.IH [OF h1(2) c1 t1] by blast
  have run: "hash64_rehash_cells h cells = Some h'" using c(1) h1(1) h'(1) by simp
  have fld: "h' = h \<lparr> nodes := nodes h', hash_array := hash_array h' \<rparr>"
    using h'(4) h1(5) by (cases h, cases h1, cases h') simp
  have kv: "\<forall>p. key_value_at h' p = key_value_at h p" using h'(3) h1(3) by simp
  show ?case by (intro exI conjI) (fact run h'(2) kv fld)+
qed

lemma hash64_part_clear:
  assumes part: "hash64_part h css []" and sz: "0 < sz"
  shows "hash64_part (h \<lparr> hash_array := replicate sz 0, array_addr := arr, hash_size := sz \<rparr>)
    (replicate sz []) (concat css)"
proof -
  note P = hash64_partD [OF part]
  have c: "concat (replicate sz []) = []" by simp
  show ?thesis
    by (rule hash64_partI) (use P(5-11) sz in \<open>simp_all add: c del: concat_replicate_trivial\<close>)
qed

lemma hash64_clear_cells:
  assumes "8 * sz < 2 ^ 32"
  shows "arr_fill (\<lambda>_. 0) (replicate (u32 (8 * sz) div 8) 0) 0 sz = Some (replicate sz (0::nat))"
proof -
  have "u32 (8 * sz) div 8 = sz" using assms by (simp add: width_simps)
  then show ?thesis by (simp add: arr_fill_inside map_replicate_const)
qed


context hash64_env
begin

lemma remove_absent:
  assumes wf: "hash64_wf hf alloc dealloc live h s" and ab: "hash64_abs h key = None"
  shows "hash64_remove False (Some h) key s = Some (False, Some h, s)"
    and "hash64_remove True (Some h) key s = None"
proof -
  obtain css where part: "hash64_part h css []" and hf: "hash_func h = hf" and sz: "hash_size h < 2 ^ 32"
    using wf by (rule hash64_wfD)
  note P = hash64_partD [OF part]
  have tot: "hash64_total (hash_func h)" using hf hf_total by simp
  have f0: "hash64_find h key = Some 0" using hash64_abs_iff(2) [OF part tot sz] ab by simp
  then show "hash64_remove True (Some h) key s = None" by (simp add: hash64_remove_def)
  obtain i where i: "i < hash_size h" "hash64_retrieve_appropriate_array_cell h key = Some i"
    using hash64_cell [OF part tot sz] .
  note ch = P(4) [OF i(1)]
  have nokey: "\<forall>r \<in> set (css ! i). key_at h r \<noteq> key"
  proof
    fix r assume "r \<in> set (css ! i)"
    then have "r \<in> dom (nodes h)" using chain_dom [OF ch] by blast
    then show "key_at h r \<noteq> key"
      using f0 hash64_find_correct(1) [OF part tot sz, of key] by (metis domD option.sel)
  qed
  have loop: "hash64_remove_loop False h key (hash_array h ! i) s = Some (False, Some h, s)"
    by (rule hash64_remove_loop_absent [OF ch nokey])
  show "hash64_remove False (Some h) key s = Some (False, Some h, s)"
  proof (cases "css ! i")
    case Nil
    then show ?thesis using f0 i(2) ch by (simp add: hash64_remove_def Let_def)
  next
    case (Cons q qs)
    then obtain m where "hash_array h ! i = q" "q \<noteq> 0" "nodes h q = Some m" "node_key m \<noteq> key"
      using ch nokey by (auto split: option.splits)
    then show ?thesis using f0 i(2) loop by (simp add: hash64_remove_def Let_def)
  qed
qed

end

text \<open>
  The memory functions of a table: they serve the table structure and the cell array, and give out
  buffers of the same kind as the nodes.
\<close>

locale hash64_table_env = hash64_env +
  fixes chk :: bool and mem_alloc :: "(nat \<Rightarrow> heap_alloc_func) option"
    and mem_dealloc :: "heap_free_func option"
  assumes mem_alloc: "ok s \<Longrightarrow> 0 < bytes \<Longrightarrow> bytes \<le> 2 ^ 32 - PAGE_4KB_SIZE \<Longrightarrow>
      \<exists>a s'. hash64_mem_alloc chk mem_alloc bytes s = Some (a, s') \<and> ok s' \<and>
      (a = 0 \<longrightarrow> s' = s) \<and> (a \<noteq> 0 \<longrightarrow> \<not> live s a \<and> (\<forall>b. live s' b \<longleftrightarrow> live s b \<or> b = a))"
    and mem_free: "ok s \<Longrightarrow> live s a \<Longrightarrow>
      \<exists>s'. hash64_mem_free chk mem_dealloc a s = Some s' \<and> ok s' \<and> (\<forall>b. live s' b \<longleftrightarrow> live s b \<and> b \<noteq> a)"

lemma hash64_keeps_table_ok:
  assumes "hash64_keeps live h s h' s'" "hash64_table_ok ma md live h s"
  shows "hash64_table_ok ma md live h' s'"
    and "live s' b \<and> b \<notin> hash64_owned h' \<longleftrightarrow> live s b \<and> b \<notin> hash64_owned h"
proof -
  have f: "h' = h \<lparr> nodes := nodes h', hash_array := hash_array h', element_count := element_count h' \<rparr>"
    and l: "\<And>b. live s' b \<and> b \<notin> dom (nodes h') \<longleftrightarrow> live s b \<and> b \<notin> dom (nodes h)"
    using assms(1) unfolding hash64_keeps_def by blast+
  have eq: "mem_alloc_func h' = mem_alloc_func h" "mem_dealloc_func h' = mem_dealloc_func h"
    "hash_addr h' = hash_addr h" "array_addr h' = array_addr h"
    using arg_cong [OF f, of mem_alloc_func] arg_cong [OF f, of mem_dealloc_func]
      arg_cong [OF f, of hash_addr] arg_cong [OF f, of array_addr] by simp_all
  show "hash64_table_ok ma md live h' s'"
    using assms(2) l [of "hash_addr h"] l [of "array_addr h"] unfolding hash64_table_ok_def eq by blast
  show "live s' b \<and> b \<notin> hash64_owned h' \<longleftrightarrow> live s b \<and> b \<notin> hash64_owned h"
    using l [of b] unfolding hash64_owned_def eq by blast
qed


context hash64_env
begin

lemma destroy_chain_correct:
  assumes "chain (nodes h) a ps" "distinct ps" "\<forall>p \<in> set ps. live s p" "ok s"
    and "node_dealloc_func h = dealloc" "\<not> is_multiple_values_hash h"
    and "length ps \<le> cnt" "cnt < 2 ^ 32"
  shows "\<exists>s'. hash64_destroy_chain chk h cnt a s = Some (cnt - length ps, s') \<and> ok s' \<and>
    (\<forall>b. live s' b \<longleftrightarrow> live s b \<and> b \<notin> set ps)"
  using assms
proof (induction ps arbitrary: a s cnt)
  case Nil
  then show ?case by (subst hash64_destroy_chain.simps) auto
next
  case (Cons p ps)
  obtain n where n: "a = p" "p \<noteq> 0" "nodes h p = Some n" "chain (nodes h) (node_next n) ps"
    using Cons.prems(1) by (auto split: option.splits)
  obtain s1 where s1: "dealloc p s = Some s1" "ok s1" "\<forall>b. live s1 b \<longleftrightarrow> live s b \<and> b \<noteq> p"
    using node_dealloc [OF Cons.prems(4), of p] Cons.prems(3) by auto
  have cnt: "u32_sub cnt 1 = cnt - 1" "cnt \<noteq> 0" using Cons.prems(7,8) by (simp_all add: width_simps)
  have "\<exists>s'. hash64_destroy_chain chk h (cnt - 1) (node_next n) s1 = Some (cnt - 1 - length ps, s') \<and> ok s' \<and>
    (\<forall>b. live s' b \<longleftrightarrow> live s1 b \<and> b \<notin> set ps)"
    by (rule Cons.IH) (use n s1 Cons.prems in auto)
  then obtain s' where s': "hash64_destroy_chain chk h (cnt - 1) (node_next n) s1 = Some (cnt - 1 - length ps, s')"
    "ok s'" "\<forall>b. live s' b \<longleftrightarrow> live s1 b \<and> b \<notin> set ps" by blast
  have "hash64_destroy_chain chk h cnt a s = Some (cnt - length (p # ps), s')"
    using n s1(1) s'(1) cnt Cons.prems(5,6) by (subst hash64_destroy_chain.simps) simp
  then show ?case using s' s1(3) by auto
qed

lemma destroy_cells_correct:
  assumes "list_all2 (chain (nodes h)) cells pss" "distinct (concat pss)"
    and "\<forall>p \<in> set (concat pss). live s p" "ok s"
    and "node_dealloc_func h = dealloc" "\<not> is_multiple_values_hash h" "length (concat pss) < 2 ^ 32"
  shows "\<exists>s'. hash64_destroy_cells chk h (length (concat pss)) cells s = Some (0, s') \<and> ok s' \<and>
    (\<forall>b. live s' b \<longleftrightarrow> live s b \<and> b \<notin> set (concat pss))"
  using assms
proof (induction pss arbitrary: cells s rule: list.induct)
  case Nil
  then show ?case by simp
next
  case (Cons ps pss)
  then obtain a as where c: "cells = a # as" "chain (nodes h) a ps" "list_all2 (chain (nodes h)) as pss"
    by (auto simp: list_all2_Cons2)
  show ?case
  proof (cases "length (concat (ps # pss)) = 0")
    case True
    then have "concat (ps # pss) = []" by (simp only: length_0_conv)
    then have "ps = []" "concat (ps # pss) = []" by auto
    then show ?thesis using c Cons.prems(4) by auto
  next
    case False
    obtain s1 where s1: "hash64_destroy_chain chk h (length (concat (ps # pss))) a s
        = Some (length (concat (ps # pss)) - length ps, s1)" "ok s1"
      "\<forall>b. live s1 b \<longleftrightarrow> live s b \<and> b \<notin> set ps"
      using destroy_chain_correct [OF c(2) _ _ Cons.prems(4,5,6) _ Cons.prems(7), of chk] Cons.prems(2,3) by auto
    have "\<exists>s'. hash64_destroy_cells chk h (length (concat pss)) as s1 = Some (0, s') \<and> ok s' \<and>
      (\<forall>b. live s' b \<longleftrightarrow> live s1 b \<and> b \<notin> set (concat pss))"
      by (rule Cons.IH [OF c(3)]) (use s1 Cons.prems in auto)
    then obtain s' where s': "hash64_destroy_cells chk h (length (concat pss)) as s1 = Some (0, s')" "ok s'"
      "\<forall>b. live s' b \<longleftrightarrow> live s1 b \<and> b \<notin> set (concat pss)" by blast
    have l: "length (concat (ps # pss)) - length ps = length (concat pss)" by simp
    have "hash64_destroy_cells chk h (length (concat (ps # pss))) cells s = Some (0, s')"
      using s1(1) s'(1) unfolding c(1) l hash64_destroy_cells.simps(2) if_not_P [OF False]
      by (simp del: concat.simps length_concat)
    then show ?thesis using s' s1(3) by auto
  qed
qed

end

lemma hash64_part_cells:
  assumes "hash64_part h css []"
  shows "list_all2 (chain (nodes h)) (take (hash_size h) (hash_array h)) css"
  using hash64_partD(2-4) [OF assms] by (auto simp: list_all2_conv_all_nth)

context hash64_table_env
begin

lemma destroy_correct:
  assumes wf: "hash64_wf hf alloc dealloc live h s" and ok: "ok s"
    and tab: "hash64_table_ok mem_alloc mem_dealloc live h s" and single: "\<not> is_multiple_values_hash h"
  shows "\<exists>s'. hash64_destroy_hash chk h s = Some s' \<and> ok s' \<and>
    (\<forall>b. live s' b \<longleftrightarrow> live s b \<and> b \<notin> hash64_owned h)"
proof -
  obtain css where part: "hash64_part h css []" and de: "node_dealloc_func h = dealloc"
    and own: "\<forall>p \<in> dom (nodes h). live s p"
    using wf by (rule hash64_wfD)
  note P = hash64_partD [OF part]
  have dom: "dom (nodes h) = set (concat css)" and ec: "element_count h = length (concat css)"
    using P(6,9) by simp_all
  have len: "length (concat css) < 2 ^ 32" using P(10) ec by linarith
  have dis: "distinct (concat css)" using P(5) by simp
  obtain s1 where s1: "hash64_destroy_cells chk h (element_count h)
      (take (hash_size h) (hash_array h)) s = Some (0, s1)" "ok s1"
    "\<forall>b. live s1 b \<longleftrightarrow> live s b \<and> b \<notin> dom (nodes h)"
    using destroy_cells_correct [OF hash64_part_cells [OF part] dis own [unfolded dom] ok de single len, of chk]
    unfolding ec dom by blast
  have t: "mem_dealloc_func h = mem_dealloc" "live s (hash_addr h)" "live s (array_addr h)"
    "hash_addr h \<noteq> array_addr h" "hash_addr h \<notin> dom (nodes h)" "array_addr h \<notin> dom (nodes h)"
    using tab unfolding hash64_table_ok_def by blast+
  obtain s2 where s2: "hash64_mem_free chk mem_dealloc (array_addr h) s1 = Some s2" "ok s2"
    "\<forall>b. live s2 b \<longleftrightarrow> live s1 b \<and> b \<noteq> array_addr h"
    using mem_free [OF s1(2), of "array_addr h"] s1(3) t by blast
  obtain s3 where s3: "hash64_mem_free chk mem_dealloc (hash_addr h) s2 = Some s3" "ok s3"
    "\<forall>b. live s3 b \<longleftrightarrow> live s2 b \<and> b \<noteq> hash_addr h"
    using mem_free [OF s2(2), of "hash_addr h"] s2(3) s1(3) t by blast
  have "hash64_destroy_hash chk h s = Some s3"
    using single s1(1) s2(1) s3(1) t(1)
    by (simp add: hash64_destroy_hash_def hash64_destroy_hash_internal_def)
  then show ?thesis using s3 s2(3) s1(3) by (auto simp: hash64_owned_def)
qed

lemma create_correct:
  assumes ok: "ok s" and sz: "0 < sz" "8 * sz \<le> 2 ^ 32 - PAGE_4KB_SIZE"
  shows "\<exists>r s'. hash64_create_hash chk hf mem_alloc mem_dealloc alloc dealloc sz s = Some (r, s') \<and> ok s' \<and>
    (case r of
       None \<Rightarrow> \<forall>b. live s' b \<longleftrightarrow> live s b
     | Some h \<Rightarrow> hash64_wf hf alloc dealloc live h s' \<and> hash64_table_ok mem_alloc mem_dealloc live h s' \<and>
         \<not> is_multiple_values_hash h \<and> hash64_abs h = Map.empty \<and> element_count h = 0 \<and>
         hash_size h = sz \<and>
         (\<forall>b. live s' b \<and> b \<notin> hash64_owned h \<longleftrightarrow> live s b))"
proof -
  obtain a s1 where a: "hash64_mem_alloc chk mem_alloc 72 s = Some (a, s1)" "ok s1" "a = 0 \<longrightarrow> s1 = s"
    "a \<noteq> 0 \<longrightarrow> \<not> live s a \<and> (\<forall>b. live s1 b \<longleftrightarrow> live s b \<or> b = a)"
    using mem_alloc [OF ok, of 72] by auto
  show ?thesis
  proof (cases "a = 0")
    case True
    then have "hash64_create_hash chk hf mem_alloc mem_dealloc alloc dealloc sz s = Some (None, s)"
      using a by (simp add: hash64_create_hash_def hash64_create_hash_internal_def)
    then show ?thesis using ok by auto
  next
    case na: False
    obtain arr s2 where arr: "hash64_mem_alloc chk mem_alloc (8 * sz) s1 = Some (arr, s2)" "ok s2"
      "arr = 0 \<longrightarrow> s2 = s1" "arr \<noteq> 0 \<longrightarrow> \<not> live s1 arr \<and> (\<forall>b. live s2 b \<longleftrightarrow> live s1 b \<or> b = arr)"
      using mem_alloc [OF a(2), of "8 * sz"] sz by auto
    show ?thesis
    proof (cases "arr = 0")
      case True
      obtain s3 where s3: "hash64_mem_free chk mem_dealloc a s1 = Some s3" "ok s3"
        "\<forall>b. live s3 b \<longleftrightarrow> live s1 b \<and> b \<noteq> a"
        using mem_free [OF a(2), of a] a(4) na by blast
      have "hash64_create_hash chk hf mem_alloc mem_dealloc alloc dealloc sz s = Some (None, s3)"
        using a(1) na arr True s3(1) by (simp add: hash64_create_hash_def hash64_create_hash_internal_def)
      moreover have "\<forall>b. live s3 b \<longleftrightarrow> live s b" using s3(3) a(4) na by blast
      ultimately show ?thesis using s3(2) by auto
    next
      case nr: False
      define h where "h = \<lparr> hash_addr = a, array_addr = arr, hash_array = replicate sz 0, hash_func = hf,
                        mem_alloc_func = mem_alloc, mem_dealloc_func = mem_dealloc,
                        node_alloc_func = alloc, node_dealloc_func = dealloc,
                        hash_size = sz, element_count = 0,
                        is_multiple_values_hash = False, nodes = Map.empty \<rparr>"
      have cells: "arr_fill (\<lambda>_. 0) (replicate (u32 (8 * sz) div 8) 0) 0 sz = Some (replicate sz (0::nat))"
        by (rule hash64_clear_cells) (use sz in linarith)
      have run: "hash64_create_hash chk hf mem_alloc mem_dealloc alloc dealloc sz s = Some (Some h, s2)"
        using a(1) na arr(1) nr cells
        by (simp add: hash64_create_hash_def hash64_create_hash_internal_def h_def)
      have c: "concat (replicate sz []) = []" by simp
      have part: "hash64_part h (replicate sz []) []"
        by (rule hash64_partI) (use sz in \<open>simp_all add: c h_def del: concat_replicate_trivial\<close>)
      have wf: "hash64_wf hf alloc dealloc live h s2"
        by (rule hash64_wfI [OF part]) (use sz in \<open>simp_all add: h_def\<close>)
      have tot: "hash64_total (hash_func h)" "hash_size h < 2 ^ 32" using hf_total sz by (simp_all add: h_def)
      have abs: "hash64_abs h = Map.empty"
        by (rule hash64_abs_eqI [OF part tot]) (simp add: h_def)
      have tab: "hash64_table_ok mem_alloc mem_dealloc live h s2"
        using a(4) arr(4) na nr by (auto simp: hash64_table_ok_def h_def)
      have "\<forall>b. live s2 b \<and> b \<notin> hash64_owned h \<longleftrightarrow> live s b"
        using a(4) arr(4) na nr by (auto simp: hash64_owned_def h_def)
      then show ?thesis using run arr(2) wf abs tab
        by (intro exI [of _ "Some h"] exI [of _ s2]) (simp add: h_def)
    qed
  qed
qed

lemma rehash_correct:
  assumes wf: "hash64_wf hf alloc dealloc live h s" and ok: "ok s"
    and tab: "hash64_table_ok mem_alloc mem_dealloc live h s"
    and sz: "0 < sz" "8 * sz \<le> 2 ^ 32 - PAGE_4KB_SIZE"
  shows "\<exists>r h' s'. hash64_change_size_and_rehash chk (Some h) sz s = Some (r, Some h', s') \<and> ok s' \<and>
    hash64_wf hf alloc dealloc live h' s' \<and> hash64_table_ok mem_alloc mem_dealloc live h' s' \<and>
    hash64_abs h' = hash64_abs h \<and> element_count h' = element_count h \<and>
    hash_size h' = (if r then sz else hash_size h) \<and>
    is_multiple_values_hash h' = is_multiple_values_hash h \<and>
    (\<forall>b. live s' b \<and> b \<notin> hash64_owned h' \<longleftrightarrow> live s b \<and> b \<notin> hash64_owned h)"
proof -
  obtain css where part: "hash64_part h css []" and hf: "hash_func h = hf"
    and al: "node_alloc_func h = alloc" and de: "node_dealloc_func h = dealloc"
    and hsz: "hash_size h < 2 ^ 32" and own: "\<forall>p \<in> dom (nodes h). live s p"
    using wf by (rule hash64_wfD)
  have t: "mem_alloc_func h = mem_alloc" "mem_dealloc_func h = mem_dealloc" "live s (hash_addr h)"
    "live s (array_addr h)" "hash_addr h \<noteq> array_addr h" "hash_addr h \<notin> dom (nodes h)"
    "array_addr h \<notin> dom (nodes h)"
    using tab unfolding hash64_table_ok_def by blast+
  obtain arr s1 where arr: "hash64_mem_alloc chk mem_alloc (8 * sz) s = Some (arr, s1)" "ok s1"
    "arr = 0 \<longrightarrow> s1 = s" "arr \<noteq> 0 \<longrightarrow> \<not> live s arr \<and> (\<forall>b. live s1 b \<longleftrightarrow> live s b \<or> b = arr)"
    using mem_alloc [OF ok, of "8 * sz"] sz by auto
  show ?thesis
  proof (cases "arr = 0")
    case True
    then have "hash64_change_size_and_rehash chk (Some h) sz s = Some (False, Some h, s)"
      using arr t(1) by (simp add: hash64_change_size_and_rehash_def)
    then show ?thesis using wf ok tab by auto
  next
    case False
    note l1 = arr(4) [rule_format, OF False]
    have tot: "hash64_total (hash_func h)" using hf hf_total by simp
    have cells: "arr_fill (\<lambda>_. 0) (replicate (u32 (8 * sz) div 8) 0) 0 sz = Some (replicate sz (0::nat))"
      by (rule hash64_clear_cells) (use sz in linarith)
    define h0 where "h0 = h \<lparr> hash_array := replicate sz 0, array_addr := arr, hash_size := sz \<rparr>"
    have p0: "hash64_part h0 (replicate sz []) (concat css)"
      unfolding h0_def by (rule hash64_part_clear [OF part sz(1)])
    have c0: "list_all2 (chain (nodes h0)) (take (hash_size h) (hash_array h)) css"
      using hash64_part_cells [OF part] by (simp add: h0_def)
    have t0: "hash64_total (hash_func h0)" "hash_size h0 < 2 ^ 32" using tot sz by (simp_all add: h0_def)
    obtain h' css' where h': "hash64_rehash_cells h0 (take (hash_size h) (hash_array h)) = Some h'"
      "hash64_part h' css' []" "\<forall>p. key_value_at h' p = key_value_at h0 p"
      "h' = h0 \<lparr> nodes := nodes h', hash_array := hash_array h' \<rparr>"
      using hash64_rehash_cells_correct [OF p0 c0 t0] by blast
    have f: "hash_func h' = hf" "node_alloc_func h' = alloc" "node_dealloc_func h' = dealloc"
      "hash_size h' = sz" "element_count h' = element_count h" "mem_alloc_func h' = mem_alloc"
      "mem_dealloc_func h' = mem_dealloc" "hash_addr h' = hash_addr h" "array_addr h' = arr"
      using hf al de t(1,2)
        arg_cong [OF h'(4), of hash_func] arg_cong [OF h'(4), of node_alloc_func]
        arg_cong [OF h'(4), of node_dealloc_func] arg_cong [OF h'(4), of hash_size]
        arg_cong [OF h'(4), of element_count] arg_cong [OF h'(4), of mem_alloc_func]
        arg_cong [OF h'(4), of mem_dealloc_func] arg_cong [OF h'(4), of hash_addr]
        arg_cong [OF h'(4), of array_addr] by (simp_all add: h0_def)
    have kv: "key_value_at h' p = key_value_at h p" for p using h'(3) by (simp add: h0_def)
    have dom: "dom (nodes h') = dom (nodes h)"
    proof -
      have "nodes h' p = None \<longleftrightarrow> nodes h p = None" for p
        using arg_cong [OF kv [of p], of "\<lambda>x. x = None"] by simp
      then show ?thesis by (auto simp: dom_def)
    qed
    obtain s2 where s2: "hash64_mem_free chk mem_dealloc (array_addr h) s1 = Some s2" "ok s2"
      "\<forall>b. live s2 b \<longleftrightarrow> live s1 b \<and> b \<noteq> array_addr h"
      using mem_free [OF arr(2), of "array_addr h"] l1 t by blast
    have run: "hash64_change_size_and_rehash chk (Some h) sz s = Some (True, Some h', s2)"
      using arr(1) False cells h'(1) s2(1) t(1,2)
      by (simp add: hash64_change_size_and_rehash_def h0_def)
    have sz': "hash_size h' < 2 ^ 32" and tot': "hash64_total (hash_func h')"
      using f(1,4) sz hf_total by simp_all
    have "hash64_wf hf alloc dealloc live h' s2"
    proof (rule hash64_wfI [OF h'(2) f(1-3) sz'])
      show "\<forall>p \<in> dom (nodes h'). live s2 p" unfolding dom using own s2(3) l1 t(7) by blast
    qed
    moreover have "hash64_abs h' = hash64_abs h"
      by (rule hash64_abs_cong [OF part tot hsz h'(2) tot' sz' kv])
    moreover have "hash64_table_ok mem_alloc mem_dealloc live h' s2"
      unfolding hash64_table_ok_def f dom using s2(3) l1 t own by metis
    moreover have "\<forall>b. live s2 b \<and> b \<notin> hash64_owned h' \<longleftrightarrow> live s b \<and> b \<notin> hash64_owned h"
      unfolding hash64_owned_def f dom using s2(3) l1 t by auto
    moreover have "is_multiple_values_hash h' = is_multiple_values_hash h"
      using arg_cong [OF h'(4), of is_multiple_values_hash] by (simp add: h0_def)
    ultimately show ?thesis using run s2(2) f(4,5)
      by (intro exI [of _ True] exI [of _ h'] exI [of _ s2]) simp
  qed
qed

end


lemma heap_buffer_alloc:
  assumes ok: "heap_ok s" and b: "0 < bytes" "bytes \<le> 2 ^ 32 - PAGE_4KB_SIZE"
  shows "\<exists>a s'. vmm_memory_allocate chk bytes s = Some (a, s') \<and> heap_ok s' \<and> (a = 0 \<longrightarrow> s' = s) \<and>
    (a \<noteq> 0 \<longrightarrow> \<not> heap_buffer s a \<and> (\<forall>b. heap_buffer s' b \<longleftrightarrow> heap_buffer s b \<or> b = a))"
proof (rule vmm_memory_allocate_buffers [OF ok b refl, of chk])
  assume "vmm_memory_allocate chk bytes s = Some (0, s)"
  then show ?thesis using ok by auto
next
  fix a s'
  assume a: "vmm_memory_allocate chk bytes s = Some (a, s')" "heap_ok s'" "\<And>k. \<not> heap_live s a k"
    "\<And>b k. heap_live s' b k \<longleftrightarrow> heap_live s b k \<or> (b = a \<and> k = (bytes + 4095) div PAGE_4KB_SIZE)" "a \<noteq> 0"
  have "\<not> heap_buffer s a" using a(3) unfolding heap_buffer_def by blast
  moreover have "\<forall>b. heap_buffer s' b \<longleftrightarrow> heap_buffer s b \<or> b = a"
    unfolding heap_buffer_def a(4) by blast
  ultimately show ?thesis using a(1,2,5) by blast
qed

lemma heap_buffer_free:
  assumes ok: "heap_ok s" and b: "heap_buffer s a"
  shows "\<exists>s'. vmm_page_free chk a s = Some s' \<and> heap_ok s' \<and>
    (\<forall>b. heap_buffer s' b \<longleftrightarrow> heap_buffer s b \<and> b \<noteq> a)"
proof -
  obtain n where "heap_live s a n" using b unfolding heap_buffer_def by blast
  then obtain s' where "vmm_page_free chk a s = Some s'" "heap_ok s'"
    "\<And>b k. heap_live s' b k \<longleftrightarrow> heap_live s b k \<and> b \<noteq> a"
    using heap.free_live [OF ok] by blast
  then show ?thesis unfolding heap_buffer_def by blast
qed

interpretation hash64: hash64_table_env "hash64_default_node_alloc_func chk"
  "hash64_default_node_dealloc_func chk" heap_buffer heap_ok hash64_default_hash_func chk None None
  for chk
proof
  fix s a
  assume ok: "heap_ok s"
  show "\<exists>a s'. hash64_default_node_alloc_func chk s = Some (a, s') \<and> heap_ok s' \<and> (a = 0 \<longrightarrow> s' = s) \<and>
    (a \<noteq> 0 \<longrightarrow> \<not> heap_buffer s a \<and> (\<forall>b. heap_buffer s' b \<longleftrightarrow> heap_buffer s b \<or> b = a))"
    unfolding hash64_default_node_alloc_func_def
    by (rule heap_buffer_alloc [OF ok]) (simp_all add: hash64_get_node_size_def)
  show "\<exists>s'. hash64_default_node_dealloc_func chk a s = Some s' \<and> heap_ok s' \<and>
    (\<forall>b. heap_buffer s' b \<longleftrightarrow> heap_buffer s b \<and> b \<noteq> a)" if "heap_buffer s a"
    unfolding hash64_default_node_dealloc_func_def by (rule heap_buffer_free [OF ok that])
  show "\<exists>s'. hash64_mem_free chk None a s = Some s' \<and> heap_ok s' \<and>
    (\<forall>b. heap_buffer s' b \<longleftrightarrow> heap_buffer s b \<and> b \<noteq> a)" if "heap_buffer s a"
    using heap_buffer_free [OF ok that] by (simp add: hash64_mem_free_def)
  show "\<exists>a s'. hash64_mem_alloc chk None bytes s = Some (a, s') \<and> heap_ok s' \<and> (a = 0 \<longrightarrow> s' = s) \<and>
    (a \<noteq> 0 \<longrightarrow> \<not> heap_buffer s a \<and> (\<forall>b. heap_buffer s' b \<longleftrightarrow> heap_buffer s b \<or> b = a))"
    if b: "0 < bytes" "bytes \<le> 2 ^ 32 - PAGE_4KB_SIZE" for bytes
  proof -
    have "u32 bytes = bytes" using b by (simp add: width_simps)
    then show ?thesis using heap_buffer_alloc [OF ok b] by (simp add: hash64_mem_alloc_def)
  qed
next
  show "hash64_total hash64_default_hash_func" by (rule hash64_total_default)
qed

lemma hash64_keeps_default:
  assumes "hash64_default_ok chk h s" "hash64_keeps heap_buffer h s h' s'" "heap_ok s'"
    "hash64_wf hash64_default_hash_func (hash64_default_node_alloc_func chk)
       (hash64_default_node_dealloc_func chk) heap_buffer h' s'"
  shows "hash64_default_ok chk h' s'" "hash64_foreign h' s' = hash64_foreign h s"
proof -
  have t: "hash64_table_ok None None heap_buffer h s" and m: "\<not> is_multiple_values_hash h"
    using assms(1) unfolding hash64_default_ok_def by blast+
  note k = hash64_keeps_table_ok [OF assms(2) t]
  have "is_multiple_values_hash h' = is_multiple_values_hash h"
    using arg_cong [OF assms(2) [unfolded hash64_keeps_def, THEN conjunct2], of is_multiple_values_hash] by simp
  then show "hash64_default_ok chk h' s'"
    using m k(1) assms(3,4) unfolding hash64_default_ok_def by blast
  show "hash64_foreign h' s' = hash64_foreign h s"
    unfolding hash64_foreign_def using k(2) by blast
qed

lemma hash64_default_okD:
  assumes "hash64_default_ok chk h s"
  shows "heap_ok s" "\<not> is_multiple_values_hash h"
    "hash64_wf hash64_default_hash_func (hash64_default_node_alloc_func chk)
       (hash64_default_node_dealloc_func chk) heap_buffer h s"
    "hash64_table_ok None None heap_buffer h s"
  using assms unfolding hash64_default_ok_def by blast+

lemma hash64_default_insert:
  assumes "hash64_default_ok chk h s" "hash64_abs h key = None" "element_count h < 2 ^ 32 - 2"
  shows "\<exists>r h' s'. hash64_insert_internal chk h key value upd s = Some (r, h', s') \<and>
    hash64_default_ok chk h' s' \<and> hash64_foreign h' s' = hash64_foreign h s \<and>
    (if r then hash64_abs h' = (hash64_abs h)(key \<mapsto> value) \<and> element_count h' = element_count h + 1
     else h' = h \<and> s' = s)"
proof -
  note D = hash64_default_okD [OF assms(1)]
  obtain r h' s' where R: "hash64_insert_internal chk h key value upd s = Some (r, h', s')" "heap_ok s'"
    "hash64_wf hash64_default_hash_func (hash64_default_node_alloc_func chk)
       (hash64_default_node_dealloc_func chk) heap_buffer h' s'" "hash64_keeps heap_buffer h s h' s'"
    and r: "if r then hash64_abs h' = (hash64_abs h)(key \<mapsto> value) \<and> element_count h' = element_count h + 1
     else h' = h \<and> s' = s"
    using hash64.insert_new [OF D(3,1) assms(2,3), of chk "value" upd] by blast
  note K = hash64_keeps_default [OF assms(1) R(4,2,3)]
  show ?thesis by (intro exI conjI) (fact R(1) K r)+
qed

lemma hash64_default_update:
  assumes "hash64_default_ok chk h s" "hash64_abs h key = Some v"
  shows "\<exists>h'. hash64_insert_internal chk h key value True s = Some (True, h', s) \<and>
    hash64_default_ok chk h' s \<and> hash64_foreign h' s = hash64_foreign h s \<and>
    hash64_abs h' = (hash64_abs h)(key \<mapsto> value) \<and> element_count h' = element_count h"
proof -
  note D = hash64_default_okD [OF assms(1)]
  obtain h' where R: "hash64_insert_internal chk h key value True s = Some (True, h', s)"
    "hash64_wf hash64_default_hash_func (hash64_default_node_alloc_func chk)
       (hash64_default_node_dealloc_func chk) heap_buffer h' s"
    "hash64_abs h' = (hash64_abs h)(key \<mapsto> value)" "hash64_keeps heap_buffer h s h' s"
    "element_count h' = element_count h"
    using hash64.update_existing [OF D(3) assms(2), of chk "value"] by blast
  note K = hash64_keeps_default [OF assms(1) R(4) D(1) R(2)]
  show ?thesis by (intro exI conjI) (fact R K)+
qed

lemma hash64_default_remove:
  assumes "hash64_default_ok chk h s" "hash64_abs h key = Some v"
  shows "\<exists>h' s'. hash64_remove chk (Some h) key s = Some (True, Some h', s') \<and>
    hash64_default_ok chk h' s' \<and> hash64_foreign h' s' = hash64_foreign h s \<and>
    hash64_abs h' = (hash64_abs h)(key := None) \<and> element_count h' = element_count h - 1"
proof -
  note D = hash64_default_okD [OF assms(1)]
  obtain h' s' where R: "hash64_remove chk (Some h) key s = Some (True, Some h', s')" "heap_ok s'"
    "hash64_wf hash64_default_hash_func (hash64_default_node_alloc_func chk)
       (hash64_default_node_dealloc_func chk) heap_buffer h' s'"
    "hash64_abs h' = (hash64_abs h)(key := None)" "hash64_keeps heap_buffer h s h' s'"
    "element_count h' = element_count h - 1"
    using hash64.remove_existing [OF D(3,1) assms(2), of chk] by blast
  note K = hash64_keeps_default [OF assms(1) R(5,2,3)]
  show ?thesis by (intro exI conjI) (fact R K)+
qed

lemma hash64_default_create:
  assumes "heap_ok s" "0 < sz" "8 * sz \<le> 2 ^ 32 - PAGE_4KB_SIZE"
  shows "\<exists>r s'. hash64_create_default_hash chk sz s = Some (r, s') \<and> heap_ok s' \<and>
    (case r of
       None \<Rightarrow> heap_buffer s' = heap_buffer s
     | Some h \<Rightarrow> hash64_default_ok chk h s' \<and> hash64_abs h = Map.empty \<and> element_count h = 0 \<and>
         hash_size h = sz \<and> hash64_foreign h s' = {b. heap_buffer s b})"
proof -
  obtain r s' where R: "hash64_create_hash chk hash64_default_hash_func None None
      (hash64_default_node_alloc_func chk) (hash64_default_node_dealloc_func chk) sz s = Some (r, s')"
    "heap_ok s'"
    and r: "case r of
       None \<Rightarrow> \<forall>b. heap_buffer s' b \<longleftrightarrow> heap_buffer s b
     | Some h \<Rightarrow> hash64_wf hash64_default_hash_func (hash64_default_node_alloc_func chk)
         (hash64_default_node_dealloc_func chk) heap_buffer h s' \<and> hash64_table_ok None None heap_buffer h s' \<and>
         \<not> is_multiple_values_hash h \<and> hash64_abs h = Map.empty \<and> element_count h = 0 \<and>
         hash_size h = sz \<and>
         (\<forall>b. heap_buffer s' b \<and> b \<notin> hash64_owned h \<longleftrightarrow> heap_buffer s b)"
    using hash64.create_correct [OF assms, of chk] by blast
  have "case r of
       None \<Rightarrow> heap_buffer s' = heap_buffer s
     | Some h \<Rightarrow> hash64_default_ok chk h s' \<and> hash64_abs h = Map.empty \<and> element_count h = 0 \<and>
         hash_size h = sz \<and> hash64_foreign h s' = {b. heap_buffer s b}"
    using r R(2) by (cases r) (simp_all add: fun_eq_iff hash64_default_ok_def hash64_foreign_def)
  then show ?thesis using R unfolding hash64_create_default_hash_def by blast
qed

lemma hash64_example_blocks:
  "alloc_blocks 1 (heap_abs heap_example) = Some (2, [Used 2, Used 1, Free 2, Used 1])"
  "alloc_blocks 1 [Used 2, Used 1, Free 2, Used 1] = Some (3, [Used 2, Used 1, Used 1, Free 1, Used 1])"
  "alloc_blocks 1 [Used 2, Used 1, Used 1, Free 1, Used 1] = Some (4, [Used 2, Used 1, Used 1, Used 1, Used 1])"
  by (simp_all add: heap_example_abs)

lemma hash64_example_table:
  obtains h s where "hash64_create_default_hash chk 4 heap_example = Some (Some h, s)"
    "hash64_default_ok chk h s" "hash64_abs h = Map.empty" "element_count h = 0"
    "heap_abs s = [Used 2, Used 1, Used 1, Free 1, Used 1]"
proof -
  obtain a s1 where a: "vmm_memory_allocate chk 72 heap_example = Some (a, s1)" "a \<noteq> 0" "heap_ok s1"
    "heap_abs s1 = [Used 2, Used 1, Free 2, Used 1]"
    using hash64_example_blocks(1)
    by (auto intro: vmm_memory_allocate_buffers [OF heap_example_ok, of 72 1 chk])
  obtain b s2 where b: "vmm_memory_allocate chk 32 s1 = Some (b, s2)" "b \<noteq> 0" "heap_ok s2"
    "heap_abs s2 = [Used 2, Used 1, Used 1, Free 1, Used 1]"
    using hash64_example_blocks(2) [folded a(4)]
    by (auto intro: vmm_memory_allocate_buffers [OF a(3), of 32 1 chk])
  obtain h where "hash64_create_default_hash chk 4 heap_example = Some (Some h, s2)"
    using a(1,2) b(1,2) hash64_clear_cells [of 4]
    by (simp add: hash64_create_default_hash_def hash64_create_hash_def hash64_create_hash_internal_def
        hash64_mem_alloc_def width_simps)
  moreover from hash64_default_create [OF heap_example_ok, of 4 chk] this
  have "hash64_default_ok chk h s2" "hash64_abs h = Map.empty" "element_count h = 0" by auto
  ultimately show thesis using that b(4) by blast
qed

lemma hash64_example_entry:
  obtains h s where "hash64_default_ok chk h s" "hash64_abs h = [7 \<mapsto> 5]" "element_count h = 1"
proof -
  obtain h s where h: "hash64_default_ok chk h s" "hash64_abs h = Map.empty" "element_count h = 0"
    and s: "heap_abs s = [Used 2, Used 1, Used 1, Free 1, Used 1]"
    by (rule hash64_example_table)
  obtain r h' s' where R: "hash64_insert_internal chk h 7 5 False s = Some (r, h', s')"
    "hash64_default_ok chk h' s'"
    "if r then hash64_abs h' = (hash64_abs h)(7 \<mapsto> 5) \<and> element_count h' = element_count h + 1
     else h' = h \<and> s' = s"
    using hash64_default_insert [OF h(1), of 7 5 False] h(2,3) by auto
  have ok: "heap_ok s" by (rule hash64_default_okD [OF h(1)])
  obtain a s1 where a: "vmm_memory_allocate chk 24 s = Some (a, s1)" "a \<noteq> 0"
    "heap_abs s1 = [Used 2, Used 1, Used 1, Used 1, Used 1]"
    using hash64_example_blocks(3) [folded s]
    by (auto intro: vmm_memory_allocate_buffers [OF ok, of 24 1 chk])
  then have ne: "heap_abs s1 \<noteq> heap_abs s" by (simp add: s)
  have "node_alloc_func h = hash64_default_node_alloc_func chk"
    using hash64_default_okD(3) [OF h(1)] unfolding hash64_wf_def by blast
  then have "s' = s1"
    using R(1) a(1,2) by (auto simp: hash64_insert_internal_def hash64_default_node_alloc_func_def
        hash64_get_node_size_def Let_def bind_eq_Some_conv split: if_splits)
  then have r using R(3) ne by (auto split: if_splits)
  then show thesis using that R(2,3) h(2,3) by auto
qed


section \<open>Properties\<close>

text \<open>
  C11. \<open>hash64_create_default_hash\<close> returns.  Either it gives an invalid handle and no buffer of the
  heap has been added or lost (when the cell array cannot be had, the table structure is given
  back), or it gives a well-formed empty table of the requested size whose buffers are new.
\<close>

theorem hash64_create_empty:
  assumes "heap_ok s" "0 < sz" "8 * sz \<le> 2 ^ 32 - PAGE_4KB_SIZE"
  shows "\<exists>r s'. hash64_create_default_hash chk sz s = Some (r, s') \<and> heap_ok s' \<and>
    (case r of
       None \<Rightarrow> heap_buffer s' = heap_buffer s
     | Some h \<Rightarrow> hash64_default_ok chk h s' \<and> hash64_abs h = Map.empty \<and> element_count h = 0 \<and>
         hash_size h = sz \<and> hash64_foreign h s' = {b. heap_buffer s b})"
  by (rule hash64_default_create [OF assms])

theorem hash64_create_empty_witness:
  "\<exists>r s'. hash64_create_default_hash True 4 heap_example = Some (r, s') \<and> heap_ok s'"
  using hash64_create_empty [OF heap_example_ok, of 4 True] by auto

text \<open>
  C12. \<open>hash64_lookup\<close> returns on every well-formed table: the walk along the chain ends.  It gives the value
  \<open>v\<close> exactly if some node of the table, wherever it is linked, holds the key with this value, and \<^verbatim>\<open>FALSE\<close>
  exactly if no node holds the key; this is the abstract map.
\<close>

theorem hash64_lookup_refines:
  assumes "hash64_default_ok chk h s"
  shows "hash64_lookup chk' (Some h) key = Some (hash64_abs h key) \<and>
    (\<forall>v. hash64_lookup chk' (Some h) key = Some (Some v) \<longleftrightarrow>
       (\<exists>p n. nodes h p = Some n \<and> node_key n = key \<and> node_value n = v)) \<and>
    (hash64_lookup chk' (Some h) key = Some None \<longleftrightarrow> (\<forall>p n. nodes h p = Some n \<longrightarrow> node_key n \<noteq> key))"
proof -
  note L = hash64.lookup_correct [OF hash64_default_okD(3) [OF assms]]
  have "hash64_abs h key = None \<longleftrightarrow> (\<forall>p n. nodes h p = Some n \<longrightarrow> node_key n \<noteq> key)"
    using L(2) [of key] by (metis not_None_eq)
  then show ?thesis by (simp add: L)
qed

theorem hash64_lookup_refines_witness:
  "\<exists>h. hash64_lookup True (Some h) 7 = Some (Some 5) \<and> hash64_lookup True (Some h) 8 = Some None"
proof -
  obtain h s where "hash64_default_ok True h s" "hash64_abs h = [7 \<mapsto> 5]" by (rule hash64_example_entry)
  then show ?thesis
    using hash64_lookup_refines [of True h s True 7] hash64_lookup_refines [of True h s True 8]
    by (intro exI [of _ h]) simp
qed

text \<open>
  C13. \<open>hash64_insert\<close> of a new key returns.  On success the abstract map has the new entry and
  the counter is one more; when no node can be allocated the result is \<^verbatim>\<open>FALSE\<close> and nothing has
  changed.  The table stays well formed and every buffer that is not a node of the table stays
  as it was.
\<close>

theorem hash64_insert_refines:
  assumes "hash64_default_ok chk h s" "hash64_abs h key = None" "element_count h < 2 ^ 32 - 2"
  shows "\<exists>r h' s'. hash64_insert chk (Some h) key value s = Some (r, Some h', s') \<and>
    hash64_default_ok chk h' s' \<and> hash64_foreign h' s' = hash64_foreign h s \<and>
    (if r then hash64_abs h' = (hash64_abs h)(key \<mapsto> value) \<and> element_count h' = element_count h + 1
     else h' = h \<and> s' = s)"
  using hash64_default_insert [OF assms, of "value" False]
  by (elim exE conjE) (simp add: hash64_insert_def)

theorem hash64_insert_refines_witness:
  "\<exists>h s r h' s'. hash64_insert False (Some h) 9 1 s = Some (r, Some h', s') \<and>
     hash64_default_ok False h' s'"
proof -
  obtain h s where "hash64_default_ok False h s" "hash64_abs h = [7 \<mapsto> 5]" "element_count h = 1"
    by (rule hash64_example_entry)
  then show ?thesis using hash64_insert_refines [of False h s 9 1] by fastforce
qed

text \<open>
  C14. \<open>hash64_update\<close> overwrites the value of a key that is in the table, without allocating, and
  inserts a key that is not.
\<close>

theorem hash64_update_refines:
  assumes "hash64_default_ok chk h s" "element_count h < 2 ^ 32 - 2"
  shows "\<exists>r h' s'. hash64_update chk (Some h) key value s = Some (r, Some h', s') \<and>
    hash64_default_ok chk h' s' \<and> hash64_foreign h' s' = hash64_foreign h s \<and>
    (key \<in> dom (hash64_abs h) \<longrightarrow> r \<and> s' = s \<and> element_count h' = element_count h) \<and>
    (r \<longrightarrow> hash64_abs h' = (hash64_abs h)(key \<mapsto> value)) \<and> (\<not> r \<longrightarrow> h' = h \<and> s' = s)"
proof (cases "hash64_abs h key")
  case None
  then show ?thesis
    using hash64_default_insert [OF assms(1) None assms(2), of "value" True]
    by (elim exE conjE) (auto simp: hash64_update_def split: if_splits)
next
  case (Some v)
  then show ?thesis
    using hash64_default_update [OF assms(1) Some, of "value"]
    by (elim exE conjE) (rule exI [of _ True], auto simp: hash64_update_def)
qed

theorem hash64_update_refines_witness:
  "\<exists>h s h'. hash64_update True (Some h) 7 6 s = Some (True, Some h', s) \<and> hash64_abs h' = [7 \<mapsto> 6]"
proof -
  obtain h s where "hash64_default_ok True h s" "hash64_abs h = [7 \<mapsto> 5]" "element_count h = 1"
    by (rule hash64_example_entry)
  then show ?thesis using hash64_update_refines [of True h s 7 6] by (auto intro!: exI [of _ h])
qed

text \<open>
  C15. \<open>hash64_remove\<close> of a key that is in the table unlinks and releases exactly its node, wherever
  in the chain it is: the abstract map loses the key, the counter is one less and the table
  stays well formed.  For a key that is not in the table the assertion fires; where assertions
  are compiled out the result is \<^verbatim>\<open>FALSE\<close> and nothing changes.
\<close>

theorem hash64_remove_refines:
  assumes "hash64_default_ok chk h s"
  shows "case hash64_abs h key of
      Some v \<Rightarrow> \<exists>h' s'. hash64_remove chk (Some h) key s = Some (True, Some h', s') \<and>
        hash64_default_ok chk h' s' \<and> hash64_foreign h' s' = hash64_foreign h s \<and>
        hash64_abs h' = (hash64_abs h)(key := None) \<and> element_count h' = element_count h - 1
    | None \<Rightarrow> hash64_remove chk (Some h) key s = (if chk then None else Some (False, Some h, s))"
proof (cases "hash64_abs h key")
  case None
  then show ?thesis using hash64.remove_absent [OF hash64_default_okD(3) [OF assms] None] by simp
next
  case (Some v)
  then show ?thesis using hash64_default_remove [OF assms Some] by simp
qed

theorem hash64_remove_refines_witness:
  "\<exists>h s h' s'. hash64_remove True (Some h) 7 s = Some (True, Some h', s') \<and> hash64_abs h' = Map.empty"
proof -
  obtain h s where "hash64_default_ok True h s" "hash64_abs h = [7 \<mapsto> 5]" by (rule hash64_example_entry)
  then show ?thesis using hash64_remove_refines [of True h s 7] by auto
qed

text \<open>
  C16. \<open>hash64_change_size_and_rehash\<close> moves every node to the cell of the new size and gives the
  old cell array back: the abstract map is the same before and after, whether the new array
  could be allocated or not.
\<close>

theorem hash64_rehash_keeps_map:
  assumes "hash64_default_ok chk h s" "0 < sz" "8 * sz \<le> 2 ^ 32 - PAGE_4KB_SIZE"
  shows "\<exists>r h' s'. hash64_change_size_and_rehash chk (Some h) sz s = Some (r, Some h', s') \<and>
    hash64_default_ok chk h' s' \<and> hash64_foreign h' s' = hash64_foreign h s \<and>
    hash64_abs h' = hash64_abs h \<and> element_count h' = element_count h \<and>
    hash_size h' = (if r then sz else hash_size h)"
proof -
  note D = hash64_default_okD [OF assms(1)]
  show ?thesis
    using hash64.rehash_correct [OF D(3,1,4) assms(2,3)] D(2)
    unfolding hash64_default_ok_def hash64_foreign_def by (elim exE conjE) (intro exI conjI, auto)
qed

theorem hash64_rehash_keeps_map_witness:
  "\<exists>h s r h' s'. hash64_change_size_and_rehash True (Some h) 16 s = Some (r, Some h', s') \<and>
     hash64_abs h' = [7 \<mapsto> 5]"
proof -
  obtain h s where "hash64_default_ok True h s" "hash64_abs h = [7 \<mapsto> 5]" by (rule hash64_example_entry)
  moreover from this hash64_rehash_keeps_map [of True h s 16]
  obtain r h' s' where "hash64_change_size_and_rehash True (Some h) 16 s = Some (r, Some h', s')"
    "hash64_abs h' = hash64_abs h" by auto
  ultimately show ?thesis by metis
qed

text \<open>
  C17. \<open>hash64_destroy_hash\<close> releases every node, the cell array and the table structure, each once,
  and no other buffer; no assertion fires.
\<close>

theorem hash64_destroy_releases:
  assumes "hash64_default_ok chk h s"
  shows "\<exists>s'. hash64_destroy_hash chk h s = Some s' \<and> heap_ok s' \<and>
    {b. heap_buffer s' b} = hash64_foreign h s"
proof -
  note D = hash64_default_okD [OF assms]
  show ?thesis
    using hash64.destroy_correct [OF D(3,1,4,2)] unfolding hash64_foreign_def by auto
qed

theorem hash64_destroy_releases_witness:
  "\<exists>h s s'. hash64_destroy_hash True h s = Some s' \<and> heap_ok s' \<and> hash64_abs h = [7 \<mapsto> 5]"
proof -
  obtain h s where "hash64_default_ok True h s" "hash64_abs h = [7 \<mapsto> 5]" by (rule hash64_example_entry)
  then show ?thesis using hash64_destroy_releases [of True h s] by auto
qed

end
