(* ===== verification/VmmLock.thy ===== *)
theory VmmLock
  imports VmmPrelude
begin

text \<open>
  The spin locks and the read-write locks of \<^verbatim>\<open>vmm/utils/lock.c\<close> together with the interlocked
  primitives of \<^verbatim>\<open>vmm/host/hw/machinesupport.c\<close> that they are built from.

  The first part models the operations as one CPU executes them, undisturbed.  The second part is
  an interleaving model: several CPUs run the operations on one read-write lock (a plain lock is
  its spin lock part), and a step of a CPU is one access to shared memory.  In particular
  \<open>hw_interlocked_compare_exchange\<close> is modelled as the instructions of its assembly text, which
  loads the lock word twice, compares and exchanges \<^emph>\<open>in registers\<close> and stores the result back.  The
  locks are correct in runs in which no CPU changes the word between these accesses of another
  (\<open>lock_quiet\<close>), and the properties show what happens otherwise.  \<open>chk\<close> selects whether assertions stop.
\<close>

section \<open>The operations of one CPU\<close>

text \<open>\<^verbatim>\<open>VMM_LOCK\<close> and \<^verbatim>\<open>VMM_READ_WRITE_LOCK\<close>; \<open>(CPU_ID)-1\<close> is 65535.\<close>

record vmm_lock =
  uint32_lock :: nat
  owner_cpu_id :: nat

record vmm_read_write_lock =
  rw_lock :: vmm_lock
  readers :: nat

definition no_owner :: nat where
  "no_owner = 65535"

definition hw_interlocked_increment :: "nat \<Rightarrow> nat \<times> nat" where
  "hw_interlocked_increment addend = (u32 (addend + 1), u32 (addend + 1))"

definition hw_interlocked_decrement :: "nat \<Rightarrow> nat \<times> nat" where
  "hw_interlocked_decrement minuend = (u32_sub minuend 1, u32_sub minuend 1)"

text \<open>The registers: \<^verbatim>\<open>cmpxchgl\<close> compares \<open>eax\<close> with \<open>edx\<close>.\<close>

definition cmpxchg_register :: "nat \<Rightarrow> nat \<Rightarrow> nat \<Rightarrow> nat" where
  "cmpxchg_register eax ecx edx = (if eax = edx then ecx else edx)"

definition hw_interlocked_compare_exchange :: "nat \<Rightarrow> nat \<Rightarrow> nat \<Rightarrow> nat \<times> nat" where
  "hw_interlocked_compare_exchange destination expected comperand =
     (let old = destination;
          edx = cmpxchg_register expected comperand destination
      in (old, edx))"

text \<open>The operations take a pointer to the lock, for which \<^const>\<open>None\<close> is \<^verbatim>\<open>NULL\<close>.\<close>

definition lock_try_acquire :: "vmm_lock option \<Rightarrow> bool \<times> vmm_lock option" where
  "lock_try_acquire lock =
     (case lock of
        None \<Rightarrow> (False, None)
      | Some l \<Rightarrow>
          (let (current_value, word) = hw_interlocked_compare_exchange (uint32_lock l) 0 1
           in (current_value = 0, Some (l \<lparr> uint32_lock := word \<rparr>))))"

text \<open>Undisturbed, a CPU that finds the lock taken spins for ever.\<close>

definition vmm_lock_acquire :: "nat \<Rightarrow> vmm_lock option \<Rightarrow> vmm_lock option option" where
  "vmm_lock_acquire this_cpu_id lock =
     (case lock of
        None \<Rightarrow> Some None
      | Some _ \<Rightarrow>
          (case lock_try_acquire lock of
             (True, Some l) \<Rightarrow> Some (Some (l \<lparr> owner_cpu_id := this_cpu_id \<rparr>))
           | _ \<Rightarrow> None))"

definition vmm_lock_release :: "vmm_lock option \<Rightarrow> vmm_lock option" where
  "vmm_lock_release lock =
     map_option (\<lambda>l. l \<lparr> owner_cpu_id := no_owner, uint32_lock := 0 \<rparr>) lock"

definition lock_initialize :: "vmm_lock option \<Rightarrow> vmm_lock option" where
  "lock_initialize lock = vmm_lock_release lock"

definition lock_initialize_read_write_lock :: "vmm_read_write_lock \<Rightarrow> vmm_read_write_lock" where
  "lock_initialize_read_write_lock l =
     l \<lparr> rw_lock := the (lock_initialize (Some (rw_lock l))), readers := 0 \<rparr>"

section \<open>Interleaved execution\<close>

text \<open>What a CPU wants of the lock, and where it is in the code.\<close>

datatype lock_mode = Plain | Read | Write

datatype lock_pc =
    Outside
  | Load_old lock_mode
  | Load_edx lock_mode nat
  | Cmpxchg lock_mode nat nat
  | Store_edx lock_mode nat nat
  | Test_old lock_mode nat
  | Set_owner lock_mode
  | Critical
  | Inc_readers
  | Read_clear_owner
  | Read_clear_word
  | Reading
  | Wait_readers
  | Writing
  | Clear_owner
  | Clear_word

record lock_machine =
  the_lock :: vmm_read_write_lock
  pcs :: "nat \<Rightarrow> lock_pc"

abbreviation lock_word :: "lock_machine \<Rightarrow> nat" where
  "lock_word s \<equiv> uint32_lock (rw_lock (the_lock s))"

abbreviation lock_owner :: "lock_machine \<Rightarrow> nat" where
  "lock_owner s \<equiv> owner_cpu_id (rw_lock (the_lock s))"

abbreviation lock_readers :: "lock_machine \<Rightarrow> nat" where
  "lock_readers s \<equiv> readers (the_lock s)"

definition set_word :: "nat \<Rightarrow> lock_machine \<Rightarrow> lock_machine" where
  "set_word w s =
     s \<lparr> the_lock := (the_lock s) \<lparr> rw_lock := (rw_lock (the_lock s)) \<lparr> uint32_lock := w \<rparr> \<rparr> \<rparr>"

definition set_owner :: "nat \<Rightarrow> lock_machine \<Rightarrow> lock_machine" where
  "set_owner w s =
     s \<lparr> the_lock := (the_lock s) \<lparr> rw_lock := (rw_lock (the_lock s)) \<lparr> owner_cpu_id := w \<rparr> \<rparr> \<rparr>"

definition set_readers :: "nat \<Rightarrow> lock_machine \<Rightarrow> lock_machine" where
  "set_readers w s = s \<lparr> the_lock := (the_lock s) \<lparr> readers := w \<rparr> \<rparr>"

definition goto :: "nat \<Rightarrow> lock_pc \<Rightarrow> lock_machine \<Rightarrow> lock_machine" where
  "goto c pc s = s \<lparr> pcs := (pcs s)(c := pc) \<rparr>"

text \<open>
  One step of a CPU.  \<open>Load_old\<close> to \<open>Test_old\<close> is the loop of \<open>lock_acquire\<close> around
  \<open>lock_try_acquire\<close>.  The steps out of \<^const>\<open>Outside\<close> and out of the critical sections are calls
  of the client and are separate actions below.
\<close>

definition lock_acquire_step :: "bool \<Rightarrow> nat \<Rightarrow> lock_machine \<Rightarrow> lock_machine option" where
  "lock_acquire_step chk c s =
     (case pcs s c of
        Load_old m \<Rightarrow> Some (goto c (Load_edx m (lock_word s)) s)
      | Load_edx m old \<Rightarrow> Some (goto c (Cmpxchg m old (lock_word s)) s)
      | Cmpxchg m old edx \<Rightarrow> Some (goto c (Store_edx m old (cmpxchg_register 0 1 edx)) s)
      | Store_edx m old edx \<Rightarrow> Some (goto c (Test_old m old) (set_word edx s))
      | Test_old m old \<Rightarrow>
          if old = 0 then Some (goto c (Set_owner m) s)
          else if chk \<and> lock_owner s = c then None
          else Some (goto c (Load_old m) s)
      | Set_owner m \<Rightarrow>
          Some (goto c (case m of Plain \<Rightarrow> Critical | Read \<Rightarrow> Inc_readers | Write \<Rightarrow> Wait_readers)
                  (set_owner c s))
      | _ \<Rightarrow> None)"

definition lock_release_step :: "nat \<Rightarrow> lock_machine \<Rightarrow> lock_machine option" where
  "lock_release_step c s =
     (case pcs s c of
        Clear_owner \<Rightarrow> Some (goto c Clear_word (set_owner no_owner s))
      | Clear_word \<Rightarrow> Some (goto c Outside (set_word 0 s))
      | Read_clear_owner \<Rightarrow> Some (goto c Read_clear_word (set_owner no_owner s))
      | Read_clear_word \<Rightarrow> Some (goto c Reading (set_word 0 s))
      | _ \<Rightarrow> None)"

definition lock_acquire_readlock_step :: "nat \<Rightarrow> lock_machine \<Rightarrow> lock_machine option" where
  "lock_acquire_readlock_step c s =
     (case pcs s c of
        Inc_readers \<Rightarrow>
          Some (goto c Read_clear_owner (set_readers (snd (hw_interlocked_increment (lock_readers s))) s))
      | _ \<Rightarrow> None)"

definition lock_acquire_writelock_step :: "nat \<Rightarrow> lock_machine \<Rightarrow> lock_machine option" where
  "lock_acquire_writelock_step c s =
     (case pcs s c of
        Wait_readers \<Rightarrow> if lock_readers s \<noteq> 0 then Some s else Some (goto c Writing s)
      | _ \<Rightarrow> None)"

text \<open>The calls: acquire in one of the modes, and release what is held.\<close>

definition lock_release_call :: "nat \<Rightarrow> lock_machine \<Rightarrow> lock_machine option" where
  "lock_release_call c s =
     (case pcs s c of
        Critical \<Rightarrow> Some (goto c Clear_owner s)
      | Writing \<Rightarrow> Some (goto c Clear_owner s)
      | Reading \<Rightarrow>
          Some (goto c Outside (set_readers (snd (hw_interlocked_decrement (lock_readers s))) s))
      | _ \<Rightarrow> None)"

datatype lock_action = Call lock_mode nat | Step nat | Release nat

fun lock_exec :: "bool \<Rightarrow> lock_action \<Rightarrow> lock_machine \<Rightarrow> lock_machine option" where
  "lock_exec chk (Call m c) s =
     (if pcs s c = Outside then Some (goto c (Load_old m) s) else None)"
| "lock_exec chk (Release c) s = lock_release_call c s"
| "lock_exec chk (Step c) s =
     (case pcs s c of
        Inc_readers \<Rightarrow> lock_acquire_readlock_step c s
      | Wait_readers \<Rightarrow> lock_acquire_writelock_step c s
      | Clear_owner \<Rightarrow> lock_release_step c s
      | Clear_word \<Rightarrow> lock_release_step c s
      | Read_clear_owner \<Rightarrow> lock_release_step c s
      | Read_clear_word \<Rightarrow> lock_release_step c s
      | _ \<Rightarrow> lock_acquire_step chk c s)"

fun lock_run :: "bool \<Rightarrow> lock_action list \<Rightarrow> lock_machine \<Rightarrow> lock_machine option" where
  "lock_run chk [] s = Some s"
| "lock_run chk (a # as) s = Option.bind (lock_exec chk a s) (lock_run chk as)"

fun action_cpu :: "lock_action \<Rightarrow> nat" where
  "action_cpu (Call m c) = c"
| "action_cpu (Step c) = c"
| "action_cpu (Release c) = c"

definition lock_start :: lock_machine where
  "lock_start =
     \<lparr> the_lock = \<lparr> rw_lock = \<lparr> uint32_lock = 0, owner_cpu_id = no_owner \<rparr>, readers = 0 \<rparr>,
       pcs = (\<lambda>_. Outside) \<rparr>"

text \<open>The states that \<open>n\<close> CPUs can reach.\<close>

inductive lock_reach :: "nat \<Rightarrow> bool \<Rightarrow> lock_machine \<Rightarrow> bool" for n chk where
  start: "lock_reach n chk lock_start"
| step: "lock_reach n chk s \<Longrightarrow> action_cpu a < n \<Longrightarrow> lock_exec chk a s = Some s' \<Longrightarrow>
    lock_reach n chk s'"

text \<open>A CPU holds the spin lock from the successful exchange to the store that clears the word.\<close>

fun holds :: "lock_pc \<Rightarrow> bool" where
  "holds (Test_old m old) = (old = 0)"
| "holds (Set_owner m) = True"
| "holds Critical = True"
| "holds Inc_readers = True"
| "holds Read_clear_owner = True"
| "holds Read_clear_word = True"
| "holds Wait_readers = True"
| "holds Writing = True"
| "holds Clear_owner = True"
| "holds Clear_word = True"
| "holds _ = False"

text \<open>A CPU is counted in \<open>readers\<close>.\<close>

definition counted :: "lock_pc \<Rightarrow> bool" where
  "counted pc = (pc \<in> {Read_clear_owner, Read_clear_word, Reading})"

fun register_pc :: "lock_pc \<Rightarrow> bool" where
  "register_pc (Load_edx m old) = True"
| "register_pc (Cmpxchg m old edx) = True"
| "register_pc (Store_edx m old edx) = True"
| "register_pc _ = False"

text \<open>
  A step does not disturb an exchange if it leaves the word alone or no other CPU is between the first load
  and the store of its exchange; the states that \<open>n\<close> CPUs reach by such steps.
\<close>

definition undisturbed :: "lock_action \<Rightarrow> lock_machine \<Rightarrow> lock_machine \<Rightarrow> bool" where
  "undisturbed a s s' \<longleftrightarrow>
     lock_word s' = lock_word s \<or> (\<forall>d. d \<noteq> action_cpu a \<longrightarrow> \<not> register_pc (pcs s d))"

inductive lock_quiet :: "nat \<Rightarrow> bool \<Rightarrow> lock_machine \<Rightarrow> bool" for n chk where
  start: "lock_quiet n chk lock_start"
| step: "lock_quiet n chk s \<Longrightarrow> action_cpu a < n \<Longrightarrow> lock_exec chk a s = Some s' \<Longrightarrow> undisturbed a s s' \<Longrightarrow>
    lock_quiet n chk s'"

text \<open>Sequences of undisturbed steps.\<close>

inductive quiet_run :: "nat \<Rightarrow> bool \<Rightarrow> lock_machine \<Rightarrow> lock_action list \<Rightarrow> lock_machine \<Rightarrow> bool" for n chk where
  none: "quiet_run n chk s [] s"
| more: "action_cpu a < n \<Longrightarrow> lock_exec chk a s = Some s1 \<Longrightarrow> undisturbed a s s1 \<Longrightarrow> quiet_run n chk s1 as s' \<Longrightarrow>
    quiet_run n chk s (a # as) s'"

text \<open>Two CPUs are in their exchanges while the lock is free: whoever stores first disturbs the other.\<close>

definition exchange_race :: "lock_machine \<Rightarrow> bool" where
  "exchange_race s \<longleftrightarrow>
     lock_word s = 0 \<and> (\<exists>c d. c \<noteq> d \<and> register_pc (pcs s c) \<and> register_pc (pcs s d))"

text \<open>The registers of an exchange agree with the word \<open>w\<close>.\<close>

fun agrees :: "nat \<Rightarrow> lock_pc \<Rightarrow> bool" where
  "agrees w (Load_edx m old) = (old = w)"
| "agrees w (Cmpxchg m old edx) = (old = w \<and> edx = w)"
| "agrees w (Store_edx m old edx) = (old = w \<and> edx = (if w = 0 then 1 else w))"
| "agrees w _ = True"

definition reader_cpus :: "nat \<Rightarrow> lock_machine \<Rightarrow> nat set" where
  "reader_cpus n s = {c. c < n \<and> counted (pcs s c)}"

definition lock_inv :: "nat \<Rightarrow> lock_machine \<Rightarrow> bool" where
  "lock_inv n s \<longleftrightarrow>
     (\<forall>c d. holds (pcs s c) \<and> holds (pcs s d) \<longrightarrow> c = d) \<and>
     lock_word s = (if \<exists>c. holds (pcs s c) then 1 else 0) \<and>
     lock_readers s = card (reader_cpus n s) \<and>
     (\<forall>c. pcs s c = Writing \<longrightarrow> reader_cpus n s = {}) \<and>
     (\<forall>c. agrees (lock_word s) (pcs s c)) \<and>
     (\<forall>c \<ge> n. pcs s c = Outside)"


text \<open>What every CPU may still be doing once a release has been overwritten.\<close>

fun stale :: "lock_pc \<Rightarrow> bool" where
  "stale Outside = True"
| "stale Reading = True"
| "stale (Load_old m) = True"
| "stale (Load_edx m old) = (old = 1)"
| "stale (Cmpxchg m old edx) = (old = 1 \<and> edx = 1)"
| "stale (Store_edx m old edx) = (old = 1 \<and> edx = 1)"
| "stale (Test_old m old) = (old = 1)"
| "stale _ = False"

definition lock_lost :: "lock_machine \<Rightarrow> bool" where
  "lock_lost s \<longleftrightarrow> lock_word s = 1 \<and> (\<forall>c. stale (pcs s c))"

text \<open>How far a CPU is from giving up what it holds.\<close>

fun lock_rank :: "lock_pc \<Rightarrow> nat" where
  "lock_rank (Load_edx m old) = 15"
| "lock_rank (Cmpxchg m old edx) = 14"
| "lock_rank (Store_edx m old edx) = 13"
| "lock_rank (Test_old m old) = (if old = 0 then 12 else 0)"
| "lock_rank (Set_owner m) = 11"
| "lock_rank Inc_readers = 10"
| "lock_rank Read_clear_owner = 9"
| "lock_rank Read_clear_word = 8"
| "lock_rank Wait_readers = 7"
| "lock_rank Reading = 5"
| "lock_rank Critical = 3"
| "lock_rank Writing = 3"
| "lock_rank Clear_owner = 2"
| "lock_rank Clear_word = 1"
| "lock_rank _ = 0"

definition lock_potential :: "nat \<Rightarrow> lock_machine \<Rightarrow> nat" where
  "lock_potential n s = (\<Sum>c<n. lock_rank (pcs s c))"

section \<open>Invariant of quiet runs\<close>

lemma lock_machine_simps [simp]:
  "pcs (set_word w s) = pcs s" "pcs (set_owner w s) = pcs s" "pcs (set_readers w s) = pcs s"
  "pcs (goto c pc s) = (pcs s)(c := pc)"
  "lock_word (set_word w s) = w" "lock_word (set_owner w s) = lock_word s"
  "lock_word (set_readers w s) = lock_word s" "lock_word (goto c pc s) = lock_word s"
  "lock_readers (set_word w s) = lock_readers s" "lock_readers (set_owner w s) = lock_readers s"
  "lock_readers (set_readers w s) = w" "lock_readers (goto c pc s) = lock_readers s"
  "lock_owner (set_word w s) = lock_owner s" "lock_owner (set_owner w s) = w"
  "lock_owner (set_readers w s) = lock_owner s" "lock_owner (goto c pc s) = lock_owner s"
  by (simp_all add: set_word_def set_owner_def set_readers_def goto_def)

lemma counted_simps [simp]:
  "counted Read_clear_owner" "counted Read_clear_word" "counted Reading"
  "\<not> counted Outside" "\<not> counted (Load_old m)" "\<not> counted (Load_edx m old)"
  "\<not> counted (Cmpxchg m old edx)" "\<not> counted (Store_edx m old edx)" "\<not> counted (Test_old m old)"
  "\<not> counted (Set_owner m)" "\<not> counted Critical" "\<not> counted Inc_readers" "\<not> counted Wait_readers"
  "\<not> counted Writing" "\<not> counted Clear_owner" "\<not> counted Clear_word"
  by (simp_all add: counted_def)

lemma finite_reader_cpus [simp]: "finite (reader_cpus n s)"
  by (simp add: reader_cpus_def)

lemma reader_cpus_goto:
  assumes "pcs s' = (pcs s)(c := pc)" "c < n"
  shows "reader_cpus n s' = (if counted pc then insert c (reader_cpus n s) else reader_cpus n s - {c})"
  using assms by (auto simp: reader_cpus_def)

lemma card_reader_cpus: "card (reader_cpus n s) \<le> n"
  using card_mono [of "{..<n}" "reader_cpus n s"] by (auto simp: reader_cpus_def)

lemma lock_invD:
  assumes "lock_inv n s"
  shows "holds (pcs s c) \<Longrightarrow> holds (pcs s d) \<Longrightarrow> c = d"
    "lock_word s = (if \<exists>c. holds (pcs s c) then 1 else 0)"
    "lock_readers s = card (reader_cpus n s)"
    "pcs s c = Writing \<Longrightarrow> reader_cpus n s = {}"
    "agrees (lock_word s) (pcs s c)" "n \<le> c \<Longrightarrow> pcs s c = Outside"
  using assms unfolding lock_inv_def by blast+

text \<open>The invariant is kept by a step of CPU \<open>c\<close> to \<open>pc\<close>, given how the step changes the lock.\<close>

lemma lock_inv_goto:
  assumes inv: "lock_inv n s" and c: "c < n" and pcs': "pcs s' = (pcs s)(c := pc)"
    and reg: "agrees (lock_word s') pc" "lock_word s' \<noteq> lock_word s \<Longrightarrow> \<forall>d. d \<noteq> c \<longrightarrow> \<not> register_pc (pcs s d)"
    and hold: "if holds pc then holds (pcs s c) \<and> lock_word s' = lock_word s
                   \<or> lock_word s = 0 \<and> lock_word s' = 1
               else if holds (pcs s c) then lock_word s' = 0 else lock_word s' = lock_word s"
    and rd: "lock_readers s' =
        (if counted pc \<and> \<not> counted (pcs s c) then lock_readers s + 1
         else if \<not> counted pc \<and> counted (pcs s c) then lock_readers s - 1 else lock_readers s)"
    and cnt: "counted pc \<Longrightarrow> counted (pcs s c) \<or> holds (pcs s c)"
    and wr: "pc = Writing \<Longrightarrow> reader_cpus n s = {}"
  shows "lock_inv n s'"
proof -
  note D = lock_invD [OF inv]
  have w0: "lock_word s = 0 \<longleftrightarrow> (\<forall>d. \<not> holds (pcs s d))" using D(2) by simp
  have single: "holds (pcs s' d) \<Longrightarrow> holds (pcs s' e) \<Longrightarrow> d = e" for d e
    using hold w0 D(1) pcs' by (cases "d = c"; cases "e = c") (auto split: if_splits)
  have word: "lock_word s' = (if \<exists>d. holds (pcs s' d) then 1 else 0)"
  proof (cases "holds pc")
    case True
    then have "\<exists>d. holds (pcs s' d)" using pcs' by (auto intro: exI [of _ c])
    moreover have "lock_word s' = 1" using hold True D(2) by (auto split: if_splits)
    ultimately show ?thesis by simp
  next
    case F: False
    show ?thesis
    proof (cases "holds (pcs s c)")
      case True
      then have "\<not> holds (pcs s' d)" for d using D(1) [of c d] F pcs' by auto
      then show ?thesis using hold F True by simp
    next
      case False
      then have "(\<exists>d. holds (pcs s' d)) \<longleftrightarrow> (\<exists>d. holds (pcs s d))"
        using F pcs' by (metis fun_upd_apply)
      then show ?thesis using hold F False D(2) by simp
    qed
  qed
  have mem: "c \<in> reader_cpus n s \<longleftrightarrow> counted (pcs s c)" using c by (simp add: reader_cpus_def)
  have rds: "lock_readers s' = card (reader_cpus n s')"
    using rd D(3) mem unfolding reader_cpus_goto [OF pcs' c]
    by (auto simp: insert_absorb card_Diff_singleton split: if_splits)
  have wri: "reader_cpus n s' = {}" if w: "pcs s' d = Writing" for d
  proof (cases "d = c")
    case True
    then have "pc = Writing" using w pcs' by simp
    then show ?thesis using wr unfolding reader_cpus_goto [OF pcs' c] by simp
  next
    case False
    then have old: "pcs s d = Writing" using w pcs' by simp
    then have e: "reader_cpus n s = {}" by (rule D(4))
    have "\<not> counted pc"
    proof
      assume "counted pc"
      then have "holds (pcs s c)" using cnt mem e by blast
      then show False using D(1) [of c d] old False by simp
    qed
    then show ?thesis using e unfolding reader_cpus_goto [OF pcs' c] by simp
  qed
  have "agrees w (pcs s d)" if "\<not> register_pc (pcs s d)" for w d using that by (cases "pcs s d") simp_all
  then have reg': "agrees (lock_word s') (pcs s' d)" for d
    using D(5) [of d] reg pcs' by (cases "d = c"; cases "lock_word s' = lock_word s") simp_all
  have out: "n \<le> d \<Longrightarrow> pcs s' d = Outside" for d using D(6) pcs' c by auto
  show ?thesis unfolding lock_inv_def
    by (intro conjI allI impI) (use single in blast, fact word, fact rds, erule wri, rule reg', erule out)
qed

lemma lock_inv_start: "lock_inv n lock_start"
  by (simp add: lock_inv_def lock_start_def reader_cpus_def counted_def)

text \<open>The steps that leave the word and the readers alone keep the invariant.\<close>

lemma lock_inv_local:
  assumes "lock_inv n s" "c < n" "pcs s' = (pcs s)(c := pc)" "agrees (lock_word s) pc"
    "lock_word s' = lock_word s" "lock_readers s' = lock_readers s"
    "holds pc = holds (pcs s c)" "counted pc = counted (pcs s c)" "pc \<noteq> Writing"
  shows "lock_inv n s'"
  by (rule lock_inv_goto [OF assms(1-3)]) (use assms in simp_all)

lemma lock_inv_readers:
  assumes "lock_inv n s" "c < n" "n < 2 ^ 32"
  shows "counted (pcs s c) \<Longrightarrow> u32_sub (lock_readers s) 1 = lock_readers s - 1"
    and "\<not> counted (pcs s c) \<Longrightarrow> u32 (lock_readers s + 1) = lock_readers s + 1"
proof -
  note D = lock_invD [OF assms(1)]
  have rn: "lock_readers s \<le> n" using D(3) card_reader_cpus by simp
  show "u32_sub (lock_readers s) 1 = lock_readers s - 1" if "counted (pcs s c)"
  proof -
    have "c \<in> reader_cpus n s" using that assms(2) by (simp add: reader_cpus_def)
    then have "0 < card (reader_cpus n s)" using card_gt_0_iff finite_reader_cpus by blast
    then show ?thesis using D(3) rn assms(3) by (simp add: width_simps)
  qed
  show "u32 (lock_readers s + 1) = lock_readers s + 1" if "\<not> counted (pcs s c)"
  proof -
    have "card (insert c (reader_cpus n s)) \<le> card {..<n}"
      by (rule card_mono) (use assms(2) in \<open>auto simp: reader_cpus_def\<close>)
    then have "lock_readers s + 1 \<le> n" using that D(3) by (simp add: reader_cpus_def)
    then show ?thesis using assms(3) by (simp add: width_simps)
  qed
qed

lemma lock_inv_acquire_step:
  assumes inv: "lock_inv n s" and c: "c < n" and ex: "lock_acquire_step chk c s = Some s'"
    and und: "lock_word s' \<noteq> lock_word s \<Longrightarrow> \<forall>d. d \<noteq> c \<longrightarrow> \<not> register_pc (pcs s d)"
  shows "lock_inv n s'"
proof -
  note D = lock_invD [OF inv]
  have w01: "lock_word s = 0 \<or> lock_word s = 1" using D(2) by simp
  note loc = lock_inv_local [OF inv c]
  show ?thesis
  proof (cases "pcs s c")
    case (Load_old m)
    then show ?thesis using ex
      by (intro loc [where pc = "Load_edx m (lock_word s)"]) (auto simp: lock_acquire_step_def)
  next
    case (Load_edx m old)
    then show ?thesis using ex D(5) [of c]
      by (intro loc [where pc = "Cmpxchg m old (lock_word s)"]) (auto simp: lock_acquire_step_def)
  next
    case (Cmpxchg m old edx)
    then show ?thesis using ex D(5) [of c]
      by (intro loc [where pc = "Store_edx m old (cmpxchg_register 0 1 edx)"])
         (auto simp: lock_acquire_step_def cmpxchg_register_def)
  next
    case (Store_edx m old edx)
    then have s': "s' = goto c (Test_old m old) (set_word edx s)" using ex by (simp add: lock_acquire_step_def)
    show ?thesis
      by (rule lock_inv_goto [OF inv c, where pc = "Test_old m old"])
         (use Store_edx D(5) [of c] w01 und in \<open>auto simp: s'\<close>)
  next
    case (Test_old m old)
    show ?thesis
    proof (cases "old = 0")
      case True
      then show ?thesis using ex Test_old
        by (intro loc [where pc = "Set_owner m"]) (auto simp: lock_acquire_step_def)
    next
      case False
      then have "s' = goto c (Load_old m) s" using ex Test_old by (simp add: lock_acquire_step_def split: if_splits)
      then show ?thesis using False Test_old by (intro loc [where pc = "Load_old m"]) auto
    qed
  next
    case (Set_owner m)
    then show ?thesis using ex
      by (intro loc [where pc = "case m of Plain \<Rightarrow> Critical | Read \<Rightarrow> Inc_readers | Write \<Rightarrow> Wait_readers"])
         (auto simp: lock_acquire_step_def split: lock_mode.splits)
  qed (use ex in \<open>simp_all add: lock_acquire_step_def\<close>)
qed

lemma lock_inv_release_step:
  assumes inv: "lock_inv n s" and c: "c < n" and ex: "lock_release_step c s = Some s'"
    and und: "lock_word s' \<noteq> lock_word s \<Longrightarrow> \<forall>d. d \<noteq> c \<longrightarrow> \<not> register_pc (pcs s d)"
  shows "lock_inv n s'"
proof -
  note loc = lock_inv_local [OF inv c]
  show ?thesis
  proof (cases "pcs s c")
    case Clear_owner
    then show ?thesis using ex
      by (intro loc [where pc = Clear_word]) (auto simp: lock_release_step_def)
  next
    case Read_clear_owner
    then show ?thesis using ex
      by (intro loc [where pc = Read_clear_word]) (auto simp: lock_release_step_def)
  next
    case Clear_word
    then have s': "s' = goto c Outside (set_word 0 s)" using ex by (simp add: lock_release_step_def)
    show ?thesis
      by (rule lock_inv_goto [OF inv c, where pc = Outside]) (use Clear_word und in \<open>auto simp: s'\<close>)
  next
    case Read_clear_word
    then have s': "s' = goto c Reading (set_word 0 s)" using ex by (simp add: lock_release_step_def)
    show ?thesis
      by (rule lock_inv_goto [OF inv c, where pc = Reading]) (use Read_clear_word und in \<open>auto simp: s'\<close>)
  qed (use ex in \<open>simp_all add: lock_release_step_def\<close>)
qed

lemma lock_inv_readers_step:
  assumes inv: "lock_inv n s" and n: "n < 2 ^ 32" and c: "c < n"
  shows "lock_acquire_readlock_step c s = Some s' \<Longrightarrow> lock_inv n s'"
    and "lock_acquire_writelock_step c s = Some s' \<Longrightarrow> lock_inv n s'"
    and "lock_release_call c s = Some s' \<Longrightarrow> lock_inv n s'"
proof -
  note D = lock_invD [OF inv] and rd = lock_inv_readers [OF inv c n] and loc = lock_inv_local [OF inv c]
  show "lock_inv n s'" if "lock_acquire_readlock_step c s = Some s'"
  proof (cases "pcs s c")
    case Inc_readers
    then have "s' = goto c Read_clear_owner (set_readers (lock_readers s + 1) s)"
      using that rd(2) by (simp add: lock_acquire_readlock_step_def hw_interlocked_increment_def)
    then show ?thesis
      by (intro lock_inv_goto [OF inv c, where pc = Read_clear_owner]) (use Inc_readers in auto)
  qed (use that in \<open>simp_all add: lock_acquire_readlock_step_def\<close>)
  show "lock_inv n s'" if "lock_acquire_writelock_step c s = Some s'"
  proof (cases "pcs s c = Wait_readers \<and> lock_readers s = 0")
    case True
    then have "s' = goto c Writing s" using that by (simp add: lock_acquire_writelock_step_def)
    then show ?thesis
      by (intro lock_inv_goto [OF inv c, where pc = Writing]) (use True D(3) in auto)
  next
    case False
    then have "s' = s" using that by (simp add: lock_acquire_writelock_step_def split: lock_pc.splits if_splits)
    then show ?thesis using inv by simp
  qed
  show "lock_inv n s'" if "lock_release_call c s = Some s'"
  proof (cases "pcs s c")
    case Critical
    then show ?thesis using that by (intro loc [where pc = Clear_owner]) (auto simp: lock_release_call_def)
  next
    case Writing
    then show ?thesis using that by (intro loc [where pc = Clear_owner]) (auto simp: lock_release_call_def)
  next
    case Reading
    then have "s' = goto c Outside (set_readers (lock_readers s - 1) s)"
      using that rd(1) by (simp add: lock_release_call_def hw_interlocked_decrement_def)
    then show ?thesis
      by (intro lock_inv_goto [OF inv c, where pc = Outside]) (use Reading in auto)
  qed (use that in \<open>simp_all add: lock_release_call_def\<close>)
qed

lemma lock_inv_exec:
  assumes inv: "lock_inv n s" and n: "n < 2 ^ 32" and c: "action_cpu a < n"
    and ex: "lock_exec chk a s = Some s'" and und: "undisturbed a s s'"
  shows "lock_inv n s'"
proof (cases a)
  case (Call m d)
  then have "pcs s d = Outside" "s' = goto d (Load_old m) s" using ex by (simp_all split: if_splits)
  then show ?thesis
    using c Call by (intro lock_inv_local [OF inv, of d _ "Load_old m"]) auto
next
  case (Release d)
  then show ?thesis using ex c lock_inv_readers_step(3) [OF inv n] by simp
next
  case (Step d)
  then have u: "lock_word s' \<noteq> lock_word s \<Longrightarrow> \<forall>e. e \<noteq> d \<longrightarrow> \<not> register_pc (pcs s e)" and d: "d < n"
    using und c by (auto simp: undisturbed_def)
  show ?thesis
    using ex Step lock_inv_acquire_step [OF inv d _ u] lock_inv_release_step [OF inv d _ u]
      lock_inv_readers_step(1,2) [OF inv n d]
    by (simp split: lock_pc.splits)
qed

lemma lock_quiet_inv:
  assumes "lock_quiet n chk s" "n < 2 ^ 32"
  shows "lock_inv n s"
  using assms by (induction rule: lock_quiet.induct) (auto intro: lock_inv_start lock_inv_exec)

section \<open>Progress\<close>

lemma lock_potential_goto:
  assumes "c < n" "pcs s' = (pcs s)(c := pc)"
  shows "lock_potential n s' + lock_rank (pcs s c) = lock_potential n s + lock_rank pc"
proof -
  have "lock_potential n s = lock_rank (pcs s c) + (\<Sum>d\<in>{..<n} - {c}. lock_rank (pcs s d))"
    unfolding lock_potential_def by (rule sum.remove) (use assms in auto)
  moreover have "lock_potential n s' = lock_rank pc + (\<Sum>d\<in>{..<n} - {c}. lock_rank (pcs s' d))"
    unfolding lock_potential_def using assms by (subst sum.remove [of _ c]) auto
  moreover have "(\<Sum>d\<in>{..<n} - {c}. lock_rank (pcs s' d)) = (\<Sum>d\<in>{..<n} - {c}. lock_rank (pcs s d))"
    by (rule sum.cong) (use assms in auto)
  ultimately show ?thesis by simp
qed

text \<open>
  As long as somebody is in an exchange, holds the lock or reads, somebody can make a step towards giving
  it up: exchanges are finished first.
\<close>

lemma lock_exchange_step:
  assumes "register_pc (pcs s d)"
  shows "\<exists>s' pc. lock_exec chk (Step d) s = Some s' \<and> pcs s' = (pcs s)(d := pc) \<and>
    lock_rank pc < lock_rank (pcs s d) \<and> (register_pc pc \<longrightarrow> lock_word s' = lock_word s)"
  using assms by (cases "pcs s d") (auto simp: lock_acquire_step_def)

lemma lock_holder_step:
  assumes inv: "lock_inv n s" and d: "d < n" and h: "holds (pcs s d)" and nr: "\<forall>e < n. pcs s e \<noteq> Reading"
  shows "\<exists>a s' pc. action_cpu a = d \<and> lock_exec chk a s = Some s' \<and> pcs s' = (pcs s)(d := pc) \<and>
    lock_rank pc < lock_rank (pcs s d) \<and> \<not> register_pc pc"
proof -
  note D = lock_invD [OF inv]
  note step = lock_acquire_step_def lock_release_step_def lock_acquire_readlock_step_def
    lock_acquire_writelock_step_def lock_release_call_def
  have go: ?thesis if "lock_exec chk a s = Some s'" "action_cpu a = d" "pcs s' = (pcs s)(d := pc)"
      "lock_rank pc < lock_rank (pcs s d)" "\<not> register_pc pc" for a s' pc
    using that by blast
  show ?thesis
  proof (cases "pcs s d")
    case Wait_readers
    have "\<not> counted (pcs s e)" if "e < n" for e
    proof
      assume e: "counted (pcs s e)"
      then have "holds (pcs s e)" using nr that by (auto simp: counted_def)
      then have "e = d" using D(1) h by blast
      then show False using e Wait_readers by simp
    qed
    then have "lock_readers s = 0" using D(3) by (simp add: reader_cpus_def)
    then show ?thesis
      using Wait_readers by (intro go [where a = "Step d" and pc = Writing]) (auto simp: step)
  next
    case (Test_old m old)
    then show ?thesis using h
      by (intro go [where a = "Step d" and pc = "Set_owner m"]) (auto simp: step)
  next
    case (Set_owner m)
    then show ?thesis
      by (intro go [where a = "Step d" and pc = "case m of Plain \<Rightarrow> Critical | Read \<Rightarrow> Inc_readers | Write \<Rightarrow> Wait_readers"])
         (auto simp: step split: lock_mode.splits)
  next
    case Inc_readers
    then show ?thesis by (intro go [where a = "Step d" and pc = Read_clear_owner]) (auto simp: step)
  next
    case Read_clear_owner
    then show ?thesis by (intro go [where a = "Step d" and pc = Read_clear_word]) (auto simp: step)
  next
    case Read_clear_word
    then show ?thesis by (intro go [where a = "Step d" and pc = Reading]) (auto simp: step)
  next
    case Clear_owner
    then show ?thesis by (intro go [where a = "Step d" and pc = Clear_word]) (auto simp: step)
  next
    case Clear_word
    then show ?thesis by (intro go [where a = "Step d" and pc = Outside]) (auto simp: step)
  next
    case Critical
    then show ?thesis by (intro go [where a = "Release d" and pc = Clear_owner]) (auto simp: step)
  next
    case Writing
    then show ?thesis by (intro go [where a = "Release d" and pc = Clear_owner]) (auto simp: step)
  qed (use h in auto)
qed

lemma lock_drain_step:
  assumes inv: "lock_inv n s" and race: "\<not> exchange_race s" and pos: "0 < lock_potential n s"
  shows "\<exists>a s'. action_cpu a < n \<and> lock_exec chk a s = Some s' \<and> undisturbed a s s' \<and> \<not> exchange_race s' \<and>
    lock_potential n s' < lock_potential n s \<and> (\<forall>d. lock_rank (pcs s d) = 0 \<longrightarrow> pcs s' d = pcs s d)"
proof -
  note D = lock_invD [OF inv]
  have go: ?thesis if "lock_exec chk a s = Some s'" "action_cpu a = d" "d < n" "undisturbed a s s'" "\<not> exchange_race s'"
    "pcs s' = (pcs s)(d := pc)" "lock_rank pc < lock_rank (pcs s d)" for d a s' pc
    using that lock_potential_goto [OF that(3,6)]
    by (intro exI [of _ a] exI [of _ s']) auto
  show ?thesis
  proof (cases "\<exists>d. register_pc (pcs s d)")
    case True
    then obtain d where d: "register_pc (pcs s d)" by blast
    then have "d < n" using D(6) [of d] by (cases "d < n") auto
    obtain s' pc where s': "lock_exec chk (Step d) s = Some s'" "pcs s' = (pcs s)(d := pc)"
      "lock_rank pc < lock_rank (pcs s d)" "register_pc pc \<longrightarrow> lock_word s' = lock_word s"
      using lock_exchange_step [OF d, of chk] by blast
    have w: "lock_word s' = lock_word s \<or> lock_word s = 0 \<and> lock_word s' = 1"
      using s'(1) d D(2) D(5) [of d]
      by (cases "pcs s d") (auto simp: lock_acquire_step_def split: if_splits)
    have "undisturbed (Step d) s s'"
      using w race d by (auto simp: undisturbed_def exchange_race_def)
    moreover have "\<not> exchange_race s'"
      using w race d s'(2,4) by (auto simp: exchange_race_def split: if_splits)
    ultimately show ?thesis using go [OF s'(1) _ \<open>d < n\<close>] s' by simp
  next
    case none: False
    have ok: "undisturbed a s s'" "pcs s' = (pcs s)(d := pc) \<Longrightarrow> \<not> register_pc pc \<Longrightarrow> \<not> exchange_race s'" for a s' d pc
      using none by (auto simp: undisturbed_def exchange_race_def split: if_splits)
    show ?thesis
    proof (cases "\<exists>d < n. pcs s d = Reading")
      case True
      then obtain d where "d < n" "pcs s d = Reading" by blast
      then show ?thesis
        by (intro go [where a = "Release d" and pc = Outside] ok(1) ok(2) [where pc = Outside and d = d])
           (auto simp: lock_release_call_def)
    next
      case False
      from pos obtain d where d: "d < n" "0 < lock_rank (pcs s d)"
        unfolding lock_potential_def by (metis lessThan_iff neq0_conv sum.neutral)
      have "\<not> register_pc (pcs s d)" using none by blast
      then have "holds (pcs s d)" using d False by (cases "pcs s d") (auto split: if_splits)
      then obtain a s' pc where "action_cpu a = d" "lock_exec chk a s = Some s'" "pcs s' = (pcs s)(d := pc)"
        "lock_rank pc < lock_rank (pcs s d)" "\<not> register_pc pc"
        using lock_holder_step [OF inv d(1), of chk] False by blast
      then show ?thesis using go [of a s' d pc] ok d(1) by blast
    qed
  qed
qed

lemma lock_run_append:
  "lock_run chk (as @ bs) s = Option.bind (lock_run chk as s) (lock_run chk bs)"
proof (induction as arbitrary: s)
  case (Cons a as)
  then show ?case by (cases "lock_exec chk a s") simp_all
qed simp

lemma quiet_run_run: "quiet_run n chk s as s' \<Longrightarrow> lock_run chk as s = Some s'"
  by (induction rule: quiet_run.induct) simp_all

lemma quiet_run_quiet: "quiet_run n chk s as s' \<Longrightarrow> lock_quiet n chk s \<Longrightarrow> lock_quiet n chk s'"
  by (induction rule: quiet_run.induct) (auto intro: lock_quiet.step)

lemma quiet_run_append:
  "quiet_run n chk s as s1 \<Longrightarrow> quiet_run n chk s1 bs s' \<Longrightarrow> quiet_run n chk s (as @ bs) s'"
  by (induction rule: quiet_run.induct) (auto intro: quiet_run.intros)

lemma lock_drain:
  assumes "lock_inv n s" "n < 2 ^ 32" "\<not> exchange_race s"
  shows "\<exists>as s'. quiet_run n chk s as s' \<and> lock_inv n s' \<and> lock_potential n s' = 0 \<and>
    (\<forall>d. lock_rank (pcs s d) = 0 \<longrightarrow> pcs s' d = pcs s d)"
  using assms
proof (induction "lock_potential n s" arbitrary: s rule: less_induct)
  case less
  show ?case
  proof (cases "lock_potential n s = 0")
    case True
    then show ?thesis using less.prems by (intro exI [of _ "[]"]) (auto intro: quiet_run.none)
  next
    case False
    then obtain a s1 where a: "action_cpu a < n" "lock_exec chk a s = Some s1" "undisturbed a s s1" "\<not> exchange_race s1"
      "lock_potential n s1 < lock_potential n s" "\<forall>d. lock_rank (pcs s d) = 0 \<longrightarrow> pcs s1 d = pcs s d"
      using lock_drain_step [OF less.prems(1,3), of chk] by auto
    obtain as s' where as: "quiet_run n chk s1 as s'" "lock_inv n s'" "lock_potential n s' = 0"
      "\<forall>d. lock_rank (pcs s1 d) = 0 \<longrightarrow> pcs s' d = pcs s1 d"
      using less.hyps [OF a(5) lock_inv_exec [OF less.prems(1,2) a(1-3)] less.prems(2) a(4)] by blast
    show ?thesis
      by (rule exI [of _ "a # as"], rule exI [of _ s']) (use a as in \<open>auto intro: quiet_run.more\<close>)
  qed
qed

text \<open>Alone, a CPU takes a free lock.\<close>

lemma lock_solo_acquire:
  assumes "pcs s c = Load_old m" "lock_word s = 0"
  shows "\<exists>s'. lock_run chk (replicate 6 (Step c)) s = Some s' \<and>
    pcs s' = (pcs s)(c := case m of Plain \<Rightarrow> Critical | Read \<Rightarrow> Inc_readers | Write \<Rightarrow> Wait_readers) \<and>
    lock_word s' = 1 \<and> lock_owner s' = c \<and> lock_readers s' = lock_readers s"
  using assms
  by (cases m) (simp_all add: numeral_eq_Suc lock_acquire_step_def cmpxchg_register_def)

lemma lock_free_enter:
  assumes "pcs s c = Load_old m" "lock_word s = 0" "lock_readers s = 0"
  shows "\<exists>k s'. lock_run chk (replicate k (Step c)) s = Some s' \<and>
    pcs s' c = (case m of Plain \<Rightarrow> Critical | Read \<Rightarrow> Reading | Write \<Rightarrow> Writing)"
proof -
  obtain s1 where s1: "lock_run chk (replicate 6 (Step c)) s = Some s1"
    "pcs s1 = (pcs s)(c := case m of Plain \<Rightarrow> Critical | Read \<Rightarrow> Inc_readers | Write \<Rightarrow> Wait_readers)"
    "lock_readers s1 = lock_readers s"
    using lock_solo_acquire [OF assms(1,2), of chk] by blast
  have "\<exists>j s'. lock_run chk (replicate j (Step c)) s1 = Some s' \<and>
    pcs s' c = (case m of Plain \<Rightarrow> Critical | Read \<Rightarrow> Reading | Write \<Rightarrow> Writing)"
  proof (cases m)
    case Plain
    then show ?thesis using s1(2) by (intro exI [of _ 0]) simp
  next
    case Read
    then show ?thesis using s1(2)
      by (intro exI [of _ 3])
         (simp add: numeral_eq_Suc lock_acquire_readlock_step_def lock_release_step_def)
  next
    case Write
    then show ?thesis using s1(2,3) assms(3)
      by (intro exI [of _ 1]) (simp add: lock_acquire_writelock_step_def)
  qed
  then obtain j s' where "lock_run chk (replicate j (Step c)) s1 = Some s'"
    "pcs s' c = (case m of Plain \<Rightarrow> Critical | Read \<Rightarrow> Reading | Write \<Rightarrow> Writing)" by blast
  then show ?thesis using s1(1)
    by (intro exI [of _ "6 + j"] exI [of _ s'])
       (simp add: replicate_add lock_run_append)
qed

text \<open>While only one CPU runs and no other is in an exchange, nothing is disturbed.\<close>

lemma lock_exec_others: "lock_exec chk a s = Some s' \<Longrightarrow> d \<noteq> action_cpu a \<Longrightarrow> pcs s' d = pcs s d"
  by (cases a; cases "pcs s (action_cpu a)")
     (auto simp: lock_release_call_def lock_acquire_step_def lock_release_step_def
       lock_acquire_readlock_step_def lock_acquire_writelock_step_def split: if_splits)

lemma lock_solo_quiet:
  assumes "lock_run chk (replicate k (Step c)) s = Some s'" "c < n" "\<forall>d. d \<noteq> c \<longrightarrow> \<not> register_pc (pcs s d)"
  shows "quiet_run n chk s (replicate k (Step c)) s'"
  using assms
proof (induction k arbitrary: s)
  case (Suc k)
  then obtain s1 where s1: "lock_exec chk (Step c) s = Some s1" "lock_run chk (replicate k (Step c)) s1 = Some s'"
    by (auto simp: bind_eq_Some_conv)
  moreover have "\<forall>d. d \<noteq> c \<longrightarrow> \<not> register_pc (pcs s1 d)"
    using Suc.prems(3) lock_exec_others [OF s1(1)] by simp
  ultimately show ?case
    using Suc by (auto simp: undisturbed_def intro!: quiet_run.more)
qed (simp add: quiet_run.none)

section \<open>The register exchange\<close>

lemma no_owner_neq: "no_owner \<noteq> Suc 0" "Suc 0 \<noteq> no_owner" "no_owner \<noteq> 0"
  by (simp_all add: no_owner_def)

lemma lock_lost_exec:
  assumes "lock_lost s" "lock_exec chk a s = Some s'"
  shows "lock_lost s'"
proof -
  have w: "lock_word s = 1" and st: "\<And>c. stale (pcs s c)"
    using assms(1) unfolding lock_lost_def by blast+
  let ?c = "action_cpu a"
  have "stale (pcs s' ?c) \<and> lock_word s' = 1 \<and> (\<forall>d. d \<noteq> ?c \<longrightarrow> pcs s' d = pcs s d)"
    using assms(2) w st [of ?c]
    by (cases a; cases "pcs s ?c")
       (auto simp: lock_release_call_def lock_acquire_step_def cmpxchg_register_def split: if_splits)
  then show ?thesis using st unfolding lock_lost_def by metis
qed

lemma lock_lost_run:
  assumes "lock_lost s" "lock_run chk as s = Some s'"
  shows "\<not> holds (pcs s' c)"
proof -
  have "lock_lost s'"
    using assms by (induction as arbitrary: s) (auto simp: bind_eq_Some_conv intro: lock_lost_exec)
  then have "stale (pcs s' c)" unfolding lock_lost_def by blast
  then show ?thesis by (cases "pcs s' c") auto
qed

lemma lock_run_reach:
  assumes "lock_reach n chk s" "lock_run chk as s = Some s'" "\<forall>a \<in> set as. action_cpu a < n"
  shows "lock_reach n chk s'"
  using assms by (induction as arbitrary: s) (auto simp: bind_eq_Some_conv intro: lock_reach.step)


lemma lock_solo_spins:
  assumes "stale (pcs s c)" "pcs s c \<noteq> Reading" "lock_word s = 1"
    "lock_run chk (replicate k (Step c)) s = Some s'"
  shows "\<not> holds (pcs s' c) \<and> lock_word s' = 1"
  using assms
proof (induction k arbitrary: s)
  case 0
  then show ?case by (cases "pcs s c") auto
next
  case (Suc k)
  obtain s1 where s1: "lock_exec chk (Step c) s = Some s1"
    "lock_run chk (replicate k (Step c)) s1 = Some s'"
    using Suc.prems(4) by (auto simp: bind_eq_Some_conv)
  have "stale (pcs s1 c) \<and> pcs s1 c \<noteq> Reading \<and> lock_word s1 = 1"
    using s1(1) Suc.prems(1-3)
    by (cases "pcs s c")
       (auto simp: lock_acquire_step_def hw_interlocked_compare_exchange_def cmpxchg_register_def
         split: if_splits)
  then show ?case using Suc.IH [of s1] s1(2) by blast
qed

text \<open>The boolean lock of \<^const>\<open>lock_acquire\<close> and \<^const>\<open>lock_release\<close> is the lock word.\<close>

lemma lock_acquire_word:
  assumes "uint32_lock l \<le> 1"
  shows "lock_acquire (uint32_lock l = 1) = None \<longleftrightarrow> vmm_lock_acquire c (Some l) = None"
    and "vmm_lock_acquire c (Some l) = Some (Some l') \<Longrightarrow>
      lock_acquire (uint32_lock l = 1) = Some (uint32_lock l' = 1)"
    and "vmm_lock_release (Some l) = Some l' \<Longrightarrow> lock_release taken = (uint32_lock l' = 1)"
  using assms
  by (auto simp: lock_acquire_def lock_release_def vmm_lock_acquire_def vmm_lock_release_def
      lock_try_acquire_def hw_interlocked_compare_exchange_def cmpxchg_register_def Let_def
      split: if_splits)

section \<open>Properties\<close>

text \<open>
  C18. In runs in which no CPU changes the lock word while another is between the loads and the store of its
  exchange, the locks exclude: in every state that any number of CPUs can reach so, at most one CPU holds
  the spin lock (and so at most one is in a critical section or writes), no CPU reads while another writes, and
  \<open>readers\<close> is the number of CPUs that have a read lock.  C20 and C21 show that the condition cannot be dropped.
\<close>

theorem lock_mutual_exclusion:
  assumes "lock_quiet n chk s" "n < 2 ^ 32"
  shows "(holds (pcs s c) \<and> holds (pcs s d) \<longrightarrow> c = d) \<and>
    (pcs s c = Writing \<longrightarrow> pcs s d \<noteq> Reading) \<and> lock_readers s = card (reader_cpus n s)"
proof -
  note D = lock_invD [OF lock_quiet_inv [OF assms]]
  have "d < n" if "pcs s d = Reading" using D(6) [of d] that by (cases "d < n") auto
  then have "pcs s d \<noteq> Reading" if "pcs s c = Writing"
    using D(4) [OF that] by (auto simp: reader_cpus_def)
  then show ?thesis using D(1,3) by blast
qed

theorem lock_mutual_exclusion_witness:
  "\<exists>s. lock_quiet 2 True s \<and> pcs s 1 = Writing \<and> pcs s 0 \<noteq> Reading \<and> lock_readers s = 0"
proof -
  let ?s = "goto 1 (Load_old Write) lock_start"
  have q: "lock_quiet 2 True ?s"
    by (rule lock_quiet.step [OF lock_quiet.start, of "Call Write 1"])
       (simp_all add: lock_start_def undisturbed_def)
  obtain k s where s: "lock_run True (replicate k (Step 1)) ?s = Some s" "pcs s 1 = Writing"
    using lock_free_enter [of ?s 1 Write True] by (auto simp: lock_start_def)
  have r: "lock_quiet 2 True s"
    by (rule quiet_run_quiet [OF lock_solo_quiet [OF s(1)] q]) (simp_all add: lock_start_def)
  have "reader_cpus 2 s = {}" using lock_invD(4) [OF lock_quiet_inv [OF r] s(2)] by simp
  then show ?thesis using lock_mutual_exclusion [OF r, of 1 0] r s(2) by auto
qed

text \<open>
  C19. In such runs no CPU is shut out: from every state they reach in which a CPU waits for the lock, in any
  mode, there is a way on, again without disturbing an exchange, in which that CPU gets what it asked
  for, unless two CPUs are already in their exchanges while the lock is free.
\<close>

theorem lock_progress:
  assumes "lock_quiet n chk s" "n < 2 ^ 32" "c < n" "pcs s c = Load_old m" "\<not> exchange_race s"
  shows "\<exists>as s'. lock_run chk as s = Some s' \<and> lock_quiet n chk s' \<and>
    pcs s' c = (case m of Plain \<Rightarrow> Critical | Read \<Rightarrow> Reading | Write \<Rightarrow> Writing)"
proof -
  obtain as s1 where as: "quiet_run n chk s as s1" "lock_inv n s1" "lock_potential n s1 = 0"
    "\<forall>d. lock_rank (pcs s d) = 0 \<longrightarrow> pcs s1 d = pcs s d"
    using lock_drain [OF lock_quiet_inv [OF assms(1,2)] assms(2,5), of chk] by blast
  note D = lock_invD [OF as(2)]
  have zero: "lock_rank (pcs s1 d) = 0" for d
    using as(3) D(6) [of d] unfolding lock_potential_def by (cases "d < n") auto
  have idle: "\<not> holds (pcs s1 d)" "\<not> counted (pcs s1 d)" "\<not> register_pc (pcs s1 d)" for d
    using zero [of d] by (cases "pcs s1 d"; auto simp: counted_def split: if_splits)+
  then have free: "lock_word s1 = 0" "lock_readers s1 = 0" using D(2,3) by (simp_all add: reader_cpus_def)
  have "pcs s1 c = Load_old m" using as(4) assms(4) by simp
  then obtain k s' where k: "lock_run chk (replicate k (Step c)) s1 = Some s'"
    "pcs s' c = (case m of Plain \<Rightarrow> Critical | Read \<Rightarrow> Reading | Write \<Rightarrow> Writing)"
    using lock_free_enter [OF _ free] by blast
  have "quiet_run n chk s (as @ replicate k (Step c)) s'"
    by (rule quiet_run_append [OF as(1) lock_solo_quiet [OF k(1) assms(3)]]) (use idle in simp)
  then show ?thesis using quiet_run_run quiet_run_quiet [OF _ assms(1)] k(2) by blast
qed

theorem lock_progress_witness:
  "\<exists>s as s'. lock_run True as s = Some s' \<and> pcs s 1 = Load_old Write \<and> pcs s' 1 = Writing"
proof -
  have "lock_quiet 2 True (goto 1 (Load_old Write) lock_start)"
    by (rule lock_quiet.step [OF lock_quiet.start, of "Call Write 1"])
       (simp_all add: lock_start_def undisturbed_def)
  moreover have "\<not> exchange_race (goto 1 (Load_old Write) lock_start)"
    by (auto simp: exchange_race_def lock_start_def split: if_splits)
  ultimately show ?thesis using lock_progress [of 2 True _ 1 Write] by fastforce
qed

text \<open>
  C20. The exchange of the code is not atomic: \<open>hw_interlocked_compare_exchange\<close> loads the word
  twice and compares registers, so two CPUs that both load 0 before either stores both find the
  lock free.  Two CPUs reach their critical sections together, in either build.
\<close>

theorem lock_exchange_race:
  "\<exists>s. lock_reach 2 chk s \<and> pcs s 0 = Critical \<and> pcs s 1 = Critical"
proof -
  let ?as = "[Call Plain 0, Call Plain 1, Step 0, Step 1] @ replicate 5 (Step 0) @ replicate 5 (Step 1)"
  have "\<exists>s. lock_run chk ?as lock_start = Some s \<and> pcs s 0 = Critical \<and> pcs s 1 = Critical"
    by (simp add: lock_start_def numeral_eq_Suc goto_def set_word_def set_owner_def
        lock_acquire_step_def cmpxchg_register_def)
  then obtain s where s: "lock_run chk ?as lock_start = Some s" "pcs s 0 = Critical" "pcs s 1 = Critical"
    by blast
  have "lock_reach 2 chk s"
    by (rule lock_run_reach [OF lock_reach.start s(1)]) auto
  then show ?thesis using s by blast
qed

text \<open>
  C21. The exchange of the code also stores when the comparison fails.  A CPU that spins can so
  write the old value back over the store of \<open>lock_release\<close>: there is a reachable state in which
  no CPU holds the lock, one waits for it, and no continuation whatever lets any CPU have it.
\<close>

theorem lock_release_lost:
  "\<exists>s. lock_reach 2 chk s \<and> (\<forall>c. \<not> holds (pcs s c)) \<and> pcs s 1 = Load_old Plain \<and>
     (\<forall>as s' c. lock_run chk as s = Some s' \<longrightarrow> \<not> holds (pcs s' c))"
proof -
  let ?as = "Call Plain 0 # replicate 6 (Step 0) @ Call Plain 1 # replicate 3 (Step 1) @
    [Release 0, Step 0, Step 0, Step 1, Step 1]"
  have "\<exists>s. lock_run chk ?as lock_start = Some s \<and> lock_lost s \<and> pcs s 1 = Load_old Plain"
    by (simp add: lock_start_def numeral_eq_Suc goto_def set_word_def set_owner_def no_owner_neq
        lock_acquire_step_def lock_release_step_def lock_release_call_def cmpxchg_register_def lock_lost_def)
  then obtain s where s: "lock_run chk ?as lock_start = Some s" "lock_lost s" "pcs s 1 = Load_old Plain"
    by blast
  have "lock_reach 2 chk s"
    by (rule lock_run_reach [OF lock_reach.start s(1)]) auto
  moreover have "\<not> holds (pcs s c)" for c using lock_lost_run [OF s(2), of chk "[]"] by simp
  ultimately show ?thesis using s lock_lost_run [OF s(2)] by blast
qed

theorem lock_release_lost_witness:
  "\<exists>s. lock_reach 2 True s \<and>
     \<not> (\<exists>k s'. lock_run True (replicate k (Step 1)) s = Some s' \<and> pcs s' 1 = Critical)"
proof -
  obtain s where s: "lock_reach 2 True s"
    "\<forall>as s' c. lock_run True as s = Some s' \<longrightarrow> \<not> holds (pcs s' c)"
    using lock_release_lost [of True] by (elim exE conjE) (rule that)
  have "pcs s' 1 \<noteq> Critical" if "lock_run True (replicate k (Step 1)) s = Some s'" for k s'
    using s(2) [rule_format, OF that, of 1] by auto
  then show ?thesis using s(1) by blast
qed

text \<open>
  C22. As long as no other CPU runs, the instructions of the code do what \<open>lock_acquire\<close> means: a CPU
  takes a free lock in six steps, leaving the lock as the undisturbed \<open>vmm_lock_acquire\<close> does, and
  spins on a taken one without changing the word.
\<close>

theorem lock_solo_correct:
  assumes "pcs s c = Load_old Plain"
  shows "(lock_word s = 0 \<longrightarrow> (\<exists>s'. lock_run chk (replicate 6 (Step c)) s = Some s' \<and> pcs s' c = Critical \<and>
        vmm_lock_acquire c (Some (rw_lock (the_lock s))) = Some (Some (rw_lock (the_lock s'))))) \<and>
    (lock_word s = 1 \<longrightarrow> vmm_lock_acquire c (Some (rw_lock (the_lock s))) = None \<and>
        (\<forall>k s'. lock_run chk (replicate k (Step c)) s = Some s' \<longrightarrow>
           \<not> holds (pcs s' c) \<and> lock_word s' = 1))"
proof -
  have free: "\<exists>s'. lock_run chk (replicate 6 (Step c)) s = Some s' \<and> pcs s' c = Critical \<and>
        vmm_lock_acquire c (Some (rw_lock (the_lock s))) = Some (Some (rw_lock (the_lock s')))"
    if w: "lock_word s = 0"
  proof -
    obtain s' where s': "lock_run chk (replicate 6 (Step c)) s = Some s'"
      "pcs s' = (pcs s)(c := Critical)" "lock_word s' = 1" "lock_owner s' = c"
      using lock_solo_acquire [OF assms w, of chk] unfolding lock_mode.case
      by (elim exE conjE) (rule that)
    have "rw_lock (the_lock s') = \<lparr> uint32_lock = 1, owner_cpu_id = c \<rparr>"
      using s'(3,4) by (cases "rw_lock (the_lock s')") simp
    moreover obtain ow where "rw_lock (the_lock s) = \<lparr> uint32_lock = 0, owner_cpu_id = ow \<rparr>"
      using w by (cases "rw_lock (the_lock s)") simp
    ultimately have "vmm_lock_acquire c (Some (rw_lock (the_lock s))) = Some (Some (rw_lock (the_lock s')))"
      by (simp add: vmm_lock_acquire_def lock_try_acquire_def hw_interlocked_compare_exchange_def
          cmpxchg_register_def)
    moreover have "pcs s' c = Critical" using s'(2) by simp
    ultimately show ?thesis using s'(1) by blast
  qed
  have taken: "vmm_lock_acquire c (Some (rw_lock (the_lock s))) = None" if "lock_word s = 1"
    using that lock_acquire_word(1) [of "rw_lock (the_lock s)" c] by (simp add: lock_acquire_def)
  have spins: "\<not> holds (pcs s' c) \<and> lock_word s' = 1"
    if "lock_word s = 1" "lock_run chk (replicate k (Step c)) s = Some s'" for k s'
    by (rule lock_solo_spins [OF _ _ that]) (use assms in simp_all)
  show ?thesis using free taken spins by blast
qed

theorem lock_solo_correct_witness:
  "\<exists>s'. lock_run True (replicate 6 (Step 3)) (goto 3 (Load_old Plain) lock_start) = Some s' \<and>
     pcs s' 3 = Critical"
proof -
  have "pcs (goto 3 (Load_old Plain) lock_start) 3 = Load_old Plain"
    and "lock_word (goto 3 (Load_old Plain) lock_start) = 0"
    by (simp_all add: lock_start_def)
  then show ?thesis using lock_solo_correct by blast
qed

end
