(* ===== verification/VmmMtrr.thy ===== *)
theory VmmMtrr
  imports VmmPrelude
begin

unbundle bit_operations_syntax

text \<open>
  The cached memory type range registers of \<^verbatim>\<open>vmm/arch/mtrrs_abstraction.c\<close>: their initialisation on
  the boot processor, the comparison on the other processors, the tracking of guest updates and
  the computation of the memory type of a physical address and of a range.

  Registers are 64-bit words and bit fields are extracted as the unions of the code lay them out.
  Reading a model specific register is the hardware's and is the parameter \<open>hw_read_msr\<close>; the
  physical address width of \<^verbatim>\<open>vmm/utils/address.c\<close> is the parameter \<open>phys_size\<close>.
  \<open>chk\<close> selects whether assertions and dead loops stop.
\<close>

section \<open>Registers\<close>

abbreviation MTRRS_ABS_NUM_OF_SUB_RANGES :: nat where "MTRRS_ABS_NUM_OF_SUB_RANGES \<equiv> 8"
abbreviation MTRRS_ABS_NUM_OF_FIXED_RANGE_MTRRS :: nat where "MTRRS_ABS_NUM_OF_FIXED_RANGE_MTRRS \<equiv> 11"
abbreviation MTRRS_ABS_NUM_OF_VAR_RANGE_MTRRS :: nat where "MTRRS_ABS_NUM_OF_VAR_RANGE_MTRRS \<equiv> 10"

abbreviation VMM_PHYS_MEM_UNCACHABLE :: nat where "VMM_PHYS_MEM_UNCACHABLE \<equiv> 0"
abbreviation VMM_PHYS_MEM_WRITE_COMBINING :: nat where "VMM_PHYS_MEM_WRITE_COMBINING \<equiv> 1"
abbreviation VMM_PHYS_MEM_WRITE_THROUGH :: nat where "VMM_PHYS_MEM_WRITE_THROUGH \<equiv> 4"
abbreviation VMM_PHYS_MEM_WRITE_PROTECTED :: nat where "VMM_PHYS_MEM_WRITE_PROTECTED \<equiv> 5"
abbreviation VMM_PHYS_MEM_WRITE_BACK :: nat where "VMM_PHYS_MEM_WRITE_BACK \<equiv> 6"
abbreviation VMM_PHYS_MEM_UNDEFINED :: nat where "VMM_PHYS_MEM_UNDEFINED \<equiv> 0xFFFFFFFF"

abbreviation IA32_MTRRCAP_ADDR :: nat where "IA32_MTRRCAP_ADDR \<equiv> 0xFE"
abbreviation IA32_MTRR_DEF_TYPE_ADDR :: nat where "IA32_MTRR_DEF_TYPE_ADDR \<equiv> 0x2FF"
abbreviation IA32_MTRR_PHYSBASE0_ADDR :: nat where "IA32_MTRR_PHYSBASE0_ADDR \<equiv> 0x200"
abbreviation IA32_MTRR_PHYSMASK0_ADDR :: nat where "IA32_MTRR_PHYSMASK0_ADDR \<equiv> 0x201"
abbreviation IA32_MTRR_PHYSBASE8_ADDR :: nat where "IA32_MTRR_PHYSBASE8_ADDR \<equiv> 0x210"
abbreviation IA32_MTRR_MAX_PHYSMASK_ADDR :: nat where "IA32_MTRR_MAX_PHYSMASK_ADDR \<equiv> 0x213"
abbreviation IA32_MTRR_FIX64K_00000_ADDR :: nat where "IA32_MTRR_FIX64K_00000_ADDR \<equiv> 0x250"
abbreviation IA32_MTRR_FIX4K_F8000_ADDR :: nat where "IA32_MTRR_FIX4K_F8000_ADDR \<equiv> 0x26F"

text \<open>The field of \<open>n\<close> bits at bit \<open>i\<close> of a register.\<close>

definition reg_field :: "nat \<Rightarrow> nat \<Rightarrow> 64 word \<Rightarrow> 64 word" where
  "reg_field i n w = take_bit n (drop_bit i w)"

record mtrrs_cached_info =
  ia32_mtrrcap_reg :: "64 word"
  ia32_mtrr_def_type :: "64 word"
  ia32_mtrr_fix :: "64 word list"
  ia32_mtrr_fix_range :: "(nat \<times> nat) list"
  ia32_mtrr_var_phys_base :: "64 word list"
  ia32_mtrr_var_phys_mask :: "64 word list"
  is_initialized :: bool
  mtrr_msbs :: "64 word"

definition mtrrs_abstraction_get_num_of_variable_range_regs :: "mtrrs_cached_info \<Rightarrow> nat" where
  "mtrrs_abstraction_get_num_of_variable_range_regs m = unat (reg_field 0 8 (ia32_mtrrcap_reg m))"

definition mtrrs_abstraction_are_fixed_regs_supported :: "mtrrs_cached_info \<Rightarrow> bool" where
  "mtrrs_abstraction_are_fixed_regs_supported m \<longleftrightarrow> reg_field 8 1 (ia32_mtrrcap_reg m) \<noteq> 0"

definition mtrrs_abstraction_are_mtrrs_enabled :: "mtrrs_cached_info \<Rightarrow> bool" where
  "mtrrs_abstraction_are_mtrrs_enabled m \<longleftrightarrow> reg_field 11 1 (ia32_mtrr_def_type m) \<noteq> 0"

definition mtrrs_abstraction_are_fixed_ranged_mtrrs_enabled :: "mtrrs_cached_info \<Rightarrow> bool" where
  "mtrrs_abstraction_are_fixed_ranged_mtrrs_enabled m \<longleftrightarrow> reg_field 10 1 (ia32_mtrr_def_type m) \<noteq> 0"

definition mtrrs_abstraction_get_default_memory_type :: "mtrrs_cached_info \<Rightarrow> nat" where
  "mtrrs_abstraction_get_default_memory_type m = unat (reg_field 0 8 (ia32_mtrr_def_type m))"

definition mtrrs_abstraction_is_var_reg_valid :: "mtrrs_cached_info \<Rightarrow> nat \<Rightarrow> bool" where
  "mtrrs_abstraction_is_var_reg_valid m index \<longleftrightarrow>
     reg_field 11 1 (ia32_mtrr_var_phys_mask m ! index) \<noteq> 0"

definition mtrrs_abstraction_get_address_from_reg :: "mtrrs_cached_info \<Rightarrow> nat \<Rightarrow> 64 word" where
  "mtrrs_abstraction_get_address_from_reg m reg_index =
     (let addr_base_low = push_bit 12 (reg_field 12 20 (ia32_mtrr_var_phys_base m ! reg_index));
          addr_base_high = reg_field 32 20 (ia32_mtrr_var_phys_base m ! reg_index)
      in push_bit 32 addr_base_high OR addr_base_low)"

definition mtrrs_abstraction_get_mask_from_reg :: "mtrrs_cached_info \<Rightarrow> nat \<Rightarrow> 64 word" where
  "mtrrs_abstraction_get_mask_from_reg m reg_index =
     (let addr_mask_low = push_bit 12 (reg_field 12 20 (ia32_mtrr_var_phys_mask m ! reg_index));
          addr_mask_high = reg_field 32 20 (ia32_mtrr_var_phys_mask m ! reg_index)
      in push_bit 32 addr_mask_high OR addr_mask_low)"

text \<open>The second component is the value that is left in \<^verbatim>\<open>remsize\<close> when the address is covered.\<close>

definition mtrrs_abstraction_is_addr_covered_by_var_reg ::
    "mtrrs_cached_info \<Rightarrow> 64 word \<Rightarrow> nat \<Rightarrow> bool \<times> 64 word" where
  "mtrrs_abstraction_is_addr_covered_by_var_reg m address reg_index =
     (let phys_base = mtrrs_abstraction_get_address_from_reg m reg_index;
          phys_mask = mtrrs_abstraction_get_mask_from_reg m reg_index;
          mask_base = phys_base AND phys_mask;
          mask_target = phys_mask AND address
      in (mask_base = mask_target,
          (phys_base AND phys_mask) + NOT (phys_mask OR mtrr_msbs m) + 1 - address))"

section \<open>Validity of written values\<close>

definition mttrs_abstraction_is_type_valid :: "nat \<Rightarrow> bool" where
  "mttrs_abstraction_is_type_valid type \<longleftrightarrow>
     type \<in> {VMM_PHYS_MEM_UNCACHABLE, VMM_PHYS_MEM_WRITE_COMBINING, VMM_PHYS_MEM_WRITE_THROUGH,
             VMM_PHYS_MEM_WRITE_PROTECTED, VMM_PHYS_MEM_WRITE_BACK}"

definition mtrrs_abstraction_is_IA32_MTRR_DEF_TYPE_valid :: "64 word \<Rightarrow> bool" where
  "mtrrs_abstraction_is_IA32_MTRR_DEF_TYPE_valid v \<longleftrightarrow>
     reg_field 8 2 v = 0 \<and> reg_field 12 20 v = 0 \<and>
     mttrs_abstraction_is_type_valid (unat (reg_field 0 8 v))"

definition mtrrs_abstraction_is_IA32_MTRR_PHYSBASE_REG_valid :: "64 word \<Rightarrow> bool" where
  "mtrrs_abstraction_is_IA32_MTRR_PHYSBASE_REG_valid v \<longleftrightarrow>
     reg_field 8 4 v = 0 \<and> reg_field 52 12 v = 0 \<and>
     mttrs_abstraction_is_type_valid (unat (reg_field 0 8 v))"

definition mtrrs_abstraction_is_IA32_MTRR_PHYSMASK_REG_valid :: "64 word \<Rightarrow> bool" where
  "mtrrs_abstraction_is_IA32_MTRR_PHYSMASK_REG_valid v \<longleftrightarrow>
     reg_field 0 11 v = 0 \<and> reg_field 52 12 v = 0"

text \<open>The byte \<open>i\<close> of a fixed range register is the type of its sub-range \<open>i\<close>.\<close>

definition fixed_type :: "64 word \<Rightarrow> nat \<Rightarrow> nat" where
  "fixed_type v i = unat (reg_field (8 * i) 8 v)"

definition mtrrs_abstraction_is_IA32_FIXED_RANGE_REG_valid :: "64 word \<Rightarrow> bool" where
  "mtrrs_abstraction_is_IA32_FIXED_RANGE_REG_valid v \<longleftrightarrow>
     list_all (\<lambda>i. mttrs_abstraction_is_type_valid (fixed_type v i)) [0..<MTRRS_ABS_NUM_OF_SUB_RANGES]"

text \<open>The loop counts \<open>index\<close> down from the last mask register in steps of 2.\<close>

function mtrr_supported_loop :: "mtrrs_cached_info \<Rightarrow> nat \<Rightarrow> nat \<Rightarrow> nat \<Rightarrow> bool" where
  "mtrr_supported_loop m msr_id index i =
     (if index > IA32_MTRR_PHYSBASE8_ADDR
      then (if index = msr_id \<or> index - 1 = msr_id
            then mtrrs_abstraction_get_num_of_variable_range_regs m > MTRRS_ABS_NUM_OF_VAR_RANGE_MTRRS - i
            else mtrr_supported_loop m msr_id (index - 2) (i + 1))
      else True)"
  by pat_completeness auto
termination by (relation "measure (\<lambda>(m, msr_id, index, i). index)") auto

definition mtrrs_is_variable_mtrrr_supported :: "mtrrs_cached_info \<Rightarrow> nat \<Rightarrow> bool" where
  "mtrrs_is_variable_mtrrr_supported m msr_id =
     (if IA32_MTRR_PHYSBASE8_ADDR \<le> msr_id \<and> msr_id \<le> IA32_MTRR_MAX_PHYSMASK_ADDR
      then mtrr_supported_loop m msr_id IA32_MTRR_MAX_PHYSMASK_ADDR 1
      else True)"

section \<open>Initialisation\<close>

text \<open>The fixed range registers in the order of the cache, with the addresses they cover.\<close>

definition mtrr_fixed_table :: "(nat \<times> nat \<times> nat) list" where
  "mtrr_fixed_table =
     [(0x250, 0x0, 0x7ffff), (0x258, 0x80000, 0x9ffff), (0x259, 0xa0000, 0xbffff),
      (0x268, 0xc0000, 0xc7fff), (0x269, 0xc8000, 0xcffff), (0x26A, 0xd0000, 0xd7fff),
      (0x26B, 0xd8000, 0xdffff), (0x26C, 0xe0000, 0xe7fff), (0x26D, 0xe8000, 0xeffff),
      (0x26E, 0xf0000, 0xf7fff), (0x26F, 0xf8000, 0xfffff)]"

definition mtrrs_zero :: mtrrs_cached_info where
  "mtrrs_zero =
     \<lparr> ia32_mtrrcap_reg = 0, ia32_mtrr_def_type = 0,
       ia32_mtrr_fix = replicate MTRRS_ABS_NUM_OF_FIXED_RANGE_MTRRS 0,
       ia32_mtrr_fix_range = replicate MTRRS_ABS_NUM_OF_FIXED_RANGE_MTRRS (0, 0),
       ia32_mtrr_var_phys_base = replicate MTRRS_ABS_NUM_OF_VAR_RANGE_MTRRS 0,
       ia32_mtrr_var_phys_mask = replicate MTRRS_ABS_NUM_OF_VAR_RANGE_MTRRS 0,
       is_initialized = False, mtrr_msbs = 0 \<rparr>"

text \<open>
  The arrays of ten bases and of ten masks follow each other in the structure, and \<^verbatim>\<open>is_initialized\<close> with a
  padding word follows them.  A store behind the end of an array goes to what follows; a store behind the
  structure is not followed.
\<close>

definition mtrr_store_base :: "nat \<Rightarrow> 64 word \<Rightarrow> mtrrs_cached_info \<Rightarrow> mtrrs_cached_info option" where
  "mtrr_store_base index v m =
     (if index < 10 then Some (m \<lparr> ia32_mtrr_var_phys_base := (ia32_mtrr_var_phys_base m)[index := v] \<rparr>)
      else if index < 20 then Some (m \<lparr> ia32_mtrr_var_phys_mask := (ia32_mtrr_var_phys_mask m)[index - 10 := v] \<rparr>)
      else None)"

definition mtrr_store_mask :: "nat \<Rightarrow> 64 word \<Rightarrow> mtrrs_cached_info \<Rightarrow> mtrrs_cached_info option" where
  "mtrr_store_mask index v m =
     (if index < 10 then Some (m \<lparr> ia32_mtrr_var_phys_mask := (ia32_mtrr_var_phys_mask m)[index := v] \<rparr>)
      else if index = 10 then Some (m \<lparr> is_initialized := reg_field 0 32 v \<noteq> 0 \<rparr>)
      else None)"

function mtrr_read_vars ::
    "bool \<Rightarrow> (nat \<Rightarrow> 64 word) \<Rightarrow> nat \<Rightarrow> nat \<Rightarrow> mtrrs_cached_info \<Rightarrow> mtrrs_cached_info option" where
  "mtrr_read_vars chk hw_read_msr msr_addr index m =
     (if index < mtrrs_abstraction_get_num_of_variable_range_regs m
      then do {
        (if msr_addr > IA32_MTRR_MAX_PHYSMASK_ADDR then vmm_deadloop chk else Some ());
        m1 \<leftarrow> mtrr_store_base index (hw_read_msr msr_addr) m;
        m2 \<leftarrow> mtrr_store_mask index (hw_read_msr (msr_addr + 1)) m1;
        mtrr_read_vars chk hw_read_msr (msr_addr + 2) (index + 1) m2
      }
      else Some m)"
  by pat_completeness auto
termination
  by (relation "measure (\<lambda>(chk, r, a, index, m). mtrrs_abstraction_get_num_of_variable_range_regs m - index)")
     (auto simp: mtrrs_abstraction_get_num_of_variable_range_regs_def mtrr_store_base_def mtrr_store_mask_def
       split: if_splits)

definition mtrrs_abstraction_bsp_initialize ::
    "bool \<Rightarrow> (nat \<Rightarrow> 64 word) \<Rightarrow> nat \<Rightarrow> (bool \<times> mtrrs_cached_info) option" where
  "mtrrs_abstraction_bsp_initialize chk hw_read_msr phys_size = do {
     let m0 = mtrrs_zero \<lparr> ia32_mtrrcap_reg := hw_read_msr IA32_MTRRCAP_ADDR,
                           ia32_mtrr_def_type := hw_read_msr IA32_MTRR_DEF_TYPE_ADDR \<rparr>;
     let m1 = (if mtrrs_abstraction_are_fixed_regs_supported m0
               then m0 \<lparr> ia32_mtrr_fix := map (\<lambda>(a, _, _). hw_read_msr a) mtrr_fixed_table,
                         ia32_mtrr_fix_range := map (\<lambda>(_, s, e). (s, e)) mtrr_fixed_table \<rparr>
               else m0);
     m2 \<leftarrow> mtrr_read_vars chk hw_read_msr IA32_MTRR_PHYSBASE0_ADDR 0 m1;
     Some (True, m2 \<lparr> mtrr_msbs := NOT (push_bit phys_size 1 - 1), is_initialized := True \<rparr>)
   }"

text \<open>A load behind the end of an array is not followed.\<close>

function mtrr_compare_vars ::
    "bool \<Rightarrow> (nat \<Rightarrow> 64 word) \<Rightarrow> nat \<Rightarrow> nat \<Rightarrow> mtrrs_cached_info \<Rightarrow> bool option" where
  "mtrr_compare_vars chk hw_read_msr msr_addr index m =
     (if index < mtrrs_abstraction_get_num_of_variable_range_regs m
      then do {
        (if msr_addr > IA32_MTRR_MAX_PHYSMASK_ADDR then vmm_deadloop chk else Some ());
        base \<leftarrow> arr_get (ia32_mtrr_var_phys_base m) index;
        mask \<leftarrow> arr_get (ia32_mtrr_var_phys_mask m) index;
        if base \<noteq> hw_read_msr msr_addr \<or> mask \<noteq> hw_read_msr (msr_addr + 1) then Some False
        else mtrr_compare_vars chk hw_read_msr (msr_addr + 2) (index + 1) m
      }
      else Some True)"
  by pat_completeness auto
termination
  by (relation "measure (\<lambda>(chk, r, a, index, m). mtrrs_abstraction_get_num_of_variable_range_regs m - index)")
     auto

definition mtrrs_abstraction_ap_initialize ::
    "bool \<Rightarrow> (nat \<Rightarrow> 64 word) \<Rightarrow> mtrrs_cached_info \<Rightarrow> bool option" where
  "mtrrs_abstraction_ap_initialize chk hw_read_msr m =
     (let failed = do { vmm_assert chk False; Some False }
      in if \<not> is_initialized m then failed
         else if ia32_mtrrcap_reg m \<noteq> hw_read_msr IA32_MTRRCAP_ADDR then failed
         else if ia32_mtrr_def_type m \<noteq> hw_read_msr IA32_MTRR_DEF_TYPE_ADDR then failed
         else if mtrrs_abstraction_are_fixed_regs_supported m \<and>
                 ia32_mtrr_fix m \<noteq> map (\<lambda>(a, _, _). hw_read_msr a) mtrr_fixed_table then failed
         else do {
           same \<leftarrow> mtrr_compare_vars chk hw_read_msr IA32_MTRR_PHYSBASE0_ADDR 0 m;
           if same then Some True else failed
         })"

section \<open>Memory types\<close>

text \<open>
  The search in the fixed ranges.  The inner option is \<^const>\<open>None\<close> when the loop ends without a
  match; otherwise the result is the type and \<^verbatim>\<open>remsize\<close>.
\<close>

fun mtrr_fixed_lookup ::
    "bool \<Rightarrow> nat \<Rightarrow> (nat \<times> nat) list \<Rightarrow> 64 word list \<Rightarrow> (nat \<times> 64 word) option option" where
  "mtrr_fixed_lookup chk address ((start_addr, end_addr) # ranges) (reg # regs) =
     (if address \<le> end_addr
      then do {
        let off = u64_sub address start_addr;
        let sz = u32_sub (u32 (end_addr + 1)) start_addr;
        let sub_range_size = sz div MTRRS_ABS_NUM_OF_SUB_RANGES;
        if sub_range_size = 0 then None
        else do {
          let sub_range_index = off div sub_range_size;
          vmm_assert chk (sz mod MTRRS_ABS_NUM_OF_SUB_RANGES = 0);
          vmm_assert chk (sub_range_index < MTRRS_ABS_NUM_OF_SUB_RANGES);
          if sub_range_index < MTRRS_ABS_NUM_OF_SUB_RANGES
          then Some (Some (fixed_type reg sub_range_index,
                           of_nat (u64_sub (u64 ((sub_range_index + 1) * sub_range_size)) off)))
          else None
        }
      }
      else mtrr_fixed_lookup chk address ranges regs)"
| "mtrr_fixed_lookup chk address _ _ = Some None"

text \<open>The variables of the loop over the variable range registers.\<close>

record mtrr_match =
  match_bitmap :: nat
  match_type :: nat
  remsize_back :: "64 word"
  type_back :: nat

definition mtrr_match_init :: mtrr_match where
  "mtrr_match_init = \<lparr> match_bitmap = 0, match_type = VMM_PHYS_MEM_UNDEFINED,
                       remsize_back = 0, type_back = VMM_PHYS_MEM_UNDEFINED \<rparr>"

definition mtrr_var_type :: "mtrrs_cached_info \<Rightarrow> nat \<Rightarrow> nat" where
  "mtrr_var_type m index = unat (reg_field 0 8 (ia32_mtrr_var_phys_base m ! index))"

text \<open>A covered address: a shift by 32 or more is not defined.\<close>

definition mtrr_match_covered :: "nat \<Rightarrow> 64 word \<Rightarrow> mtrr_match \<Rightarrow> mtrr_match option" where
  "mtrr_match_covered type remsize v =
     (if 32 \<le> type then None
      else Some (
        let v1 = v \<lparr> match_type := type, match_bitmap := match_bitmap v OR 2 ^ type \<rparr>;
            UC = VMM_PHYS_MEM_UNCACHABLE
        in if remsize_back v > 0
           then (if type = UC \<or> type_back v = UC
                 then (let rb1 = (if type_back v \<noteq> UC then remsize else remsize_back v);
                           rs1 = (if type \<noteq> UC then 0 else remsize);
                           rb2 = (if type = UC \<and> type_back v = UC
                                  then (if rb1 > rs1 then rb1 else rs1) else rb1)
                       in v1 \<lparr> remsize_back := rb2, type_back := UC \<rparr>)
                 else v1 \<lparr> remsize_back := (if remsize_back v > remsize then remsize else remsize_back v),
                           type_back := type \<rparr>)
           else v1 \<lparr> remsize_back := remsize, type_back := type \<rparr>))"

definition mtrr_match_uncovered :: "64 word \<Rightarrow> 64 word \<Rightarrow> mtrr_match \<Rightarrow> mtrr_match" where
  "mtrr_match_uncovered address range_base v =
     (if address < range_base \<and> address + remsize_back v > range_base
      then v \<lparr> remsize_back := range_base - address \<rparr> else v)"

function mtrr_var_loop ::
    "mtrrs_cached_info \<Rightarrow> 64 word \<Rightarrow> nat \<Rightarrow> mtrr_match \<Rightarrow> mtrr_match option" where
  "mtrr_var_loop m address index v =
     (if index < mtrrs_abstraction_get_num_of_variable_range_regs m \<and>
         index < MTRRS_ABS_NUM_OF_VAR_RANGE_MTRRS
      then if \<not> mtrrs_abstraction_is_var_reg_valid m index then mtrr_var_loop m address (index + 1) v
      else (case mtrrs_abstraction_is_addr_covered_by_var_reg m address index of
        (True, remsize) \<Rightarrow> do {
          v' \<leftarrow> mtrr_match_covered (mtrr_var_type m index) remsize v;
          mtrr_var_loop m address (index + 1) v'
        }
      | (False, _) \<Rightarrow>
          mtrr_var_loop m address (index + 1)
            (mtrr_match_uncovered address (mtrrs_abstraction_get_address_from_reg m index) v))
      else Some v)"
  by pat_completeness auto
termination
  by (relation "measure (\<lambda>(m, a, index, v). MTRRS_ABS_NUM_OF_VAR_RANGE_MTRRS - index)") auto

definition is_pow_of_2 :: "nat \<Rightarrow> bool" where
  "is_pow_of_2 n \<longleftrightarrow> n AND (n - 1) = 0"

definition mtrr_combine :: "bool \<Rightarrow> mtrrs_cached_info \<Rightarrow> mtrr_match \<Rightarrow> nat option" where
  "mtrr_combine chk m v =
     (let bm = match_bitmap v
      in if bm = 0 then Some (mtrrs_abstraction_get_default_memory_type m)
         else if is_pow_of_2 bm then Some (match_type v)
         else if bit bm VMM_PHYS_MEM_UNCACHABLE then Some VMM_PHYS_MEM_UNCACHABLE
         else if (2 ^ VMM_PHYS_MEM_WRITE_THROUGH OR 2 ^ VMM_PHYS_MEM_WRITE_BACK) = bm
         then Some VMM_PHYS_MEM_WRITE_THROUGH
         else do { vmm_deadloop chk; Some VMM_PHYS_MEM_UNDEFINED })"

text \<open>The result is the type and the value that is left in \<^verbatim>\<open>remsize\<close>.\<close>

definition mtrrs_abstraction_get_memory_type ::
    "bool \<Rightarrow> mtrrs_cached_info \<Rightarrow> 64 word \<Rightarrow> (nat \<times> 64 word) option" where
  "mtrrs_abstraction_get_memory_type chk m address = do {
     vmm_assert chk (is_initialized m);
     if \<not> mtrrs_abstraction_are_mtrrs_enabled m then Some (VMM_PHYS_MEM_UNCACHABLE, 0)
     else do {
       fixed \<leftarrow>
         (if mtrrs_abstraction_are_fixed_regs_supported m \<and>
             mtrrs_abstraction_are_fixed_ranged_mtrrs_enabled m \<and>
             unat address \<le> snd (ia32_mtrr_fix_range m ! (MTRRS_ABS_NUM_OF_FIXED_RANGE_MTRRS - 1))
          then do {
            r \<leftarrow> mtrr_fixed_lookup chk (unat address) (ia32_mtrr_fix_range m) (ia32_mtrr_fix m);
            (if r = None then vmm_assert chk False else Some ());
            Some r
          }
          else Some None);
       case fixed of
         Some r \<Rightarrow> Some r
       | None \<Rightarrow> do {
           v \<leftarrow> mtrr_var_loop m address 0 mtrr_match_init;
           t \<leftarrow> mtrr_combine chk m v;
           Some (t, remsize_back v)
         }
     }
   }"

text \<open>
  The range query.  \<open>mtrr_range_loop\<close> is entered with the type of the last address looked at and the
  \<^verbatim>\<open>remsize\<close> that look-up has left; the range size is a 64-bit counter.
\<close>

partial_function (option) mtrr_range_loop ::
    "bool \<Rightarrow> mtrrs_cached_info \<Rightarrow> 64 word \<Rightarrow> 64 word \<Rightarrow> nat \<Rightarrow> nat \<Rightarrow> 64 word \<Rightarrow> 64 word
       \<Rightarrow> 64 word option" where
  "mtrr_range_loop chk m address totalsize first_type mem_type remsize range_size =
     (if mem_type = first_type \<and> range_size < totalsize
      then do {
        let range_size' = range_size + (if remsize \<noteq> 0 then remsize else 4096);
        (t, r) \<leftarrow> mtrrs_abstraction_get_memory_type chk m (address + range_size');
        mtrr_range_loop chk m address totalsize first_type t r range_size'
      }
      else Some range_size)"

definition mtrrs_abstraction_get_range_memory_type ::
    "bool \<Rightarrow> mtrrs_cached_info \<Rightarrow> 64 word \<Rightarrow> 64 word \<Rightarrow> (nat \<times> 64 word) option" where
  "mtrrs_abstraction_get_range_memory_type chk m address totalsize = do {
     (first_type, r) \<leftarrow> mtrrs_abstraction_get_memory_type chk m address;
     range_size \<leftarrow> mtrr_range_loop chk m address totalsize first_type first_type r 0;
     Some (first_type, range_size)
   }"

section \<open>Tracking of updates\<close>

definition mtrr_fixed_index :: "nat \<Rightarrow> nat option" where
  "mtrr_fixed_index mtrr_index =
     (if mtrr_index = 0x250 then Some 0 else if mtrr_index = 0x258 then Some 1
      else if mtrr_index = 0x259 then Some 2 else if mtrr_index = 0x268 then Some 3
      else if mtrr_index = 0x269 then Some 4 else if mtrr_index = 0x26A then Some 5
      else if mtrr_index = 0x26B then Some 6 else if mtrr_index = 0x26C then Some 7
      else if mtrr_index = 0x26D then Some 8 else if mtrr_index = 0x26E then Some 9
      else if mtrr_index = 0x26F then Some 10 else None)"

definition mtrrs_abstraction_track_mtrr_update ::
    "bool \<Rightarrow> nat \<Rightarrow> 64 word \<Rightarrow> mtrrs_cached_info \<Rightarrow> (bool \<times> mtrrs_cached_info) option" where
  "mtrrs_abstraction_track_mtrr_update chk mtrr_index v m =
     (if mtrr_index = IA32_MTRR_DEF_TYPE_ADDR
      then (if \<not> mtrrs_abstraction_is_IA32_MTRR_DEF_TYPE_valid v then Some (False, m)
            else Some (True, m \<lparr> ia32_mtrr_def_type := v \<rparr>))
      else if IA32_MTRR_FIX64K_00000_ADDR \<le> mtrr_index \<and> mtrr_index \<le> IA32_MTRR_FIX4K_F8000_ADDR
      then (case mtrr_fixed_index mtrr_index of
              None \<Rightarrow> do { vmm_assert chk False; Some (False, m) }
            | Some fixed_index \<Rightarrow>
                if \<not> mtrrs_abstraction_is_IA32_FIXED_RANGE_REG_valid v then Some (False, m)
                else do {
                  fix' \<leftarrow> arr_set (ia32_mtrr_fix m) fixed_index v;
                  Some (True, m \<lparr> ia32_mtrr_fix := fix' \<rparr>)
                })
      else if IA32_MTRR_PHYSBASE0_ADDR \<le> mtrr_index \<and> mtrr_index \<le> IA32_MTRR_MAX_PHYSMASK_ADDR
      then (if mtrr_index mod 2 = 0
            then (if \<not> mtrrs_abstraction_is_IA32_MTRR_PHYSBASE_REG_valid v then Some (False, m)
                  else do {
                    base \<leftarrow> arr_set (ia32_mtrr_var_phys_base m)
                              ((mtrr_index - IA32_MTRR_PHYSBASE0_ADDR) div 2) v;
                    Some (True, m \<lparr> ia32_mtrr_var_phys_base := base \<rparr>)
                  })
            else (if \<not> mtrrs_abstraction_is_IA32_MTRR_PHYSMASK_REG_valid v then Some (False, m)
                  else do {
                    mask \<leftarrow> arr_set (ia32_mtrr_var_phys_mask m)
                              ((mtrr_index - IA32_MTRR_PHYSMASK0_ADDR) div 2) v;
                    Some (True, m \<lparr> ia32_mtrr_var_phys_mask := mask \<rparr>)
                  }))
      else Some (False, m))"


section \<open>Reference definitions\<close>

abbreviation mtrr_vcnt :: "mtrrs_cached_info \<Rightarrow> nat" where
  "mtrr_vcnt \<equiv> mtrrs_abstraction_get_num_of_variable_range_regs"

text \<open>The variable registers that cover an address, and the types they give it.\<close>

definition mtrr_matches :: "mtrrs_cached_info \<Rightarrow> 64 word \<Rightarrow> nat set" where
  "mtrr_matches m address =
     {i. i < mtrrs_abstraction_get_num_of_variable_range_regs m \<and> i < MTRRS_ABS_NUM_OF_VAR_RANGE_MTRRS \<and>
         mtrrs_abstraction_is_var_reg_valid m i \<and>
         fst (mtrrs_abstraction_is_addr_covered_by_var_reg m address i)}"

definition mtrr_types :: "mtrrs_cached_info \<Rightarrow> 64 word \<Rightarrow> nat set" where
  "mtrr_types m address = mtrr_var_type m ` mtrr_matches m address"

text \<open>The rule of the architecture for overlapping ranges; \<^const>\<open>None\<close> where it is undefined.\<close>

definition mtrr_overlap_type :: "nat \<Rightarrow> nat set \<Rightarrow> nat option" where
  "mtrr_overlap_type deft types =
     (if types = {} then Some deft
      else if is_singleton types then Some (the_elem types)
      else if VMM_PHYS_MEM_UNCACHABLE \<in> types then Some VMM_PHYS_MEM_UNCACHABLE
      else if types = {VMM_PHYS_MEM_WRITE_THROUGH, VMM_PHYS_MEM_WRITE_BACK}
      then Some VMM_PHYS_MEM_WRITE_THROUGH
      else None)"

text \<open>The fixed register and its byte that the architecture assigns to an address below 1 MB.\<close>

definition fixed_slot :: "nat \<Rightarrow> nat \<times> nat" where
  "fixed_slot a =
     (if a < 0x80000 then (0, a div 0x10000)
      else if a < 0xC0000 then (a div 0x20000 - 3, a mod 0x20000 div 0x4000)
      else (a div 0x8000 - 21, a mod 0x8000 div 0x1000))"

text \<open>The size of the sub-range of an address.\<close>

definition fixed_unit :: "nat \<Rightarrow> nat" where
  "fixed_unit a = (if a < 0x80000 then 0x10000 else if a < 0xC0000 then 0x4000 else 0x1000)"

text \<open>The cache agrees with the registers of a processor.\<close>

definition mtrr_coherent :: "(nat \<Rightarrow> 64 word) \<Rightarrow> mtrrs_cached_info \<Rightarrow> bool" where
  "mtrr_coherent rd m \<longleftrightarrow>
     is_initialized m \<and> ia32_mtrrcap_reg m = rd IA32_MTRRCAP_ADDR \<and>
     ia32_mtrr_def_type m = rd IA32_MTRR_DEF_TYPE_ADDR \<and>
     (mtrrs_abstraction_are_fixed_regs_supported m \<longrightarrow>
        ia32_mtrr_fix m = map (\<lambda>(a, _, _). rd a) mtrr_fixed_table) \<and>
     mtrrs_abstraction_get_num_of_variable_range_regs m \<le> MTRRS_ABS_NUM_OF_VAR_RANGE_MTRRS \<and>
     (\<forall>i < mtrrs_abstraction_get_num_of_variable_range_regs m.
        ia32_mtrr_var_phys_base m ! i = rd (IA32_MTRR_PHYSBASE0_ADDR + 2 * i) \<and>
        ia32_mtrr_var_phys_mask m ! i = rd (IA32_MTRR_PHYSMASK0_ADDR + 2 * i))"

text \<open>The sizes of the arrays of the cache.\<close>

definition mtrr_wf :: "mtrrs_cached_info \<Rightarrow> bool" where
  "mtrr_wf m \<longleftrightarrow>
     length (ia32_mtrr_fix m) = MTRRS_ABS_NUM_OF_FIXED_RANGE_MTRRS \<and>
     length (ia32_mtrr_var_phys_base m) = MTRRS_ABS_NUM_OF_VAR_RANGE_MTRRS \<and>
     length (ia32_mtrr_var_phys_mask m) = MTRRS_ABS_NUM_OF_VAR_RANGE_MTRRS"

text \<open>Two overlapping ranges: uncachable memory from 2 GB to 4 GB in write-back memory below 4 GB.\<close>

definition mtrr_hole_example :: mtrrs_cached_info where
  "mtrr_hole_example = mtrrs_zero
     \<lparr> ia32_mtrrcap_reg := 2, ia32_mtrr_def_type := 0x800,
       ia32_mtrr_var_phys_base := [0x80000000, 6, 0, 0, 0, 0, 0, 0, 0, 0],
       ia32_mtrr_var_phys_mask := [0xF80000800, 0xF00000800, 0, 0, 0, 0, 0, 0, 0, 0],
       is_initialized := True, mtrr_msbs := 0xFFFFFFF000000000 \<rparr>"

declare mtrr_var_loop.simps [simp del] mtrr_read_vars.simps [simp del]
  mtrr_compare_vars.simps [simp del] mtrr_supported_loop.simps [simp del]

section \<open>The match bitmap\<close>

lemma and_double: "(2 * a) AND (2 * b + 1) = 2 * (a AND b)" "(2 * a + 1) AND (2 * b) = 2 * (a AND b)"
  for a b :: nat
  by (subst and_nat_rec, simp)+

lemma and_pred_double:
  fixes n :: nat
  shows "(2 * n) AND (2 * n - 1) = 2 * (n AND (n - 1))"
proof (cases n)
  case (Suc k)
  then have "2 * n - 1 = 2 * (n - 1) + 1" by simp
  then show ?thesis by (simp only: and_double)
qed simp

lemma is_pow_of_2_iff:
  assumes "0 < n"
  shows "is_pow_of_2 n \<longleftrightarrow> (\<exists>k. n = 2 ^ k)"
  using assms
proof (induction n rule: less_induct)
  case (less n)
  show ?case
  proof (cases "even n")
    case True
    then obtain q where q: "n = 2 * q" by blast
    then have "0 < q" "q < n" using less.prems by auto
    then have "is_pow_of_2 q \<longleftrightarrow> (\<exists>k. q = 2 ^ k)" by (intro less.IH)
    moreover have "is_pow_of_2 n \<longleftrightarrow> is_pow_of_2 q"
      unfolding is_pow_of_2_def q and_pred_double by simp
    moreover have "(\<exists>k. n = 2 ^ k) \<longleftrightarrow> (\<exists>k. q = 2 ^ k)"
    proof
      assume "\<exists>k. n = 2 ^ k"
      then obtain k where k: "n = 2 ^ k" by blast
      then have "k \<noteq> 0" using True by (metis even_numeral even_power odd_one power_0)
      then obtain j where "k = Suc j" by (meson not0_implies_Suc)
      then show "\<exists>k. q = 2 ^ k" using k q by auto
    next
      assume "\<exists>k. q = 2 ^ k"
      then show "\<exists>k. n = 2 ^ k" using q by (metis power_Suc)
    qed
    ultimately show ?thesis by simp
  next
    case False
    then obtain q where q: "n = 2 * q + 1" by (metis oddE)
    have "n AND (n - 1) = 2 * q"
      unfolding q using and_double(2) [of q q] by simp
    then have "is_pow_of_2 n \<longleftrightarrow> q = 0" by (simp add: is_pow_of_2_def)
    moreover have "(\<exists>k. n = 2 ^ k) \<longleftrightarrow> q = 0"
    proof
      assume "\<exists>k. n = 2 ^ k"
      then obtain k where k: "n = 2 ^ k" by blast
      then have "k = 0" using False by (cases k) auto
      then show "q = 0" using k q by simp
    qed (use q in \<open>auto intro: exI [of _ 0]\<close>)
    ultimately show ?thesis by simp
  qed
qed

lemma nat_bits_zero: "(n::nat) = 0 \<longleftrightarrow> (\<forall>t. \<not> bit n t)"
  by (metis bit_eq_iff bit_0_eq bot_apply bot_bool_def)

lemma nat_bits_single: "(\<exists>k. n = (2::nat) ^ k) \<longleftrightarrow> (\<exists>k. \<forall>t. bit n t \<longleftrightarrow> t = k)"
  by (auto simp: bit_eq_iff bit_exp_iff)


lemma nat_bits_two:
  assumes "i \<noteq> j"
  shows "2 ^ i OR 2 ^ j = (n::nat) \<longleftrightarrow> (\<forall>t. bit n t \<longleftrightarrow> t = i \<or> t = j)"
  by (auto simp: bit_eq_iff bit_exp_iff bit_or_iff)

text \<open>One register in the loop.\<close>

lemma mtrr_match_covered_Some:
  assumes "mtrr_match_covered t r v = Some v'"
  shows "t < 32" "match_type v' = t" "bit (match_bitmap v') k \<longleftrightarrow> bit (match_bitmap v) k \<or> k = t"
proof -
  have bm: "match_bitmap v' = match_bitmap v OR 2 ^ t" and "t < 32" "match_type v' = t"
    using assms by (auto simp: mtrr_match_covered_def Let_def split: if_splits)
  then show "t < 32" "match_type v' = t" by blast+
  show "bit (match_bitmap v') k \<longleftrightarrow> bit (match_bitmap v) k \<or> k = t"
    unfolding bm by (auto simp: bit_or_iff bit_exp_iff)
qed

lemma mtrr_match_covered_ex: "t < 32 \<Longrightarrow> \<exists>v'. mtrr_match_covered t r v = Some v'"
  by (simp add: mtrr_match_covered_def)

lemma mtrr_match_uncovered_simps [simp]:
  "match_bitmap (mtrr_match_uncovered a b v) = match_bitmap v"
  "match_type (mtrr_match_uncovered a b v) = match_type v"
  by (simp_all add: mtrr_match_uncovered_def)

lemma mtrr_var_loop_correct:
  assumes "\<forall>i \<in> mtrr_matches m address. mtrr_var_type m i < 32"
  shows "\<exists>v'. mtrr_var_loop m address index v = Some v' \<and>
    (\<forall>t. bit (match_bitmap v') t \<longleftrightarrow> bit (match_bitmap v) t \<or>
        (\<exists>i \<in> mtrr_matches m address. index \<le> i \<and> mtrr_var_type m i = t)) \<and>
    (if \<exists>i \<in> mtrr_matches m address. index \<le> i
     then \<exists>i \<in> mtrr_matches m address. index \<le> i \<and> match_type v' = mtrr_var_type m i
     else match_type v' = match_type v)"
  using assms
proof (induction m address index v rule: mtrr_var_loop.induct)
  case (1 m address index v)
  let ?in = "index < mtrrs_abstraction_get_num_of_variable_range_regs m \<and>
    index < MTRRS_ABS_NUM_OF_VAR_RANGE_MTRRS"
  let ?M = "mtrr_matches m address"
  have ge: "index \<le> i \<longleftrightarrow> index = i \<or> index + 1 \<le> i" for i by auto
  show ?case
  proof (cases ?in)
    case False
    then have "\<forall>i \<in> ?M. \<not> index \<le> i" by (auto simp: mtrr_matches_def)
    then show ?thesis using False by (subst mtrr_var_loop.simps) auto
  next
    case inside: True
    show ?thesis
    proof (cases "index \<in> ?M")
      case True
      then have c: "mtrrs_abstraction_is_var_reg_valid m index"
        "fst (mtrrs_abstraction_is_addr_covered_by_var_reg m address index)"
        by (simp_all add: mtrr_matches_def)
      then obtain r where r: "mtrrs_abstraction_is_addr_covered_by_var_reg m address index = (True, r)"
        by (cases "mtrrs_abstraction_is_addr_covered_by_var_reg m address index") auto
      obtain v1 where v1: "mtrr_match_covered (mtrr_var_type m index) r v = Some v1"
        using mtrr_match_covered_ex 1(4) True by blast
      note V = mtrr_match_covered_Some [OF v1]
      obtain v' where v': "mtrr_var_loop m address (index + 1) v1 = Some v'"
        "\<forall>t. bit (match_bitmap v') t \<longleftrightarrow> bit (match_bitmap v1) t \<or>
          (\<exists>i \<in> ?M. index + 1 \<le> i \<and> mtrr_var_type m i = t)"
        "if \<exists>i \<in> ?M. index + 1 \<le> i then \<exists>i \<in> ?M. index + 1 \<le> i \<and> match_type v' = mtrr_var_type m i
         else match_type v' = match_type v1"
        using 1(2) [OF inside _ r [symmetric] _ v1 1(4)] c(1) by blast
      have run: "mtrr_var_loop m address index v = Some v'"
        using inside c(1) r v1 v'(1) by (subst mtrr_var_loop.simps) simp
      have "\<exists>i \<in> ?M. index \<le> i \<and> match_type v' = mtrr_var_type m i"
      proof (cases "\<exists>i \<in> ?M. index + 1 \<le> i")
        case True
        then obtain i where "i \<in> ?M" "index + 1 \<le> i" "match_type v' = mtrr_var_type m i"
          using v'(3) by auto
        then show ?thesis by (intro bexI [of _ i]) auto
      next
        case F: False
        then show ?thesis using v'(3) V(2) \<open>index \<in> ?M\<close> by (auto split: if_splits)
      qed
      then show ?thesis using run v'(2) V(3) True unfolding ge by auto
    next
      case False
      have rest: ?thesis if run: "mtrr_var_loop m address index v = mtrr_var_loop m address (index + 1) w"
        and IH: "\<exists>v'. mtrr_var_loop m address (index + 1) w = Some v' \<and>
          (\<forall>t. bit (match_bitmap v') t \<longleftrightarrow> bit (match_bitmap w) t \<or>
            (\<exists>i \<in> ?M. index + 1 \<le> i \<and> mtrr_var_type m i = t)) \<and>
          (if \<exists>i \<in> ?M. index + 1 \<le> i then \<exists>i \<in> ?M. index + 1 \<le> i \<and> match_type v' = mtrr_var_type m i
           else match_type v' = match_type w)"
        and w: "match_bitmap w = match_bitmap v" "match_type w = match_type v" for w
      proof -
        have eq: "i \<in> ?M \<Longrightarrow> index \<le> i \<longleftrightarrow> index + 1 \<le> i" for i using False ge by auto
        have ex: "(\<exists>i \<in> ?M. index \<le> i) = (\<exists>i \<in> ?M. index + 1 \<le> i)"
          "(\<exists>i \<in> ?M. index \<le> i \<and> Q i) = (\<exists>i \<in> ?M. index + 1 \<le> i \<and> Q i)" for Q
          using eq by blast+
        show ?thesis unfolding run ex by (rule IH [unfolded w])
      qed
      show ?thesis
      proof (cases "mtrrs_abstraction_is_var_reg_valid m index")
        case nv: False
        show ?thesis
          by (rule rest [OF _ 1(1) [OF inside nv 1(4)]])
             (use inside nv in \<open>(subst mtrr_var_loop.simps)?, simp\<close>)+
      next
        case val: True
        then obtain r where r: "mtrrs_abstraction_is_addr_covered_by_var_reg m address index = (False, r)"
          using False inside
          by (cases "mtrrs_abstraction_is_addr_covered_by_var_reg m address index") (auto simp: mtrr_matches_def)
        have nn: "\<not> \<not> mtrrs_abstraction_is_var_reg_valid m index" using val by simp
        show ?thesis
          by (rule rest [OF _ 1(3) [OF inside nn r [symmetric] _ 1(4)]])
             (use inside val r in \<open>(subst mtrr_var_loop.simps)?, simp\<close>)+
      qed
    qed
  qed
qed


lemma mtrr_combine_correct:
  assumes bits: "\<And>t. bit (match_bitmap v) t \<longleftrightarrow> t \<in> types" and ty: "types \<noteq> {} \<Longrightarrow> match_type v \<in> types"
  shows "mtrr_combine chk m v =
    (case mtrr_overlap_type (mtrrs_abstraction_get_default_memory_type m) types of
       Some t \<Rightarrow> Some t
     | None \<Rightarrow> if chk then None else Some VMM_PHYS_MEM_UNDEFINED)"
proof -
  have z: "match_bitmap v = 0 \<longleftrightarrow> types = {}" using nat_bits_zero [of "match_bitmap v"] bits by auto
  have p: "is_pow_of_2 (match_bitmap v) \<longleftrightarrow> is_singleton types" if "match_bitmap v \<noteq> 0"
  proof -
    have "is_pow_of_2 (match_bitmap v) \<longleftrightarrow> (\<exists>k. \<forall>t. t \<in> types \<longleftrightarrow> t = k)"
      using is_pow_of_2_iff [of "match_bitmap v"] nat_bits_single [of "match_bitmap v"] that bits by simp
    also have "\<dots> \<longleftrightarrow> is_singleton types" unfolding is_singleton_def by blast
    finally show ?thesis .
  qed
  have w: "2 ^ VMM_PHYS_MEM_WRITE_THROUGH OR 2 ^ VMM_PHYS_MEM_WRITE_BACK = match_bitmap v \<longleftrightarrow>
      types = {VMM_PHYS_MEM_WRITE_THROUGH, VMM_PHYS_MEM_WRITE_BACK}"
    by (subst nat_bits_two) (use bits in auto)
  have e: "the_elem types = match_type v" if "is_singleton types"
    using that ty by (auto simp: is_singleton_def)
  show ?thesis
    unfolding mtrr_combine_def mtrr_overlap_type_def Let_def w bits z
    using p e z by (cases chk) (auto simp: z)
qed

lemma mtrr_var_type_spec:
  assumes "\<forall>i \<in> mtrr_matches m address. mtrr_var_type m i < 32"
  shows "\<exists>v. mtrr_var_loop m address 0 mtrr_match_init = Some v \<and>
    mtrr_combine chk m v =
      (case mtrr_overlap_type (mtrrs_abstraction_get_default_memory_type m) (mtrr_types m address) of
         Some t \<Rightarrow> Some t
       | None \<Rightarrow> if chk then None else Some VMM_PHYS_MEM_UNDEFINED)"
proof -
  obtain v where v: "mtrr_var_loop m address 0 mtrr_match_init = Some v"
    "\<forall>t. bit (match_bitmap v) t \<longleftrightarrow> bit (match_bitmap mtrr_match_init) t \<or>
        (\<exists>i \<in> mtrr_matches m address. 0 \<le> i \<and> mtrr_var_type m i = t)"
    "if \<exists>i \<in> mtrr_matches m address. 0 \<le> i
     then \<exists>i \<in> mtrr_matches m address. 0 \<le> i \<and> match_type v = mtrr_var_type m i
     else match_type v = match_type mtrr_match_init"
    using mtrr_var_loop_correct [OF assms, of 0 mtrr_match_init] by blast
  have "bit (match_bitmap v) t \<longleftrightarrow> t \<in> mtrr_types m address" for t
    using v(2) by (auto simp: mtrr_match_init_def mtrr_types_def)
  moreover have "match_type v \<in> mtrr_types m address" if "mtrr_types m address \<noteq> {}"
  proof -
    have "\<exists>i \<in> mtrr_matches m address. 0 \<le> i" using that by (auto simp: mtrr_types_def)
    then show ?thesis using v(3) by (auto simp: mtrr_types_def)
  qed
  ultimately show ?thesis using v(1) mtrr_combine_correct by blast
qed

section \<open>Fixed ranges\<close>

lemma mtrr_fixed_step:
  assumes "s \<le> a" "a \<le> e" "e + 1 - s = 8 * u" "0 < u" "e < 2 ^ 31"
  shows "mtrr_fixed_lookup chk a ((s, e) # rs) (r # regs) =
    Some (Some (fixed_type r ((a - s) div u), of_nat (u - (a - s) mod u)))"
proof -
  have off: "u64_sub a s = a - s" using assms by (simp add: width_simps)
  have sz: "u32_sub (u32 (e + 1)) s = 8 * u" using assms by (simp add: width_simps)
  have lt: "(a - s) div u < 8" using assms by (simp add: div_less_iff_less_mult)
  let ?t = "((a - s) div u + 1) * u"
  have t: "?t = (a - s) + (u - (a - s) mod u)"
    unfolding add_mult_distrib
    using div_mult_mod_eq [of "a - s" u] mod_less_divisor [OF assms(4), of "a - s"] by linarith
  have "?t \<le> 8 * u" using lt by (intro mult_le_mono1) linarith
  also have "8 * u \<le> e + 1" using assms(3) by simp
  also have "e + 1 < 2 ^ 64" using assms(5) by simp
  finally have small: "?t < 2 ^ 64" .
  have rem: "u64_sub (u64 ?t) (a - s) = u - (a - s) mod u"
    unfolding u64_id [OF small]
    by (subst u64_sub_id) (use small t in simp_all)
  show ?thesis
    using assms off sz lt rem by (simp add: Let_def)
qed


lemma mtrr_fixed_drop:
  assumes "\<forall>x \<in> set (take i rs). snd x < a" "i \<le> length rs" "i \<le> length regs"
  shows "mtrr_fixed_lookup chk a rs regs = mtrr_fixed_lookup chk a (drop i rs) (drop i regs)"
  using assms
proof (induction i arbitrary: rs regs)
  case (Suc i)
  then obtain s e rs' r regs' where "rs = (s, e) # rs'" "regs = r # regs'"
    by (cases rs; cases regs) auto
  then show ?case using Suc by simp
qed simp

lemma mtrr_fixed_hit:
  assumes "sorted_wrt (\<lambda>x y. snd x < fst y) rs" "i < length rs" "i < length regs"
    and i: "rs ! i = (s, e)" "s \<le> a" "a \<le> e" and u: "s = 8 * u * k" "e + 1 = s + 8 * u" "0 < u" "e < 2 ^ 31"
  shows "mtrr_fixed_lookup chk a rs regs =
      Some (Some (fixed_type (regs ! i) (a mod (8 * u) div u), of_nat (u - a mod u)))"
    and "a div (8 * u) = k"
proof -
  have "\<forall>x \<in> set (take i rs). snd x < a"
  proof
    fix x assume "x \<in> set (take i rs)"
    then obtain j where "j < i" "x = rs ! j" using assms(2) by (auto simp: in_set_conv_nth)
    then have "snd x < fst (rs ! i)" using assms(1,2) by (auto intro: sorted_wrt_nth_less)
    then show "snd x < a" using i by simp
  qed
  then have "mtrr_fixed_lookup chk a rs regs = mtrr_fixed_lookup chk a (drop i rs) (drop i regs)"
    using assms(2,3) by (intro mtrr_fixed_drop) auto
  also have "\<dots> = mtrr_fixed_lookup chk a ((s, e) # drop (Suc i) rs) (regs ! i # drop (Suc i) regs)"
    using assms(2,3) i(1) by (simp flip: Cons_nth_drop_Suc)
  also have "\<dots> = Some (Some (fixed_type (regs ! i) ((a - s) div u), of_nat (u - (a - s) mod u)))"
    by (rule mtrr_fixed_step) (use i u in simp_all)
  finally have r: "mtrr_fixed_lookup chk a rs regs =
      Some (Some (fixed_type (regs ! i) ((a - s) div u), of_nat (u - (a - s) mod u)))" .
  have lt: "a - s < 8 * u" using i u(2) by linarith
  have as: "a = (a - s) + 8 * u * k" using i(2) u(1) by simp
  show "a div (8 * u) = k" using lt u(3) by (subst as) (simp add: div_mult_self2)
  have m: "a mod (8 * u) = a - s" using lt by (subst as) simp
  have "(a - s) mod u = a mod u" using mod_mod_cancel [of u "8 * u" a] m by simp
  with r m show "mtrr_fixed_lookup chk a rs regs =
      Some (Some (fixed_type (regs ! i) (a mod (8 * u) div u), of_nat (u - a mod u)))" by simp
qed

text \<open>The registers behind the fixed slots.\<close>

lemma mtrr_fixed_lookup_correct:
  assumes regs: "length regs = 11" and a: "a < 0x100000"
  shows "mtrr_fixed_lookup chk a (map (\<lambda>(_, s, e). (s, e)) mtrr_fixed_table) regs =
    Some (Some (fixed_type (regs ! fst (fixed_slot a)) (snd (fixed_slot a)),
                of_nat (fixed_unit a - a mod fixed_unit a)))"
proof -
  let ?tab = "map (\<lambda>(_, s, e). (s, e)) mtrr_fixed_table"
  have tab: "?tab =
     [(0x0, 0x7ffff), (0x80000, 0x9ffff), (0xa0000, 0xbffff), (0xc0000, 0xc7fff), (0xc8000, 0xcffff),
      (0xd0000, 0xd7fff), (0xd8000, 0xdffff), (0xe0000, 0xe7fff), (0xe8000, 0xeffff),
      (0xf0000, 0xf7fff), (0xf8000, 0xfffff)]"
    by (simp add: mtrr_fixed_table_def)
  have st: "sorted_wrt (\<lambda>x y. snd x < fst y) ?tab" unfolding tab by simp
  have len: "length ?tab = 11" unfolding tab by simp
  have hit: ?thesis
    if "?tab ! i = (s, e)" "i < 11" "s \<le> a" "a \<le> e" "s = 8 * u * k" "e + 1 = s + 8 * u" "0 < u" "e < 2 ^ 31"
      "fixed_unit a = u" "a div (8 * u) = k \<Longrightarrow> fixed_slot a = (i, a mod (8 * u) div u)" for s e i u k
  proof -
    note H = mtrr_fixed_hit [OF st _ _ that(1,3-8), of regs]
    show ?thesis using H that(2,9,10) regs len by simp
  qed
  consider "0x0 \<le> a" "a \<le> 0x7ffff"
    | "0x80000 \<le> a" "a \<le> 0x9ffff"
    | "0xa0000 \<le> a" "a \<le> 0xbffff"
    | "0xc0000 \<le> a" "a \<le> 0xc7fff"
    | "0xc8000 \<le> a" "a \<le> 0xcffff"
    | "0xd0000 \<le> a" "a \<le> 0xd7fff"
    | "0xd8000 \<le> a" "a \<le> 0xdffff"
    | "0xe0000 \<le> a" "a \<le> 0xe7fff"
    | "0xe8000 \<le> a" "a \<le> 0xeffff"
    | "0xf0000 \<le> a" "a \<le> 0xf7fff"
    | "0xf8000 \<le> a" "a \<le> 0xfffff"
    using a by linarith
  then show ?thesis
  proof cases
    case 1
    then show ?thesis
      by (intro hit [of 0 "0x0" "0x7ffff" "0x10000" 0]) (unfold tab, simp_all add: fixed_unit_def fixed_slot_def)
  next
    case 2
    then show ?thesis
      by (intro hit [of 1 "0x80000" "0x9ffff" "0x4000" 4]) (unfold tab, simp_all add: fixed_unit_def fixed_slot_def)
  next
    case 3
    then show ?thesis
      by (intro hit [of 2 "0xa0000" "0xbffff" "0x4000" 5]) (unfold tab, simp_all add: fixed_unit_def fixed_slot_def)
  next
    case 4
    then show ?thesis
      by (intro hit [of 3 "0xc0000" "0xc7fff" "0x1000" 24]) (unfold tab, simp_all add: fixed_unit_def fixed_slot_def)
  next
    case 5
    then show ?thesis
      by (intro hit [of 4 "0xc8000" "0xcffff" "0x1000" 25]) (unfold tab, simp_all add: fixed_unit_def fixed_slot_def)
  next
    case 6
    then show ?thesis
      by (intro hit [of 5 "0xd0000" "0xd7fff" "0x1000" 26]) (unfold tab, simp_all add: fixed_unit_def fixed_slot_def)
  next
    case 7
    then show ?thesis
      by (intro hit [of 6 "0xd8000" "0xdffff" "0x1000" 27]) (unfold tab, simp_all add: fixed_unit_def fixed_slot_def)
  next
    case 8
    then show ?thesis
      by (intro hit [of 7 "0xe0000" "0xe7fff" "0x1000" 28]) (unfold tab, simp_all add: fixed_unit_def fixed_slot_def)
  next
    case 9
    then show ?thesis
      by (intro hit [of 8 "0xe8000" "0xeffff" "0x1000" 29]) (unfold tab, simp_all add: fixed_unit_def fixed_slot_def)
  next
    case 10
    then show ?thesis
      by (intro hit [of 9 "0xf0000" "0xf7fff" "0x1000" 30]) (unfold tab, simp_all add: fixed_unit_def fixed_slot_def)
  next
    case 11
    then show ?thesis
      by (intro hit [of 10 "0xf8000" "0xfffff" "0x1000" 31]) (unfold tab, simp_all add: fixed_unit_def fixed_slot_def)
  qed
qed


section \<open>The cache and the registers of a processor\<close>

lemma mtrr_vcnt_simps [simp]:
  "mtrr_vcnt (m \<lparr> ia32_mtrr_var_phys_base := b \<rparr>) = mtrr_vcnt m"
  "mtrr_vcnt (m \<lparr> ia32_mtrr_var_phys_mask := b \<rparr>) = mtrr_vcnt m"
  "mtrr_vcnt (m \<lparr> ia32_mtrr_fix := f \<rparr>) = mtrr_vcnt m"
  "mtrr_vcnt (m \<lparr> ia32_mtrr_fix_range := fr \<rparr>) = mtrr_vcnt m"
  "mtrr_vcnt (m \<lparr> ia32_mtrr_def_type := d \<rparr>) = mtrr_vcnt m"
  "mtrr_vcnt (m \<lparr> mtrr_msbs := d \<rparr>) = mtrr_vcnt m"
  "mtrr_vcnt (m \<lparr> is_initialized := i \<rparr>) = mtrr_vcnt m"
  by (simp_all add: mtrrs_abstraction_get_num_of_variable_range_regs_def)

lemma mtrr_fixed_supported_simps [simp]:
  "mtrrs_abstraction_are_fixed_regs_supported (m \<lparr> ia32_mtrr_var_phys_base := b \<rparr>) = mtrrs_abstraction_are_fixed_regs_supported m"
  "mtrrs_abstraction_are_fixed_regs_supported (m \<lparr> ia32_mtrr_var_phys_mask := b \<rparr>) = mtrrs_abstraction_are_fixed_regs_supported m"
  "mtrrs_abstraction_are_fixed_regs_supported (m \<lparr> ia32_mtrr_fix := f \<rparr>) = mtrrs_abstraction_are_fixed_regs_supported m"
  "mtrrs_abstraction_are_fixed_regs_supported (m \<lparr> ia32_mtrr_fix_range := fr \<rparr>) = mtrrs_abstraction_are_fixed_regs_supported m"
  "mtrrs_abstraction_are_fixed_regs_supported (m \<lparr> ia32_mtrr_def_type := d \<rparr>) = mtrrs_abstraction_are_fixed_regs_supported m"
  "mtrrs_abstraction_are_fixed_regs_supported (m \<lparr> mtrr_msbs := d \<rparr>) = mtrrs_abstraction_are_fixed_regs_supported m"
  "mtrrs_abstraction_are_fixed_regs_supported (m \<lparr> is_initialized := i \<rparr>) = mtrrs_abstraction_are_fixed_regs_supported m"
  by (simp_all add: mtrrs_abstraction_are_fixed_regs_supported_def)

lemma mtrr_read_vars_correct:
  assumes "mtrr_vcnt m \<le> 10" "length (ia32_mtrr_var_phys_base m) = 10" "length (ia32_mtrr_var_phys_mask m) = 10"
  shows "\<exists>base mask. mtrr_read_vars chk rd (0x200 + 2 * index) index m =
      Some (m \<lparr> ia32_mtrr_var_phys_base := base, ia32_mtrr_var_phys_mask := mask \<rparr>) \<and>
    length base = 10 \<and> length mask = 10 \<and>
    (\<forall>i. base ! i = (if index \<le> i \<and> i < mtrr_vcnt m then rd (0x200 + 2 * i) else ia32_mtrr_var_phys_base m ! i) \<and>
         mask ! i = (if index \<le> i \<and> i < mtrr_vcnt m then rd (0x201 + 2 * i) else ia32_mtrr_var_phys_mask m ! i))"
  using assms
proof (induction "mtrr_vcnt m - index" arbitrary: m index)
  case 0
  have run: "mtrr_read_vars chk rd (0x200 + 2 * index) index m = Some m"
    using 0(1) by (subst mtrr_read_vars.simps) simp
  show ?case
    by (rule exI [of _ "ia32_mtrr_var_phys_base m"], rule exI [of _ "ia32_mtrr_var_phys_mask m"])
       (use 0 run in auto)
next
  case (Suc k)
  have lt: "index < mtrr_vcnt m" using Suc.hyps(2) by simp
  define m1 where "m1 = m \<lparr> ia32_mtrr_var_phys_base := (ia32_mtrr_var_phys_base m)[index := rd (0x200 + 2 * index)],
    ia32_mtrr_var_phys_mask := (ia32_mtrr_var_phys_mask m)[index := rd (0x201 + 2 * index)] \<rparr>"
  have v1: "mtrr_vcnt m1 = mtrr_vcnt m" by (simp add: m1_def)
  have k1: "k = mtrr_vcnt m1 - Suc index" using Suc.hyps(2) v1 by simp
  have l1: "mtrr_vcnt m1 \<le> 10" "length (ia32_mtrr_var_phys_base m1) = 10" "length (ia32_mtrr_var_phys_mask m1) = 10"
    using Suc.prems v1 by (simp_all add: m1_def)
  obtain base mask where r: "mtrr_read_vars chk rd (0x200 + 2 * Suc index) (Suc index) m1 =
      Some (m1 \<lparr> ia32_mtrr_var_phys_base := base, ia32_mtrr_var_phys_mask := mask \<rparr>)"
    "length base = 10" "length mask = 10"
    "\<forall>i. base ! i = (if Suc index \<le> i \<and> i < mtrr_vcnt m1 then rd (0x200 + 2 * i) else ia32_mtrr_var_phys_base m1 ! i) \<and>
         mask ! i = (if Suc index \<le> i \<and> i < mtrr_vcnt m1 then rd (0x201 + 2 * i) else ia32_mtrr_var_phys_mask m1 ! i)"
    using Suc.hyps(1) [OF k1 l1] by blast
  have "mtrr_read_vars chk rd (0x200 + 2 * index) index m =
      mtrr_read_vars chk rd (0x200 + 2 * Suc index) (Suc index) m1"
    using lt Suc.prems by (subst mtrr_read_vars.simps) (simp add: m1_def mtrr_store_base_def mtrr_store_mask_def)
  then have run: "mtrr_read_vars chk rd (0x200 + 2 * index) index m =
      Some (m \<lparr> ia32_mtrr_var_phys_base := base, ia32_mtrr_var_phys_mask := mask \<rparr>)"
    using r(1) by (simp add: m1_def)
  have "base ! i = (if index \<le> i \<and> i < mtrr_vcnt m then rd (0x200 + 2 * i) else ia32_mtrr_var_phys_base m ! i)"
    and "mask ! i = (if index \<le> i \<and> i < mtrr_vcnt m then rd (0x201 + 2 * i) else ia32_mtrr_var_phys_mask m ! i)" for i
    using r(4) [rule_format, of i] v1 lt Suc.prems
    by (cases "i = index"; simp add: m1_def)+
  then show ?case using run r(2,3) by blast
qed

text \<open>The first ten registers are cached in place; entry 10 of the bases is entry 0 of the masks.\<close>

lemma mtrr_read_vars_ten:
  assumes "10 < mtrr_vcnt m" "length (ia32_mtrr_var_phys_base m) = 10" "length (ia32_mtrr_var_phys_mask m) = 10"
    "index \<le> 10"
  shows "\<exists>base mask. mtrr_read_vars chk rd (0x200 + 2 * index) index m =
      mtrr_read_vars chk rd 0x214 10 (m \<lparr> ia32_mtrr_var_phys_base := base, ia32_mtrr_var_phys_mask := mask \<rparr>) \<and>
    length base = 10 \<and> length mask = 10 \<and>
    (\<forall>i. index \<le> i \<and> i < 10 \<longrightarrow> base ! i = rd (0x200 + 2 * i) \<and> mask ! i = rd (0x201 + 2 * i)) \<and>
    (\<forall>i < index. base ! i = ia32_mtrr_var_phys_base m ! i \<and> mask ! i = ia32_mtrr_var_phys_mask m ! i)"
  using assms
proof (induction "10 - index" arbitrary: m index)
  case 0
  then have i: "index = 10" by simp
  show ?case
    by (rule exI [of _ "ia32_mtrr_var_phys_base m"], rule exI [of _ "ia32_mtrr_var_phys_mask m"]) (use 0 i in auto)
next
  case (Suc k)
  have lt: "index < 10" using Suc.hyps(2) by simp
  let ?b = "(ia32_mtrr_var_phys_base m)[index := rd (0x200 + 2 * index)]"
  let ?k = "(ia32_mtrr_var_phys_mask m)[index := rd (0x201 + 2 * index)]"
  let ?m1 = "m \<lparr> ia32_mtrr_var_phys_base := ?b, ia32_mtrr_var_phys_mask := ?k \<rparr>"
  have run: "mtrr_read_vars chk rd (0x200 + 2 * index) index m =
      mtrr_read_vars chk rd (0x200 + 2 * Suc index) (Suc index) ?m1"
    using lt Suc.prems by (subst mtrr_read_vars.simps) (simp add: mtrr_store_base_def mtrr_store_mask_def)
  have k: "k = 10 - Suc index" and v: "10 < mtrr_vcnt ?m1" using Suc by simp_all
  obtain base mask where r: "mtrr_read_vars chk rd (0x200 + 2 * Suc index) (Suc index) ?m1 =
      mtrr_read_vars chk rd 0x214 10 (?m1 \<lparr> ia32_mtrr_var_phys_base := base, ia32_mtrr_var_phys_mask := mask \<rparr>)"
    "length base = 10" "length mask = 10"
    "\<forall>i. Suc index \<le> i \<and> i < 10 \<longrightarrow> base ! i = rd (0x200 + 2 * i) \<and> mask ! i = rd (0x201 + 2 * i)"
    "\<forall>i < Suc index. base ! i = ia32_mtrr_var_phys_base ?m1 ! i \<and> mask ! i = ia32_mtrr_var_phys_mask ?m1 ! i"
    using Suc.hyps(1) [OF k v] Suc.prems lt by auto
  have new: "base ! i = rd (0x200 + 2 * i) \<and> mask ! i = rd (0x201 + 2 * i)" if "index \<le> i" "i < 10" for i
    using r(4,5) that Suc.prems by (cases "i = index") simp_all
  have old: "base ! i = ia32_mtrr_var_phys_base m ! i \<and> mask ! i = ia32_mtrr_var_phys_mask m ! i" if "i < index" for i
    using r(5) that by simp
  show ?case by (rule exI [of _ base], rule exI [of _ mask]) (use run r(1-3) new old in simp)
qed

lemma mtrr_read_vars_overflow:
  assumes "10 < mtrr_vcnt m" "length (ia32_mtrr_var_phys_base m) = 10" "length (ia32_mtrr_var_phys_mask m) = 10"
  shows "mtrr_read_vars True rd 0x200 0 m = None"
    and "11 < mtrr_vcnt m \<Longrightarrow> mtrr_read_vars False rd 0x200 0 m = None"
    and "mtrr_vcnt m = 11 \<Longrightarrow> \<exists>base mask i. mtrr_read_vars False rd 0x200 0 m =
        Some (m \<lparr> ia32_mtrr_var_phys_base := base, ia32_mtrr_var_phys_mask := mask, is_initialized := i \<rparr>) \<and>
      length base = 10 \<and> length mask = 10 \<and> base ! 0 = rd 0x200 \<and> mask ! 0 = rd 0x214"
proof -
  have ten: "\<exists>base mask. mtrr_read_vars chk rd 0x200 0 m =
      mtrr_read_vars chk rd 0x214 10 (m \<lparr> ia32_mtrr_var_phys_base := base, ia32_mtrr_var_phys_mask := mask \<rparr>) \<and>
    length base = 10 \<and> length mask = 10 \<and> base ! 0 = rd 0x200" for chk
    using mtrr_read_vars_ten [OF assms, of 0 chk rd] by fastforce
  show "mtrr_read_vars True rd 0x200 0 m = None"
    using ten [of True] assms(1) by (auto simp: mtrr_read_vars.simps [of _ _ _ 10])
  show "mtrr_read_vars False rd 0x200 0 m = None" if "11 < mtrr_vcnt m"
    using ten [of False] that
    by (auto simp: mtrr_read_vars.simps [of _ _ _ 10] mtrr_read_vars.simps [of _ _ _ 11]
        mtrr_store_base_def mtrr_store_mask_def)
  show "\<exists>base mask i. mtrr_read_vars False rd 0x200 0 m =
        Some (m \<lparr> ia32_mtrr_var_phys_base := base, ia32_mtrr_var_phys_mask := mask, is_initialized := i \<rparr>) \<and>
      length base = 10 \<and> length mask = 10 \<and> base ! 0 = rd 0x200 \<and> mask ! 0 = rd 0x214" if "mtrr_vcnt m = 11"
  proof -
    obtain base mask where b: "mtrr_read_vars False rd 0x200 0 m =
      mtrr_read_vars False rd 0x214 10 (m \<lparr> ia32_mtrr_var_phys_base := base, ia32_mtrr_var_phys_mask := mask \<rparr>)"
      "length base = 10" "length mask = 10" "base ! 0 = rd 0x200"
      using ten [of False] by blast
    then have "mtrr_read_vars False rd 0x200 0 m = Some (m \<lparr> ia32_mtrr_var_phys_base := base,
        ia32_mtrr_var_phys_mask := mask[0 := rd 0x214], is_initialized := reg_field 0 32 (rd 0x215) \<noteq> 0 \<rparr>)"
      using that by (simp add: mtrr_read_vars.simps [of _ _ _ 10] mtrr_read_vars.simps [of _ _ _ 11]
        mtrr_store_base_def mtrr_store_mask_def)
    then show ?thesis using b(2-4) by fastforce
  qed
qed

lemma mtrr_compare_vars_correct:
  assumes "mtrr_vcnt m \<le> 10" "length (ia32_mtrr_var_phys_base m) = 10" "length (ia32_mtrr_var_phys_mask m) = 10"
  shows "mtrr_compare_vars chk rd (0x200 + 2 * index) index m =
    Some (\<forall>i. index \<le> i \<and> i < mtrr_vcnt m \<longrightarrow>
      ia32_mtrr_var_phys_base m ! i = rd (0x200 + 2 * i) \<and> ia32_mtrr_var_phys_mask m ! i = rd (0x201 + 2 * i))"
  using assms
proof (induction "mtrr_vcnt m - index" arbitrary: index)
  case 0
  then show ?case by (subst mtrr_compare_vars.simps) auto
next
  case (Suc k)
  let ?ok = "\<lambda>i. ia32_mtrr_var_phys_base m ! i = rd (0x200 + 2 * i) \<and> ia32_mtrr_var_phys_mask m ! i = rd (0x201 + 2 * i)"
  have lt: "index < mtrr_vcnt m" using Suc.hyps(2) by simp
  have "mtrr_compare_vars chk rd (0x200 + 2 * index) index m =
    (if ?ok index then mtrr_compare_vars chk rd (0x200 + 2 * Suc index) (Suc index) m else Some False)"
    using lt Suc.prems by (subst mtrr_compare_vars.simps) auto
  also have "mtrr_compare_vars chk rd (0x200 + 2 * Suc index) (Suc index) m =
      Some (\<forall>i. Suc index \<le> i \<and> i < mtrr_vcnt m \<longrightarrow> ?ok i)"
    by (rule Suc.hyps(1)) (use Suc in auto)
  finally show ?case using lt by (auto simp: le_Suc_eq Suc_le_eq dest: le_neq_implies_less)
qed

lemma mtrr_ap_initialize_coherent:
  assumes "mtrr_wf m" "mtrr_vcnt m \<le> 10"
  shows "mtrrs_abstraction_ap_initialize chk rd m =
    (if mtrr_coherent rd m then Some True else if chk then None else Some False)"
  using assms mtrr_compare_vars_correct [of m chk rd 0]
  by (cases chk) (auto simp: mtrrs_abstraction_ap_initialize_def mtrr_coherent_def mtrr_wf_def Let_def)

lemma mtrr_bsp_initialize_correct:
  assumes "unat (reg_field 0 8 (rd 0xFE)) \<le> 10"
  shows "\<exists>m. mtrrs_abstraction_bsp_initialize chk rd phys_size = Some (True, m) \<and> mtrr_wf m \<and> mtrr_coherent rd m \<and>
    (mtrrs_abstraction_are_fixed_regs_supported m \<longrightarrow>
       ia32_mtrr_fix_range m = map (\<lambda>(_, s, e). (s, e)) mtrr_fixed_table)"
proof -
  let ?m0 = "mtrrs_zero \<lparr> ia32_mtrrcap_reg := rd 0xFE, ia32_mtrr_def_type := rd 0x2FF \<rparr>"
  define m1 where "m1 = (if mtrrs_abstraction_are_fixed_regs_supported ?m0
     then ?m0 \<lparr> ia32_mtrr_fix := map (\<lambda>(a, _, _). rd a) mtrr_fixed_table,
                ia32_mtrr_fix_range := map (\<lambda>(_, s, e). (s, e)) mtrr_fixed_table \<rparr> else ?m0)"
  have v: "mtrr_vcnt m1 = unat (reg_field 0 8 (rd 0xFE))"
    by (simp add: m1_def mtrrs_abstraction_get_num_of_variable_range_regs_def)
  have c: "mtrr_vcnt m1 \<le> 10" using v assms by simp
  have l: "length (ia32_mtrr_var_phys_base m1) = 10" "length (ia32_mtrr_var_phys_mask m1) = 10"
    "length (ia32_mtrr_fix m1) = 11"
    by (simp_all add: m1_def mtrrs_zero_def mtrr_fixed_table_def)
  obtain base mask where r: "mtrr_read_vars chk rd 0x200 0 m1 =
      Some (m1 \<lparr> ia32_mtrr_var_phys_base := base, ia32_mtrr_var_phys_mask := mask \<rparr>)"
    "length base = 10" "length mask = 10"
    "\<forall>i. base ! i = (if 0 \<le> i \<and> i < mtrr_vcnt m1 then rd (0x200 + 2 * i) else ia32_mtrr_var_phys_base m1 ! i) \<and>
         mask ! i = (if 0 \<le> i \<and> i < mtrr_vcnt m1 then rd (0x201 + 2 * i) else ia32_mtrr_var_phys_mask m1 ! i)"
    using mtrr_read_vars_correct [OF c l(1,2), of chk rd 0] by auto
  let ?m = "m1 \<lparr> ia32_mtrr_var_phys_base := base, ia32_mtrr_var_phys_mask := mask,
    mtrr_msbs := NOT (push_bit phys_size 1 - 1), is_initialized := True \<rparr>"
  have run: "mtrrs_abstraction_bsp_initialize chk rd phys_size = Some (True, ?m)"
    unfolding mtrrs_abstraction_bsp_initialize_def Let_def m1_def [symmetric] using r(1) by simp
  have regs: "ia32_mtrrcap_reg m1 = rd 0xFE" "ia32_mtrr_def_type m1 = rd 0x2FF"
    "mtrrs_abstraction_are_fixed_regs_supported m1 \<Longrightarrow> ia32_mtrr_fix m1 = map (\<lambda>(a, _, _). rd a) mtrr_fixed_table"
    "mtrrs_abstraction_are_fixed_regs_supported m1 \<Longrightarrow>
       ia32_mtrr_fix_range m1 = map (\<lambda>(_, s, e). (s, e)) mtrr_fixed_table"
    by (auto simp: m1_def mtrrs_abstraction_are_fixed_regs_supported_def)
  have "mtrr_wf ?m" using l r(2,3) by (simp add: mtrr_wf_def)
  moreover have "mtrr_coherent rd ?m" using regs c r(4) by (simp add: mtrr_coherent_def)
  moreover have "mtrrs_abstraction_are_fixed_regs_supported ?m \<longrightarrow>
       ia32_mtrr_fix_range ?m = map (\<lambda>(_, s, e). (s, e)) mtrr_fixed_table"
    using regs(4) by simp
  ultimately show ?thesis using run by blast
qed

lemma mtrr_bsp_initialize_overflow:
  assumes "10 < unat (reg_field 0 8 (rd 0xFE))"
  shows "mtrrs_abstraction_bsp_initialize True rd phys_size = None"
    and "11 < unat (reg_field 0 8 (rd 0xFE)) \<Longrightarrow> mtrrs_abstraction_bsp_initialize False rd phys_size = None"
    and "unat (reg_field 0 8 (rd 0xFE)) = 11 \<Longrightarrow>
      \<exists>m. mtrrs_abstraction_bsp_initialize False rd phys_size = Some (True, m) \<and>
        ia32_mtrr_var_phys_mask m ! 0 = rd 0x214 \<and>
        (rd 0x214 \<noteq> rd 0x201 \<longrightarrow> mtrrs_abstraction_ap_initialize False rd m = Some False)"
proof -
  let ?m0 = "mtrrs_zero \<lparr> ia32_mtrrcap_reg := rd 0xFE, ia32_mtrr_def_type := rd 0x2FF \<rparr>"
  define m1 where "m1 = (if mtrrs_abstraction_are_fixed_regs_supported ?m0
     then ?m0 \<lparr> ia32_mtrr_fix := map (\<lambda>(a, _, _). rd a) mtrr_fixed_table,
                ia32_mtrr_fix_range := map (\<lambda>(_, s, e). (s, e)) mtrr_fixed_table \<rparr> else ?m0)"
  have v: "mtrr_vcnt m1 = unat (reg_field 0 8 (rd 0xFE))"
    by (simp add: m1_def mtrrs_abstraction_get_num_of_variable_range_regs_def)
  have l: "length (ia32_mtrr_var_phys_base m1) = 10" "length (ia32_mtrr_var_phys_mask m1) = 10"
    by (simp_all add: m1_def mtrrs_zero_def)
  note O = mtrr_read_vars_overflow [OF assms [folded v] l, of rd]
  note def = mtrrs_abstraction_bsp_initialize_def Let_def m1_def [symmetric]
  show "mtrrs_abstraction_bsp_initialize True rd phys_size = None" unfolding def using O(1) by simp
  show "mtrrs_abstraction_bsp_initialize False rd phys_size = None" if "11 < unat (reg_field 0 8 (rd 0xFE))"
    unfolding def using O(2) that v by simp
  show "\<exists>m. mtrrs_abstraction_bsp_initialize False rd phys_size = Some (True, m) \<and>
        ia32_mtrr_var_phys_mask m ! 0 = rd 0x214 \<and>
        (rd 0x214 \<noteq> rd 0x201 \<longrightarrow> mtrrs_abstraction_ap_initialize False rd m = Some False)"
    if e: "unat (reg_field 0 8 (rd 0xFE)) = 11"
  proof -
    obtain base mask i where r: "mtrr_read_vars False rd 0x200 0 m1 =
        Some (m1 \<lparr> ia32_mtrr_var_phys_base := base, ia32_mtrr_var_phys_mask := mask, is_initialized := i \<rparr>)"
      "length base = 10" "length mask = 10" "mask ! 0 = rd 0x214"
      using O(3) e v by auto
    let ?m = "m1 \<lparr> ia32_mtrr_var_phys_base := base, ia32_mtrr_var_phys_mask := mask,
      mtrr_msbs := NOT (push_bit phys_size 1 - 1), is_initialized := True \<rparr>"
    have run: "mtrrs_abstraction_bsp_initialize False rd phys_size = Some (True, ?m)"
      unfolding def using r(1) by simp
    have "mtrr_compare_vars False rd 0x200 0 ?m = Some False" if "rd 0x214 \<noteq> rd 0x201"
      using r(2-4) that e v by (subst mtrr_compare_vars.simps) (auto simp: arr_get_def)
    then have "rd 0x214 \<noteq> rd 0x201 \<longrightarrow> mtrrs_abstraction_ap_initialize False rd ?m = Some False"
      by (auto simp: mtrrs_abstraction_ap_initialize_def Let_def)
    then show ?thesis using run r(4) by (intro exI [of _ ?m]) simp
  qed
qed

lemma mtrr_fixed_index_nth:
  assumes "mtrr_fixed_index a = Some i"
  shows "i < 11" "map (\<lambda>(b, _, _). (rd(a := v)) b) mtrr_fixed_table = (map (\<lambda>(b, _, _). rd b) mtrr_fixed_table)[i := v]"
  using assms by (auto simp: mtrr_fixed_index_def mtrr_fixed_table_def split: if_splits)

lemma mtrr_fixed_addresses:
  "a \<notin> fst ` set mtrr_fixed_table \<Longrightarrow>
     map (\<lambda>(b, _, _). (rd(a := v)) b) mtrr_fixed_table = map (\<lambda>(b, _, _). rd b) mtrr_fixed_table"
  by (rule map_cong) force+

lemma mtrr_track_cases:
  assumes wf: "mtrr_wf m" and tr: "mtrrs_abstraction_track_mtrr_update chk a v m = Some (True, m')"
  obtains (def_type) "a = 0x2FF" "m' = m \<lparr> ia32_mtrr_def_type := v \<rparr>"
    | (fixed) i where "mtrr_fixed_index a = Some i" "m' = m \<lparr> ia32_mtrr_fix := (ia32_mtrr_fix m)[i := v] \<rparr>"
        "0x250 \<le> a" "a \<le> 0x26F"
    | (base) i where "i < 10" "a = 0x200 + 2 * i"
        "m' = m \<lparr> ia32_mtrr_var_phys_base := (ia32_mtrr_var_phys_base m)[i := v] \<rparr>"
    | (mask) i where "i < 10" "a = 0x201 + 2 * i"
        "m' = m \<lparr> ia32_mtrr_var_phys_mask := (ia32_mtrr_var_phys_mask m)[i := v] \<rparr>"
proof -
  have len: "length (ia32_mtrr_fix m) = 11" "length (ia32_mtrr_var_phys_base m) = 10"
    "length (ia32_mtrr_var_phys_mask m) = 10" using wf by (simp_all add: mtrr_wf_def)
  note upd = tr [unfolded mtrrs_abstraction_track_mtrr_update_def]
  consider "a = 0x2FF" | "0x250 \<le> a" "a \<le> 0x26F" | "0x200 \<le> a" "a \<le> 0x213" "a mod 2 = 0"
    | "0x200 \<le> a" "a \<le> 0x213" "a mod 2 \<noteq> 0"
    | "a \<noteq> 0x2FF" "\<not> (0x250 \<le> a \<and> a \<le> 0x26F)" "\<not> (0x200 \<le> a \<and> a \<le> 0x213)"
    by linarith
  then show thesis
  proof cases
    case 1
    then show thesis using upd that(1) by (simp split: if_splits)
  next
    case 2
    show thesis
    proof (cases "mtrr_fixed_index a")
      case None
      then show thesis using upd 2 by (cases chk) simp_all
    next
      case (Some i)
      then show thesis
        using upd 2 that(2) [OF Some _ 2] mtrr_fixed_index_nth(1) [OF Some] len
        by (simp split: if_splits)
    qed
  next
    case 3
    let ?i = "(a - 0x200) div 2"
    have i: "?i < 10" "a = 0x200 + 2 * ?i" using 3 by presburger+
    then show thesis using upd 3 that(3) [OF i] len by (simp split: if_splits)
  next
    case 4
    let ?i = "(a - 0x201) div 2"
    have i: "?i < 10" "a = 0x201 + 2 * ?i" using 4 by presburger+
    then show thesis using upd 4 that(4) [OF i] len by (simp split: if_splits)
  next
    case 5
    then show thesis using upd by (simp only: if_False) simp
  qed
qed

lemma mtrr_track_coherent:
  assumes wf: "mtrr_wf m" and co: "mtrr_coherent rd m"
    and tr: "mtrrs_abstraction_track_mtrr_update chk a v m = Some (True, m')"
  shows "mtrr_wf m' \<and> mtrr_coherent (rd(a := v)) m'"
  using wf tr
proof (cases rule: mtrr_track_cases)
  case def_type
  have "0x2FF \<notin> fst ` set mtrr_fixed_table" by (simp add: mtrr_fixed_table_def)
  then show ?thesis
    using wf co def_type mtrr_fixed_addresses [of "0x2FF" rd v]
    by (auto simp: mtrr_wf_def mtrr_coherent_def)
next
  case fixed
  then show ?thesis
    using wf co mtrr_fixed_index_nth(1) [OF fixed(1)] mtrr_fixed_index_nth(2) [OF fixed(1), of rd v]
    by (auto simp: mtrr_wf_def mtrr_coherent_def)
next
  case base
  then have "a \<notin> fst ` set mtrr_fixed_table" by (auto simp: mtrr_fixed_table_def)
  note fx = mtrr_fixed_addresses [OF this, of rd v]
  have "a \<noteq> 0x201 + 2 * j" for j using base(2) by presburger
  then show ?thesis
    using wf co base fx by (auto simp: mtrr_wf_def mtrr_coherent_def nth_list_update)
next
  case mask
  then have "a \<notin> fst ` set mtrr_fixed_table" by (auto simp: mtrr_fixed_table_def)
  note fx = mtrr_fixed_addresses [OF this, of rd v]
  have "a \<noteq> 0x200 + 2 * j" for j using mask(2) by presburger
  then show ?thesis
    using wf co mask fx by (auto simp: mtrr_wf_def mtrr_coherent_def nth_list_update)
qed

lemma mtrr_hole_fields:
  "mtrr_vcnt mtrr_hole_example = 2" "mtrrs_abstraction_are_mtrrs_enabled mtrr_hole_example"
  "\<not> mtrrs_abstraction_are_fixed_regs_supported mtrr_hole_example" "is_initialized mtrr_hole_example"
  "mtrrs_abstraction_is_var_reg_valid mtrr_hole_example 0"
  "mtrrs_abstraction_is_var_reg_valid mtrr_hole_example (Suc 0)"
  "mtrrs_abstraction_get_address_from_reg mtrr_hole_example 0 = 0x80000000"
  "mtrrs_abstraction_get_address_from_reg mtrr_hole_example (Suc 0) = 0"
  "mtrrs_abstraction_get_mask_from_reg mtrr_hole_example 0 = 0xF80000000"
  "mtrrs_abstraction_get_mask_from_reg mtrr_hole_example (Suc 0) = 0xF00000000"
  "mtrr_var_type mtrr_hole_example 0 = 0" "mtrr_var_type mtrr_hole_example (Suc 0) = 6"
  "mtrr_msbs mtrr_hole_example = 0xFFFFFFF000000000"
  by (simp_all add: mtrr_hole_example_def mtrrs_abstraction_get_num_of_variable_range_regs_def
      mtrrs_abstraction_are_mtrrs_enabled_def mtrrs_abstraction_are_fixed_regs_supported_def
      mtrrs_abstraction_is_var_reg_valid_def mtrrs_abstraction_get_address_from_reg_def
      mtrrs_abstraction_get_mask_from_reg_def mtrr_var_type_def reg_field_def)

lemma mtrr_hole_covered:
  "mtrrs_abstraction_is_addr_covered_by_var_reg mtrr_hole_example 0x100000 0 = (False, 0xFFF00000)"
  "mtrrs_abstraction_is_addr_covered_by_var_reg mtrr_hole_example 0x100000 (Suc 0) = (True, 0xFFF00000)"
  "mtrrs_abstraction_is_addr_covered_by_var_reg mtrr_hole_example 0x80000000 0 = (True, 0x80000000)"
  "mtrrs_abstraction_is_addr_covered_by_var_reg mtrr_hole_example 0x80000000 (Suc 0) = (True, 0x80000000)"
  by (simp_all add: mtrrs_abstraction_is_addr_covered_by_var_reg_def mtrr_hole_fields Let_def)

lemma mtrr_hole_end: "mtrrs_abstraction_get_memory_type chk mtrr_hole_example 0x100000000 = Some (0, 0)"
proof -
  have "mtrr_var_loop mtrr_hole_example 0x100000000 0 mtrr_match_init = Some mtrr_match_init"
    by (simp add: mtrr_var_loop.simps mtrr_hole_fields mtrr_match_uncovered_def
        mtrrs_abstraction_is_addr_covered_by_var_reg_def Let_def mtrr_match_init_def)
  moreover have "mtrrs_abstraction_get_default_memory_type mtrr_hole_example = 0"
    by (simp add: mtrrs_abstraction_get_default_memory_type_def mtrr_hole_example_def reg_field_def)
  ultimately show ?thesis
    by (simp add: mtrrs_abstraction_get_memory_type_def mtrr_hole_fields mtrr_combine_def mtrr_match_init_def)
qed

section \<open>The remaining size\<close>

text \<open>
  Registers that do not cover the address leave the variables of the loop as they are until one that covers it
  has set the remaining size, and registers that are not valid leave them always.
\<close>

lemma mtrr_var_loop_skip:
  assumes "\<forall>i. index \<le> i \<and> i < j \<longrightarrow> mtrrs_abstraction_is_var_reg_valid m i \<longrightarrow>
      \<not> fst (mtrrs_abstraction_is_addr_covered_by_var_reg m address i)"
    and "index \<le> j" "j < mtrr_vcnt m" "j < 10"
  shows "mtrr_var_loop m address index mtrr_match_init = mtrr_var_loop m address j mtrr_match_init"
  using assms
proof (induction "j - index" arbitrary: index)
  case (Suc k)
  have "mtrr_match_uncovered address b mtrr_match_init = mtrr_match_init" for b
    by (auto simp: mtrr_match_uncovered_def mtrr_match_init_def dest: order.asym)
  then have "mtrr_var_loop m address index mtrr_match_init = mtrr_var_loop m address (Suc index) mtrr_match_init"
    using Suc.hyps(2) Suc.prems
    by (subst mtrr_var_loop.simps) (auto split: prod.splits)
  also have "\<dots> = mtrr_var_loop m address j mtrr_match_init"
    by (rule Suc.hyps(1)) (use Suc in auto)
  finally show ?case .
qed simp

lemma mtrr_var_loop_invalid:
  assumes "\<forall>i. index \<le> i \<and> i < mtrr_vcnt m \<longrightarrow> \<not> mtrrs_abstraction_is_var_reg_valid m i"
  shows "mtrr_var_loop m address index v = Some v"
  using assms
proof (induction "10 - index" arbitrary: index)
  case 0
  then show ?case by (subst mtrr_var_loop.simps) simp
next
  case (Suc k)
  then show ?case by (subst mtrr_var_loop.simps) auto
qed

lemma mtrr_get_memory_type_var:
  assumes "is_initialized m" "mtrrs_abstraction_are_mtrrs_enabled m"
    and "\<not> (mtrrs_abstraction_are_fixed_regs_supported m \<and> mtrrs_abstraction_are_fixed_ranged_mtrrs_enabled m \<and>
             unat address \<le> snd (ia32_mtrr_fix_range m ! 10))"
    and "mtrr_var_loop m address 0 mtrr_match_init = Some v"
  shows "mtrrs_abstraction_get_memory_type chk m address =
      Option.bind (mtrr_combine chk m v) (\<lambda>t. Some (t, remsize_back v))"
  using assms by (auto simp: mtrrs_abstraction_get_memory_type_def)

lemma mtrr_first_match:
  assumes "is_initialized m" "mtrrs_abstraction_are_mtrrs_enabled m"
    and "\<not> (mtrrs_abstraction_are_fixed_regs_supported m \<and> mtrrs_abstraction_are_fixed_ranged_mtrrs_enabled m \<and>
             unat address \<le> snd (ia32_mtrr_fix_range m ! 10))"
    and j: "j < mtrr_vcnt m" "j < 10" "mtrrs_abstraction_is_var_reg_valid m j" "mtrr_var_type m j < 32"
      "mtrrs_abstraction_is_addr_covered_by_var_reg m address j = (True, r)"
    and before: "\<forall>i < j. mtrrs_abstraction_is_var_reg_valid m i \<longrightarrow>
      \<not> fst (mtrrs_abstraction_is_addr_covered_by_var_reg m address i)"
    and after: "\<forall>i. j < i \<and> i < mtrr_vcnt m \<longrightarrow> \<not> mtrrs_abstraction_is_var_reg_valid m i"
  shows "mtrrs_abstraction_get_memory_type chk m address = Some (mtrr_var_type m j, r)"
proof -
  let ?t = "mtrr_var_type m j"
  let ?v = "\<lparr> match_bitmap = 2 ^ ?t, match_type = ?t, remsize_back = r, type_back = ?t \<rparr>"
  have "mtrr_var_loop m address 0 mtrr_match_init = mtrr_var_loop m address j mtrr_match_init"
    by (rule mtrr_var_loop_skip) (use before j in auto)
  also have "\<dots> = mtrr_var_loop m address (Suc j) ?v"
    using j by (subst mtrr_var_loop.simps) (simp add: mtrr_match_covered_def mtrr_match_init_def)
  also have "\<dots> = Some ?v"
    by (rule mtrr_var_loop_invalid) (use after in auto)
  finally have l: "mtrr_var_loop m address 0 mtrr_match_init = Some ?v" .
  have "is_pow_of_2 (2 ^ ?t)"
    using is_pow_of_2_iff [of "2 ^ ?t"] by auto
  then have "mtrr_combine chk m ?v = Some ?t" by (simp add: mtrr_combine_def Let_def)
  then show ?thesis using mtrr_get_memory_type_var [OF assms(1-3) l, of chk] by simp
qed

lemma mtrr_var_type_of:
  assumes "is_initialized m" "mtrrs_abstraction_are_mtrrs_enabled m"
    and "\<not> (mtrrs_abstraction_are_fixed_regs_supported m \<and> mtrrs_abstraction_are_fixed_ranged_mtrrs_enabled m \<and>
             unat address \<le> snd (ia32_mtrr_fix_range m ! 10))"
    and "\<forall>i \<in> mtrr_matches m address. mtrr_var_type m i < 32"
  shows "\<exists>r. mtrrs_abstraction_get_memory_type chk m address =
    (case mtrr_overlap_type (mtrrs_abstraction_get_default_memory_type m) (mtrr_types m address) of
       Some t \<Rightarrow> Some (t, r)
     | None \<Rightarrow> if chk then None else Some (VMM_PHYS_MEM_UNDEFINED, r))"
proof -
  obtain v where v: "mtrr_var_loop m address 0 mtrr_match_init = Some v"
    "mtrr_combine chk m v =
      (case mtrr_overlap_type (mtrrs_abstraction_get_default_memory_type m) (mtrr_types m address) of
         Some t \<Rightarrow> Some t
       | None \<Rightarrow> if chk then None else Some VMM_PHYS_MEM_UNDEFINED)"
    using mtrr_var_type_spec [OF assms(4), of chk] by blast
  show ?thesis
    using mtrr_get_memory_type_var [OF assms(1-3) v(1), of chk] v(2) by (cases chk) (auto split: option.splits)
qed

lemma mtrr_uncachable_wins:
  assumes "is_initialized m" "mtrrs_abstraction_are_mtrrs_enabled m"
    and "\<not> (mtrrs_abstraction_are_fixed_regs_supported m \<and> mtrrs_abstraction_are_fixed_ranged_mtrrs_enabled m \<and>
             unat b \<le> snd (ia32_mtrr_fix_range m ! 10))"
    and "\<forall>i \<in> mtrr_matches m b. mtrr_var_type m i < 32" "i \<in> mtrr_matches m b"
      "mtrr_var_type m i = VMM_PHYS_MEM_UNCACHABLE"
  shows "\<exists>r. mtrrs_abstraction_get_memory_type chk m b = Some (VMM_PHYS_MEM_UNCACHABLE, r)"
proof -
  have "VMM_PHYS_MEM_UNCACHABLE \<in> mtrr_types m b" using assms(5,6) by (force simp: mtrr_types_def)
  then have "mtrr_overlap_type d (mtrr_types m b) = Some VMM_PHYS_MEM_UNCACHABLE" for d
    by (auto simp: mtrr_overlap_type_def is_singleton_def)
  then show ?thesis using mtrr_var_type_of [OF assms(1-4), of chk] by simp
qed

lemma mtrr_range_one_round:
  assumes "mtrrs_abstraction_get_memory_type chk m address = Some (t, r)" "0 < r" "0 < totalsize" "totalsize \<le> r"
    and "mtrrs_abstraction_get_memory_type chk m (address + r) \<noteq> None"
  shows "mtrrs_abstraction_get_range_memory_type chk m address totalsize = Some (t, r)"
proof -
  obtain t' r' where "mtrrs_abstraction_get_memory_type chk m (address + r) = Some (t', r')"
    using assms(5) by auto
  moreover have "mtrr_range_loop chk m address totalsize t t' r' r = Some r"
    using assms(4) by (subst mtrr_range_loop.simps) auto
  ultimately have "mtrr_range_loop chk m address totalsize t t r 0 = Some r"
    using assms(2,3) by (subst mtrr_range_loop.simps) (simp add: word_gt_0 Let_def)
  then show ?thesis using assms(1) by (simp add: mtrrs_abstraction_get_range_memory_type_def)
qed

lemma unat_of_nat_64: "n < 2 ^ 64 \<Longrightarrow> unat (of_nat n :: 64 word) = n"
  by (simp add: unat_of_nat take_bit_nat_eq_self)

lemma mod_div_8: "0 < u \<Longrightarrow> x mod (u * 8) div u = x div u mod 8" for x u :: nat
  by (simp add: mod_mult2_eq)

lemma fixed_slot_constant:
  assumes a: "a < 0x100000" and b: "a \<le> b" "b < a + (fixed_unit a - a mod fixed_unit a)"
  shows "fixed_slot b = fixed_slot a" "b < 0x100000"
proof -
  let ?u = "fixed_unit a"
  have u: "0 < ?u" by (simp add: fixed_unit_def)
  have "b < a div ?u * ?u + ?u" using b(2) div_mult_mod_eq [of a ?u] mod_less_divisor [OF u, of a] by linarith
  moreover have "a div ?u * ?u \<le> b" using b(1) div_mult_mod_eq [of a ?u] by linarith
  ultimately have q: "b div ?u = a div ?u"
    using u by (metis add.commute div_nat_eqI mult.commute mult_Suc)
  have m8: "x mod 0x20000 div 0x4000 = x div 0x4000 mod 8" "x mod 0x8000 div 0x1000 = x div 0x1000 mod 8"
    "x div 0x20000 = x div 0x4000 div 8" "x div 0x8000 = x div 0x1000 div 8" for x :: nat
    using mod_div_8 [of "0x4000" x] mod_div_8 [of "0x1000" x] div_mult2_eq [of x "0x4000" 8]
      div_mult2_eq [of x "0x1000" 8] by simp_all
  consider "a < 0x80000" | "0x80000 \<le> a" "a < 0xC0000" | "0xC0000 \<le> a" by linarith
  then have "fixed_slot b = fixed_slot a \<and> b < 0x100000"
  proof cases
    case 1
    then have "b div 0x10000 = a div 0x10000" using q by (simp add: fixed_unit_def)
    moreover from this 1 have "b < 0x80000"
      using div_less_iff_less_mult [of "0x10000" a 8] div_less_iff_less_mult [of "0x10000" b 8] by simp
    ultimately show ?thesis using 1 by (simp add: fixed_slot_def)
  next
    case 2
    then have e: "b div 0x4000 = a div 0x4000" using q by (simp add: fixed_unit_def)
    moreover from e 2 have "b < 0xC0000"
      using div_less_iff_less_mult [of "0x4000" a 48] div_less_iff_less_mult [of "0x4000" b 48] by simp
    moreover have "0x80000 \<le> b" using 2 b(1) by linarith
    ultimately show ?thesis using 2 by (simp add: fixed_slot_def m8)
  next
    case 3
    then have e: "b div 0x1000 = a div 0x1000" using q by (simp add: fixed_unit_def)
    moreover from e 3 a have "b < 0x100000"
      using div_less_iff_less_mult [of "0x1000" a 256] div_less_iff_less_mult [of "0x1000" b 256] by simp
    moreover have "0xC0000 \<le> b" using 3 b(1) by linarith
    ultimately show ?thesis using 3 by (simp add: fixed_slot_def m8)
  qed
  then show "fixed_slot b = fixed_slot a" "b < 0x100000" by blast+
qed

section \<open>Properties\<close>

text \<open>
  C23. The type of an address that no fixed range decides is the one that the architecture
  prescribes for the variable ranges that cover it: the default type when there is none, the common
  type when they agree, uncachable when one of them is, write-through for write-through over
  write-back.  Any other overlap stops the machine or, where dead loops are compiled out, gives the
  undefined type.
\<close>

theorem mtrr_variable_types:
  assumes "is_initialized m" "mtrrs_abstraction_are_mtrrs_enabled m"
    and "\<not> (mtrrs_abstraction_are_fixed_regs_supported m \<and> mtrrs_abstraction_are_fixed_ranged_mtrrs_enabled m \<and>
             unat address \<le> snd (ia32_mtrr_fix_range m ! 10))"
    and "\<forall>i \<in> mtrr_matches m address. mtrr_var_type m i < 32"
  shows "\<exists>r. mtrrs_abstraction_get_memory_type chk m address =
    (case mtrr_overlap_type (mtrrs_abstraction_get_default_memory_type m) (mtrr_types m address) of
       Some t \<Rightarrow> Some (t, r)
     | None \<Rightarrow> if chk then None else Some (VMM_PHYS_MEM_UNDEFINED, r))"
  by (rule mtrr_var_type_of [OF assms])

theorem mtrr_variable_types_witness:
  "\<exists>r. mtrrs_abstraction_get_memory_type True mtrr_hole_example 0x80000000 = Some (0, r)"
proof -
  have m: "mtrr_matches mtrr_hole_example 0x80000000 = {0, Suc 0}"
    by (auto simp: mtrr_matches_def mtrr_hole_fields mtrr_hole_covered less_Suc_eq numeral_2_eq_2)
  have t: "mtrr_types mtrr_hole_example 0x80000000 = {0, 6}"
    by (simp add: mtrr_types_def m mtrr_hole_fields)
  have "\<not> is_singleton {0, 6 :: nat}" by (auto simp: is_singleton_def)
  then have "mtrr_overlap_type d {0, 6} = Some 0" for d by (simp add: mtrr_overlap_type_def)
  then show ?thesis
    using mtrr_variable_types [of mtrr_hole_example "0x80000000" True]
    by (simp add: mtrr_hole_fields m t)
qed

text \<open>
  C24. Below 1 MB, with the fixed ranges enabled, the type is the byte of the fixed register that the
  architecture assigns to the address, no assertion fires, and the remaining size that is reported
  is positive and stays inside the sub-range: every address within it has the same type.
\<close>

theorem mtrr_fixed_types:
  assumes "is_initialized m" "mtrrs_abstraction_are_mtrrs_enabled m"
    and "mtrrs_abstraction_are_fixed_regs_supported m" "mtrrs_abstraction_are_fixed_ranged_mtrrs_enabled m"
    and "ia32_mtrr_fix_range m = map (\<lambda>(_, s, e). (s, e)) mtrr_fixed_table" "length (ia32_mtrr_fix m) = 11"
    and "unat a < 0x100000"
  shows "\<exists>r. mtrrs_abstraction_get_memory_type chk m a =
      Some (fixed_type (ia32_mtrr_fix m ! fst (fixed_slot (unat a))) (snd (fixed_slot (unat a))), r) \<and> 0 < r \<and>
    (\<forall>b. unat a \<le> unat b \<and> unat b < unat a + unat r \<longrightarrow>
       map_option fst (mtrrs_abstraction_get_memory_type chk m b) =
       map_option fst (mtrrs_abstraction_get_memory_type chk m a))"
proof -
  have last: "snd (ia32_mtrr_fix_range m ! 10) = 0xfffff"
    unfolding assms(5) by (simp add: mtrr_fixed_table_def)
  have get: "mtrrs_abstraction_get_memory_type chk m b =
      Some (fixed_type (ia32_mtrr_fix m ! fst (fixed_slot (unat b))) (snd (fixed_slot (unat b))),
            of_nat (fixed_unit (unat b) - unat b mod fixed_unit (unat b)))" if "unat b < 0x100000" for b
    using assms(1-4) last that mtrr_fixed_lookup_correct [OF assms(6) that, of chk]
    by (simp add: mtrrs_abstraction_get_memory_type_def assms(5))
  let ?n = "fixed_unit (unat a) - unat a mod fixed_unit (unat a)"
  have n: "0 < ?n" "?n < 2 ^ 64" by (auto simp: fixed_unit_def)
  have un: "unat (of_nat ?n :: 64 word) = ?n" by (rule unat_of_nat_64 [OF n(2)])
  have pos: "0 < (of_nat ?n :: 64 word)" unfolding word_less_nat_alt un using n(1) by simp
  have "map_option fst (mtrrs_abstraction_get_memory_type chk m b) =
      map_option fst (mtrrs_abstraction_get_memory_type chk m a)"
    if "unat a \<le> unat b" "unat b < unat a + ?n" for b
    using get [OF assms(7)] get [of b] fixed_slot_constant [OF assms(7) that] by simp
  then show ?thesis using get [OF assms(7)] pos un by auto
qed

theorem mtrr_fixed_types_witness:
  "\<exists>m r. mtrrs_abstraction_get_memory_type True m 0xA1234 = Some (6, r) \<and> 0 < r"
proof -
  let ?rd = "(\<lambda>_. 0x0606060606060606)(0xFE := 0x100, 0x2FF := 0xC06) :: nat \<Rightarrow> 64 word"
  obtain m where m: "mtrr_wf m" "mtrr_coherent ?rd m"
    "mtrrs_abstraction_are_fixed_regs_supported m \<longrightarrow>
       ia32_mtrr_fix_range m = map (\<lambda>(_, s, e). (s, e)) mtrr_fixed_table"
    using mtrr_bsp_initialize_correct [of ?rd True 36] by (auto simp: reg_field_def)
  have f: "mtrrs_abstraction_are_fixed_regs_supported m" "mtrrs_abstraction_are_mtrrs_enabled m"
    "mtrrs_abstraction_are_fixed_ranged_mtrrs_enabled m" "is_initialized m" "length (ia32_mtrr_fix m) = 11"
    using m(1,2)
    by (auto simp: mtrr_coherent_def mtrr_wf_def mtrrs_abstraction_are_fixed_regs_supported_def
        mtrrs_abstraction_are_mtrrs_enabled_def mtrrs_abstraction_are_fixed_ranged_mtrrs_enabled_def reg_field_def)
  have fx: "ia32_mtrr_fix m = map (\<lambda>(a, _, _). ?rd a) mtrr_fixed_table"
    using m(2) f(1) by (simp add: mtrr_coherent_def)
  have "fixed_type (ia32_mtrr_fix m ! 2) 0 = 6"
    unfolding fx by (simp add: mtrr_fixed_table_def fixed_type_def reg_field_def)
  then show ?thesis
    using mtrr_fixed_types [OF f(4,2,1,3) m(3) [rule_format, OF f(1)] f(5), of "0xA1234" True]
    by (auto simp: fixed_slot_def)
qed

text \<open>
  C25. On a processor with at most ten variable ranges, initialisation on the boot processor returns and leaves a
  cache that agrees with the registers, so that the check on a processor with the same registers succeeds;
  the check on a processor with other registers tells whether they agree.  With more than ten ranges, the build
  in which dead loops stop does not return.  The build in which they are compiled out stores entry 10
  behind the arrays: with eleven ranges it returns \<^verbatim>\<open>TRUE\<close> with the last base in place of the first mask, and the check fails
  even on a processor with the same registers, if the two differ; with more ranges it stores behind the
  structure, where the model stops.
\<close>

theorem mtrr_initialize_coherent:
  "(unat (reg_field 0 8 (rd IA32_MTRRCAP_ADDR)) \<le> 10 \<longrightarrow>
     (\<exists>m. mtrrs_abstraction_bsp_initialize chk rd phys_size = Some (True, m) \<and> mtrr_wf m \<and>
       mtrrs_abstraction_ap_initialize chk rd m = Some True \<and>
       mtrrs_abstraction_ap_initialize False rd' m = Some (mtrr_coherent rd' m))) \<and>
   (10 < unat (reg_field 0 8 (rd IA32_MTRRCAP_ADDR)) \<longrightarrow> mtrrs_abstraction_bsp_initialize True rd phys_size = None) \<and>
   (unat (reg_field 0 8 (rd IA32_MTRRCAP_ADDR)) = 11 \<longrightarrow>
     (\<exists>m. mtrrs_abstraction_bsp_initialize False rd phys_size = Some (True, m) \<and>
       ia32_mtrr_var_phys_mask m ! 0 = rd 0x214 \<and>
       (rd 0x214 \<noteq> rd 0x201 \<longrightarrow> mtrrs_abstraction_ap_initialize False rd m = Some False))) \<and>
   (11 < unat (reg_field 0 8 (rd IA32_MTRRCAP_ADDR)) \<longrightarrow> mtrrs_abstraction_bsp_initialize False rd phys_size = None)"
proof -
  have "\<exists>m. mtrrs_abstraction_bsp_initialize chk rd phys_size = Some (True, m) \<and> mtrr_wf m \<and>
     mtrrs_abstraction_ap_initialize chk rd m = Some True \<and>
     mtrrs_abstraction_ap_initialize False rd' m = Some (mtrr_coherent rd' m)"
    if le: "unat (reg_field 0 8 (rd IA32_MTRRCAP_ADDR)) \<le> 10"
  proof -
    obtain m where m: "mtrrs_abstraction_bsp_initialize chk rd phys_size = Some (True, m)" "mtrr_wf m"
      "mtrr_coherent rd m"
      using mtrr_bsp_initialize_correct [of rd chk phys_size, OF le] by blast
    have v: "mtrr_vcnt m \<le> 10" using m(3) by (simp add: mtrr_coherent_def)
    show ?thesis using m mtrr_ap_initialize_coherent [OF m(2) v] by auto
  qed
  then show ?thesis using mtrr_bsp_initialize_overflow [of rd phys_size] by auto
qed

theorem mtrr_initialize_coherent_witness:
  "\<exists>m. mtrrs_abstraction_bsp_initialize False ((\<lambda>a. of_nat a) (0xFE := 11)) 36 = Some (True, m) \<and>
     mtrrs_abstraction_ap_initialize False ((\<lambda>a. of_nat a) (0xFE := 11)) m = Some False"
  using mtrr_initialize_coherent [of "(\<lambda>a. of_nat a) (0xFE := 11)" True 36 "\<lambda>_. 0"]
  by (auto simp: reg_field_def)

text \<open>
  C26. Tracking a guest write keeps the cache in step with the registers: an accepted value updates
  exactly the cached copy of the register that is written, and a rejected one changes nothing.
\<close>

theorem mtrr_track_keeps_coherent:
  assumes "mtrr_wf m" "mtrr_coherent rd m"
    and "mtrrs_abstraction_track_mtrr_update chk index v m = Some (r, m')"
  shows "if r then mtrr_wf m' \<and> mtrr_coherent (rd(index := v)) m' else m' = m"
proof (cases r)
  case True
  then show ?thesis using mtrr_track_coherent [OF assms(1,2)] assms(3) by simp
next
  case False
  then show ?thesis
    using assms(3)
    by (cases chk)
       (auto simp: mtrrs_abstraction_track_mtrr_update_def bind_eq_Some_conv split: if_splits option.splits)
qed

theorem mtrr_track_keeps_coherent_witness:
  "\<exists>m m' rd. mtrr_coherent rd m \<and> mtrrs_abstraction_track_mtrr_update True 0x2FF 0xC06 m = Some (True, m') \<and>
     mtrr_coherent (rd(0x2FF := 0xC06)) m'"
proof -
  obtain m where m: "mtrr_wf m" "mtrr_coherent (\<lambda>_. 0) m"
    using mtrr_bsp_initialize_correct [of "\<lambda>_. 0" True 36] by (auto simp: reg_field_def)
  have "mtrrs_abstraction_track_mtrr_update True 0x2FF 0xC06 m = Some (True, m \<lparr> ia32_mtrr_def_type := 0xC06 \<rparr>)"
    by (simp add: mtrrs_abstraction_track_mtrr_update_def mtrrs_abstraction_is_IA32_MTRR_DEF_TYPE_valid_def
        reg_field_def mttrs_abstraction_is_type_valid_def)
  then show ?thesis using mtrr_track_keeps_coherent [OF m] m(2) by fastforce
qed

text \<open>
  C27. The range query trusts a remaining size that is too large.  The loop over the variable ranges cuts
  the remaining size at the base of a range that begins later, but only if a range that covers the
  address has been met before it.  So whenever register \<open>j\<close> is the only valid one that covers the address and the last valid
  one, the remaining size is the rest \<open>r\<close> of its range, and a query for at most \<open>r\<close> bytes reports all of
  them to have its type; this holds also if an uncachable range of a register before \<open>j\<close> covers an
  address inside, whose type is uncachable.
\<close>

theorem mtrr_range_overruns:
  assumes "is_initialized m" "mtrrs_abstraction_are_mtrrs_enabled m"
    and "\<forall>a \<in> {address, b}. \<not> (mtrrs_abstraction_are_fixed_regs_supported m \<and>
        mtrrs_abstraction_are_fixed_ranged_mtrrs_enabled m \<and> unat a \<le> snd (ia32_mtrr_fix_range m ! 10))"
    and "j < mtrr_vcnt m" "j < 10" "mtrrs_abstraction_is_var_reg_valid m j"
      "mtrrs_abstraction_is_addr_covered_by_var_reg m address j = (True, r)"
    and "\<forall>i < j. mtrrs_abstraction_is_var_reg_valid m i \<longrightarrow>
      \<not> fst (mtrrs_abstraction_is_addr_covered_by_var_reg m address i)"
    and "\<forall>i. j < i \<and> i < mtrr_vcnt m \<longrightarrow> \<not> mtrrs_abstraction_is_var_reg_valid m i"
    and "\<forall>i \<le> j. mtrr_var_type m i < 32" "mtrr_var_type m j \<noteq> VMM_PHYS_MEM_UNCACHABLE"
    and "i \<in> mtrr_matches m b" "mtrr_var_type m i = VMM_PHYS_MEM_UNCACHABLE"
    and "unat address \<le> unat b" "unat b < unat address + unat r" "0 < totalsize" "totalsize \<le> r"
    and "mtrrs_abstraction_get_memory_type chk m (address + r) \<noteq> None"
  shows "mtrrs_abstraction_get_range_memory_type chk m address totalsize = Some (mtrr_var_type m j, r) \<and>
    (\<exists>r'. mtrrs_abstraction_get_memory_type chk m b = Some (VMM_PHYS_MEM_UNCACHABLE, r'))"
proof
  have "mtrrs_abstraction_get_memory_type chk m address = Some (mtrr_var_type m j, r)"
    by (rule mtrr_first_match) (use assms in auto)
  moreover have "0 < r" using assms(16,17) by (rule less_le_trans)
  ultimately show "mtrrs_abstraction_get_range_memory_type chk m address totalsize = Some (mtrr_var_type m j, r)"
    using assms(16-18) by (intro mtrr_range_one_round)
  have "k \<le> j" if "k \<in> mtrr_matches m b" for k
    using that assms(9) by (force simp: mtrr_matches_def not_le)
  then show "\<exists>r'. mtrrs_abstraction_get_memory_type chk m b = Some (VMM_PHYS_MEM_UNCACHABLE, r')"
    by (intro mtrr_uncachable_wins [OF assms(1,2) _ _ assms(12,13)]) (use assms(3,10) in auto)
qed

theorem mtrr_range_overruns_witness:
  "mtrrs_abstraction_get_range_memory_type True mtrr_hole_example 0x100000 0xFFF00000 = Some (6, 0xFFF00000) \<and>
   (\<exists>r. mtrrs_abstraction_get_memory_type True mtrr_hole_example 0x80000000 = Some (0, r))"
proof -
  have m: "0 \<in> mtrr_matches mtrr_hole_example 0x80000000"
    by (simp add: mtrr_matches_def mtrr_hole_fields mtrr_hole_covered)
  have t: "\<forall>i \<le> Suc 0. mtrr_var_type mtrr_hole_example i < 32"
    by (auto simp: le_Suc_eq mtrr_hole_fields)
  have b: "\<forall>i < Suc 0. mtrrs_abstraction_is_var_reg_valid mtrr_hole_example i \<longrightarrow>
      \<not> fst (mtrrs_abstraction_is_addr_covered_by_var_reg mtrr_hole_example 0x100000 i)"
    by (simp add: mtrr_hole_covered)
  have e: "mtrrs_abstraction_get_memory_type True mtrr_hole_example (0x100000 + 0xFFF00000) \<noteq> None"
    using mtrr_hole_end [of True] by simp
  have f: "\<forall>i. Suc 0 < i \<and> i < mtrr_vcnt mtrr_hole_example \<longrightarrow> \<not> mtrrs_abstraction_is_var_reg_valid mtrr_hole_example i"
    by (auto simp: mtrr_hole_fields)
  show ?thesis
    using mtrr_range_overruns [OF _ _ _ _ _ _ mtrr_hole_covered(2) b f t _ m, of "0xFFF00000" True] e
    by (simp add: mtrr_hole_fields)
qed

end
