(* ===== verification/VmmCache64.thy ===== *)
theory VmmCache64
  imports VmmPrelude
begin

unbundle bit_operations_syntax

text \<open>
  The bit array macros of \<^verbatim>\<open>common/include/vmm_defs.h\<close>, the enumeration of the set bits of a bit
  array in \<^verbatim>\<open>vmm/libc/bitarray_utilities.c\<close>, and the table of cached 64-bit values of
  \<^verbatim>\<open>vmm/utils/cache64.c\<close>.  The callback of the enumeration is a state transformer; the array is read
  from the state at every round, as the code reads it through its pointer.

  The bit numbers are the natural numbers of the code's 32-bit variables; they do not wrap for an
  array of fewer than \<open>2 ^ 32 - 64\<close> bits.
\<close>

section \<open>Bit arrays\<close>

definition bitarray_size_in_bytes :: "nat \<Rightarrow> nat" where
  "bitarray_size_in_bytes size_in_bits = (size_in_bits + 7) div 8"

definition bitarray_mask :: "nat \<Rightarrow> 8 word" where
  "bitarray_mask bitno = push_bit (bitno mod 8) 1"

definition bitarray_set :: "8 word list \<Rightarrow> nat \<Rightarrow> 8 word list option" where
  "bitarray_set xs bitno = do {
     b \<leftarrow> arr_get xs (bitno div 8);
     arr_set xs (bitno div 8) (b OR bitarray_mask bitno)
   }"

definition bitarray_clr :: "8 word list \<Rightarrow> nat \<Rightarrow> 8 word list option" where
  "bitarray_clr xs bitno = do {
     b \<leftarrow> arr_get xs (bitno div 8);
     arr_set xs (bitno div 8) (b AND NOT (bitarray_mask bitno))
   }"

definition bitarray_get :: "8 word list \<Rightarrow> nat \<Rightarrow> bool option" where
  "bitarray_get xs bitno = do {
     b \<leftarrow> arr_get xs (bitno div 8);
     Some (b AND bitarray_mask bitno \<noteq> 0)
   }"

text \<open>The instruction \<^verbatim>\<open>bsf\<close> on a word that is not zero: the number of its lowest set bit.\<close>

function scan_bit_from :: "64 word \<Rightarrow> nat \<Rightarrow> nat" where
  "scan_bit_from w i = (if i < 64 \<and> \<not> bit w i then scan_bit_from w (i + 1) else i)"
  by pat_completeness auto
termination by (relation "measure (\<lambda>(w, i). 64 - i)") auto

declare scan_bit_from.simps [simp del]

definition hw_scan_bit_forward64 :: "64 word \<Rightarrow> nat" where
  "hw_scan_bit_forward64 bitset = scan_bit_from bitset 0"

text \<open>The word that overlays the bytes of the union \<^verbatim>\<open>temp_mask\<close>, lowest byte first.\<close>

fun temp_mask :: "8 word list \<Rightarrow> 64 word" where
  "temp_mask [] = 0"
| "temp_mask (b # bs) = ucast b OR push_bit 8 (temp_mask bs)"

text \<open>
  Clearing bit \<open>bit_idx\<close> of the byte view of the mask clears the same bit of its word view, so the
  loop removes the lowest set bit in every round.
\<close>

function bitarray_scan :: "(nat \<Rightarrow> 's \<Rightarrow> 's option) \<Rightarrow> nat \<Rightarrow> 64 word \<Rightarrow> 's \<Rightarrow> 's option" where
  "bitarray_scan cb base scan s =
     (if scan \<noteq> 0
      then do {
        let bit_idx = hw_scan_bit_forward64 scan;
        s' \<leftarrow> cb (base + bit_idx) s;
        bitarray_scan cb base (scan AND NOT (push_bit bit_idx 1)) s'
      }
      else Some s)"
  by pat_completeness auto
termination
proof (relation "measure (\<lambda>(cb, base, scan, s). card {i. bit scan i})")
  fix cb :: "nat \<Rightarrow> 's \<Rightarrow> 's option" and base scan s x s'
  assume "scan \<noteq> (0 :: 64 word)" "x = hw_scan_bit_forward64 scan"
  have step: "\<forall>j < i. \<not> bit w j \<Longrightarrow> w \<noteq> 0 \<Longrightarrow> bit w (scan_bit_from w i)" for w i
  proof (induction w i rule: scan_bit_from.induct)
    case (1 w i)
    show ?case
    proof (cases "i < 64 \<and> \<not> bit w i")
      case True
      then show ?thesis using 1 by (subst scan_bit_from.simps) (auto simp: less_Suc_eq)
    next
      case False
      have "bit w i"
      proof (rule ccontr)
        assume "\<not> bit w i"
        with False have "64 \<le> i" by auto
        then have "\<not> bit w j" for j using "1.prems"(1) bit_imp_le_length [of w j] by (cases "j < i") auto
        then show False using "1.prems"(2) by (simp add: bit_eq_iff)
      qed
      with False show ?thesis by (subst scan_bit_from.simps) auto
    qed
  qed
  have b: "bit scan x"
    using step [of 0 scan] \<open>scan \<noteq> 0\<close> \<open>x = _\<close> by (simp add: hw_scan_bit_forward64_def)
  have "{i. bit (scan AND NOT (push_bit x 1)) i} \<subset> {i. bit scan i}"
    using b bit_imp_le_length [OF b] by (auto simp: bit_simps)
  moreover have "finite {i. bit scan i}"
    by (rule finite_subset [of _ "{..<64}"]) (use bit_imp_le_length in fastforce)+
  ultimately have "card {i. bit (scan AND NOT (push_bit x 1)) i} < card {i. bit scan i}"
    by (rule psubset_card_mono [rotated])
  then show "((cb, base, scan AND NOT (push_bit x 1), s'), cb, base, scan, s)
      \<in> measure (\<lambda>(cb, base, scan, s). card {i. bit scan i})" by simp
qed simp

text \<open>
  \<open>arr\<close> reads the array from the state.  One round copies up to 8 bytes of it and calls \<open>cb\<close> for the
  bits that are set in the copy.
\<close>

function bitarray_enumerate_bits ::
    "('s \<Rightarrow> 8 word list) \<Rightarrow> nat \<Rightarrow> (nat \<Rightarrow> 's \<Rightarrow> 's option) \<Rightarrow> nat \<Rightarrow> 's \<Rightarrow> 's option" where
  "bitarray_enumerate_bits arr bitarray_size_in_bits cb base_field_id s =
     (if base_field_id < bitarray_size_in_bits
      then do {
        let extra_bytes = (bitarray_size_in_bits - base_field_id + 7) div 8;
        let bytes_to_copy = (if extra_bytes < 8 then extra_bytes else 8);
        bytes \<leftarrow> those (map (\<lambda>idx. arr_get (arr s) ((base_field_id + idx * 8) div 8)) [0..<bytes_to_copy]);
        s' \<leftarrow> bitarray_scan cb base_field_id (temp_mask bytes) s;
        bitarray_enumerate_bits arr bitarray_size_in_bits cb (base_field_id + 64) s'
      }
      else Some s)"
  by pat_completeness auto
termination by (relation "measure (\<lambda>(arr, size, cb, base, s). size - base)") auto

declare bitarray_scan.simps [simp del]
declare bitarray_enumerate_bits.simps [simp del]

section \<open>The cache\<close>

abbreviation CACHE_ALL_ENTRIES :: nat where "CACHE_ALL_ENTRIES \<equiv> 0xFFFFFFFF"
abbreviation CACHE_DIRTY_FLAG :: "16 word" where "CACHE_DIRTY_FLAG \<equiv> 1"
abbreviation CACHE_VALID_FLAG :: "16 word" where "CACHE_VALID_FLAG \<equiv> 2"

text \<open>The arrays stand for what the pointers of the structure point to.\<close>

record cache64 =
  num_of_entries :: nat
  bitmap_size :: nat
  cache_flags :: "16 word"
  cache_table :: "64 word list"
  dirty_bits :: "8 word list"
  valid_bits :: "8 word list"
  cache_ptr :: nat
  table_ptr :: nat
  dirty_ptr :: nat
  valid_ptr :: nat

text \<open>
  The allocator is a parameter: \<open>vmm_malloc\<close> gives an address, or 0, and the new state of the
  allocator, and \<open>vmm_mfree\<close> releases an address.
\<close>

definition free_unless_null :: "(nat \<Rightarrow> 'h \<Rightarrow> 'h) \<Rightarrow> nat \<Rightarrow> 'h \<Rightarrow> 'h" where
  "free_unless_null vmm_mfree p h = (if p \<noteq> 0 then vmm_mfree p h else h)"

definition cache64_create ::
    "(nat \<Rightarrow> 'h \<Rightarrow> nat \<times> 'h) \<Rightarrow> (nat \<Rightarrow> 'h \<Rightarrow> 'h) \<Rightarrow> nat \<Rightarrow> 'h \<Rightarrow> cache64 option \<times> 'h" where
  "cache64_create vmm_malloc vmm_mfree n h =
     (let bitmap_size = bitarray_size_in_bytes n mod 2 ^ 16;
          (cache, h1) = vmm_malloc 32 h;
          (table, h2) = vmm_malloc (u32 (8 * n)) h1;
          (dirty, h3) = vmm_malloc bitmap_size h2;
          (valid, h4) = vmm_malloc bitmap_size h3
      in if cache \<noteq> 0 \<and> table \<noteq> 0 \<and> dirty \<noteq> 0 \<and> valid \<noteq> 0
         then (Some \<lparr> num_of_entries = n, bitmap_size = bitmap_size, cache_flags = 0,
                      cache_table = replicate n 0, dirty_bits = replicate bitmap_size 0,
                      valid_bits = replicate bitmap_size 0, cache_ptr = cache, table_ptr = table,
                      dirty_ptr = dirty, valid_ptr = valid \<rparr>, h4)
         else (None,
               free_unless_null vmm_mfree valid (free_unless_null vmm_mfree dirty
                 (free_unless_null vmm_mfree table (free_unless_null vmm_mfree cache h4)))))"

text \<open>\<open>shadow_disable\<close> is the entry of this CPU in \<^verbatim>\<open>vmcs_sw_shadow_disable\<close>.\<close>

definition cache64_write :: "bool \<Rightarrow> bool \<Rightarrow> 64 word \<Rightarrow> nat \<Rightarrow> cache64 \<Rightarrow> cache64 option" where
  "cache64_write chk shadow_disable val entry_no c =
     (if shadow_disable then Some c
      else do {
        vmm_assert chk (entry_no < num_of_entries c);
        if entry_no < num_of_entries c
        then do {
          old \<leftarrow> arr_get (cache_table c) entry_no;
          is_valid \<leftarrow> (if old = val then bitarray_get (valid_bits c) entry_no else Some False);
          if \<not> (old = val \<and> is_valid)
          then do {
            t \<leftarrow> arr_set (cache_table c) entry_no val;
            d \<leftarrow> bitarray_set (dirty_bits c) entry_no;
            v \<leftarrow> bitarray_set (valid_bits c) entry_no;
            Some (c \<lparr> cache_table := t, dirty_bits := d, valid_bits := v,
                     cache_flags := cache_flags c OR CACHE_DIRTY_FLAG \<rparr>)
          }
          else Some c
        }
        else Some c
      })"

text \<open>The inner option is the value that is stored through \<^verbatim>\<open>p_value\<close> when the result is \<^verbatim>\<open>TRUE\<close>.\<close>

definition cache64_read :: "bool \<Rightarrow> bool \<Rightarrow> nat \<Rightarrow> cache64 \<Rightarrow> 64 word option option" where
  "cache64_read chk shadow_disable entry_no c =
     (if shadow_disable then Some None
      else do {
        vmm_assert chk (entry_no < num_of_entries c);
        if entry_no < num_of_entries c
        then do {
          is_valid \<leftarrow> bitarray_get (valid_bits c) entry_no;
          if is_valid then map_option Some (arr_get (cache_table c) entry_no) else Some None
        }
        else Some None
      })"

definition cache64_invalidate :: "nat \<Rightarrow> cache64 \<Rightarrow> cache64 option" where
  "cache64_invalidate entry_no c =
     (if entry_no < num_of_entries c
      then do {
        v \<leftarrow> bitarray_clr (valid_bits c) entry_no;
        Some (c \<lparr> valid_bits := v \<rparr>)
      }
      else Some (c \<lparr> cache_flags := cache_flags c AND NOT CACHE_VALID_FLAG,
                    valid_bits := replicate (bitmap_size c) 0,
                    dirty_bits := replicate (bitmap_size c) 0 \<rparr>))"

text \<open>
  The cache is a part of the state \<open>s\<close> that the callback works on: \<open>get\<close> reads it and \<open>put\<close>
  replaces it.  A missing callback is \<^const>\<open>None\<close>.
\<close>

definition cache64_flush_dirty ::
    "('s \<Rightarrow> cache64) \<Rightarrow> (cache64 \<Rightarrow> 's \<Rightarrow> 's) \<Rightarrow> nat \<Rightarrow> (nat \<Rightarrow> 's \<Rightarrow> 's option) option \<Rightarrow> 's \<Rightarrow> 's option" where
  "cache64_flush_dirty get put entry_no fn s =
     (let c = get s
      in if entry_no < num_of_entries c
         then do {
           is_dirty \<leftarrow> bitarray_get (dirty_bits c) entry_no;
           if is_dirty
           then do {
             d \<leftarrow> bitarray_clr (dirty_bits c) entry_no;
             let s' = put (c \<lparr> dirty_bits := d \<rparr>) s;
             case fn of None \<Rightarrow> Some s' | Some f \<Rightarrow> f entry_no s'
           }
           else Some s
         }
         else (let s' = put (c \<lparr> cache_flags := cache_flags c AND NOT CACHE_DIRTY_FLAG \<rparr>) s
               in case fn of
                    None \<Rightarrow> Some (put ((get s') \<lparr> dirty_bits := replicate (bitmap_size c) 0 \<rparr>) s')
                  | Some f \<Rightarrow> bitarray_enumerate_bits (\<lambda>x. dirty_bits (get x)) (num_of_entries c) f 0 s'))"

definition cache64_is_dirty :: "cache64 \<Rightarrow> bool" where
  "cache64_is_dirty c \<longleftrightarrow> cache_flags c AND CACHE_DIRTY_FLAG \<noteq> 0"

definition cache64_destroy :: "(nat \<Rightarrow> 'h \<Rightarrow> 'h) \<Rightarrow> cache64 \<Rightarrow> 'h \<Rightarrow> 'h" where
  "cache64_destroy vmm_mfree c h =
     vmm_mfree (cache_ptr c) (vmm_mfree (valid_ptr c) (vmm_mfree (dirty_ptr c) (vmm_mfree (table_ptr c) h)))"

section \<open>Specification\<close>

fun fold_opt :: "('a \<Rightarrow> 's \<Rightarrow> 's option) \<Rightarrow> 'a list \<Rightarrow> 's \<Rightarrow> 's option" where
  "fold_opt f [] s = Some s"
| "fold_opt f (x # xs) s = do { s' \<leftarrow> f x s; fold_opt f xs s' }"

definition bitarray_bit :: "8 word list \<Rightarrow> nat \<Rightarrow> bool" where
  "bitarray_bit xs i \<longleftrightarrow> i div 8 < length xs \<and> bit (xs ! (i div 8)) (i mod 8)"

definition bitarray_bits :: "8 word list \<Rightarrow> nat list" where
  "bitarray_bits xs = filter (bitarray_bit xs) [0..<8 * length xs]"

definition cache_ok :: "cache64 \<Rightarrow> bool" where
  "cache_ok c \<longleftrightarrow> length (cache_table c) = num_of_entries c \<and>
     bitmap_size c = bitarray_size_in_bytes (num_of_entries c) \<and>
     length (dirty_bits c) = bitmap_size c \<and> length (valid_bits c) = bitmap_size c"

text \<open>What a cached entry holds, and whether it is marked for the next flush.\<close>

definition cache_lookup :: "cache64 \<Rightarrow> nat \<Rightarrow> 64 word option" where
  "cache_lookup c e =
     (if e < num_of_entries c \<and> bitarray_bit (valid_bits c) e then Some (cache_table c ! e) else None)"

definition cache_marked :: "cache64 \<Rightarrow> nat \<Rightarrow> bool" where
  "cache_marked c e \<longleftrightarrow> bitarray_bit (dirty_bits c) e"

section \<open>Bit array lemmas\<close>

lemma bit_bitarray_mask [simp]: "bit (bitarray_mask i) j \<longleftrightarrow> j = i mod 8"
  by (auto simp: bitarray_mask_def bit_simps)

lemma and_bitarray_mask: "b AND bitarray_mask i \<noteq> 0 \<longleftrightarrow> bit b (i mod 8)"
  by (auto simp: bit_eq_iff [of "b AND bitarray_mask i"] bit_and_iff dest: bit_imp_le_length)

lemma same_bit_number: "i div 8 = j div 8 \<Longrightarrow> i mod 8 = j mod 8 \<longleftrightarrow> i = j" for i j :: nat
  by (metis div_mult_mod_eq)

lemma bitarray_get_eq [simp]:
  "i div 8 < length xs \<Longrightarrow> bitarray_get xs i = Some (bitarray_bit xs i)"
  by (simp add: bitarray_get_def bitarray_bit_def and_bitarray_mask)

lemma bitarray_set_ex:
  assumes "i div 8 < length xs"
  shows "\<exists>ys. bitarray_set xs i = Some ys \<and> length ys = length xs \<and>
           (\<forall>j. bitarray_bit ys j \<longleftrightarrow> j = i \<or> bitarray_bit xs j)"
  using assms
  by (auto simp: bitarray_set_def bitarray_bit_def nth_list_update bit_or_iff same_bit_number)

lemma bitarray_clr_ex:
  assumes "i div 8 < length xs"
  shows "\<exists>ys. bitarray_clr xs i = Some ys \<and> length ys = length xs \<and>
           (\<forall>j. bitarray_bit ys j \<longleftrightarrow> j \<noteq> i \<and> bitarray_bit xs j)"
proof -
  let ?ys = "xs[i div 8 := xs ! (i div 8) AND NOT (bitarray_mask i)]"
  have "bitarray_bit ?ys j \<longleftrightarrow> j \<noteq> i \<and> bitarray_bit xs j" for j
  proof (cases "j div 8 = i div 8")
    case True
    then show ?thesis using assms same_bit_number [OF True]
      by (auto simp: bitarray_bit_def bit_and_iff bit_not_iff)
  qed (auto simp: bitarray_bit_def)
  then show ?thesis using assms by (auto simp: bitarray_clr_def)
qed

lemma bitarray_bit_clear [simp]: "\<not> bitarray_bit (replicate n 0) i"
  by (simp add: bitarray_bit_def)

lemma bitarray_bit_bound: "bitarray_bit xs i \<Longrightarrow> i < 8 * length xs"
  by (auto simp: bitarray_bit_def)

section \<open>Enumeration of the set bits\<close>

lemma fold_opt_append: "fold_opt f (xs @ ys) s = Option.bind (fold_opt f xs s) (fold_opt f ys)"
  by (induction xs arbitrary: s) (simp_all split: Option.bind_split)

lemma scan_bit_from_lowest:
  "w \<noteq> 0 \<Longrightarrow> \<forall>j < i. \<not> bit w j \<Longrightarrow>
     bit w (scan_bit_from w i) \<and> (\<forall>j < scan_bit_from w i. \<not> bit w j)"
proof (induction w i rule: scan_bit_from.induct)
  case (1 w i)
  show ?case
  proof (cases "i < 64 \<and> \<not> bit w i")
    case True
    then have "\<forall>j < i + 1. \<not> bit w j" using "1.prems"(2) by (auto simp: less_Suc_eq)
    moreover have "scan_bit_from w i = scan_bit_from w (i + 1)"
      using True by (subst scan_bit_from.simps) simp
    ultimately show ?thesis using "1.IH" True "1.prems"(1) by simp
  next
    case False
    have "bit w i"
    proof (rule ccontr)
      assume "\<not> bit w i"
      with False have "64 \<le> i" by auto
      then have "\<not> bit w j" for j
        using "1.prems"(2) bit_imp_le_length [of w j] by (cases "j < i") auto
      then show False using "1.prems"(1) by (simp add: bit_eq_iff)
    qed
    moreover have "scan_bit_from w i = i" using False by (subst scan_bit_from.simps) auto
    ultimately show ?thesis using "1.prems"(2) by simp
  qed
qed

lemma filter_lowest:
  assumes "i < n" "P i" "\<And>j. j < i \<Longrightarrow> \<not> P j"
  shows "filter P [0..<n] = i # filter (\<lambda>j. P j \<and> j \<noteq> i) [0..<n]"
proof -
  have "[0..<n] = [0..<i] @ i # [Suc i..<n]"
    using assms(1) by (metis le0 less_imp_le_nat upt_add_eq_append le_add_diff_inverse upt_conv_Cons)
  moreover have "filter P [0..<i] = []" "filter (\<lambda>j. P j \<and> j \<noteq> i) [0..<i] = []"
    using assms(3) by (auto simp: filter_empty_conv)
  moreover have "filter (\<lambda>j. P j \<and> j \<noteq> i) [Suc i..<n] = filter P [Suc i..<n]"
    by (rule filter_cong) auto
  ultimately show ?thesis using assms(2) by simp
qed

lemma bitarray_scan_fold:
  "bitarray_scan cb base w s = fold_opt cb (map ((+) base) (filter (bit w) [0..<64])) s"
proof (induction cb base w s rule: bitarray_scan.induct)
  case (1 cb base w s)
  show ?case
  proof (cases "w = 0")
    case True
    then show ?thesis by (subst bitarray_scan.simps) simp
  next
    case False
    let ?i = "hw_scan_bit_forward64 w"
    have low: "bit w ?i" "\<And>j. j < ?i \<Longrightarrow> \<not> bit w j"
      using scan_bit_from_lowest [OF False, of 0] by (auto simp: hw_scan_bit_forward64_def)
    then have lt: "?i < 64" using bit_imp_le_length [OF low(1)] by simp
    have "bit (w AND NOT (push_bit ?i 1)) = (\<lambda>j. bit w j \<and> j \<noteq> ?i)"
      by (rule ext, use lt bit_imp_le_length [of w] in \<open>auto simp: bit_simps\<close>)
    then have "filter (bit w) [0..<64] = ?i # filter (bit (w AND NOT (push_bit ?i 1))) [0..<64]"
      by (simp only: filter_lowest [of ?i 64 "bit w", OF lt low])
    then show ?thesis
      using "1.IH" [OF False refl] False
      by (subst bitarray_scan.simps) (auto simp: Let_def split: Option.bind_split)
  qed
qed

lemma bit_temp_mask:
  "length bs \<le> 8 \<Longrightarrow> bit (temp_mask bs) i \<longleftrightarrow> i < 8 * length bs \<and> bit (bs ! (i div 8)) (i mod 8)"
proof (induction bs arbitrary: i)
  case (Cons b bs)
  show ?case
  proof (cases "i < 8")
    case True
    then show ?thesis by (auto simp: bit_simps)
  next
    case False
    then have "i div 8 = Suc ((i - 8) div 8)" "i mod 8 = (i - 8) mod 8"
      by (simp_all add: le_div_geq le_mod_geq)
    moreover have "\<not> bit b i" using False bit_imp_le_length [of b i] by auto
    moreover have "bit (temp_mask (b # bs)) i \<longleftrightarrow> i < 64 \<and> bit (temp_mask bs) (i - 8)"
      using False \<open>\<not> bit b i\<close> by (simp add: bit_or_iff bit_push_bit_iff bit_unsigned_iff)
    ultimately show ?thesis using False Cons.IH [of "i - 8"] Cons.prems by auto
  qed
qed simp

lemma those_arr_get:
  "k + n \<le> length xs \<Longrightarrow> those (map (\<lambda>i. arr_get xs (k + i)) [0..<n]) = Some (take n (drop k xs))"
proof (induction n arbitrary: k)
  case (Suc n)
  have "map (\<lambda>i. arr_get xs (k + i)) [0..<Suc n]
      = arr_get xs k # map (\<lambda>i. arr_get xs (Suc k + i)) [0..<n]"
    by (simp add: upt_rec [of 0] map_Suc_upt [symmetric] del: upt_Suc)
  moreover have "those (map (\<lambda>i. arr_get xs (Suc k + i)) [0..<n]) = Some (take n (drop (Suc k) xs))"
    using Suc.IH [of "Suc k"] Suc.prems by simp
  moreover have "take (Suc n) (drop k xs) = xs ! k # take n (drop (Suc k) xs)"
    using Suc.prems by (simp add: Cons_nth_drop_Suc [symmetric])
  ultimately show ?case using Suc.prems by (simp del: upt_Suc)
qed simp

lemma filter_upt_above:
  assumes "a \<le> b" "\<And>j. a \<le> j \<Longrightarrow> \<not> P j"
  shows "filter P [0..<b] = filter P [0..<a]"
proof -
  have "[0..<b] = [0..<a] @ [a..<b]" using assms(1) by (metis le0 le_add_diff_inverse upt_add_eq_append)
  moreover have "filter P [a..<b] = []" using assms(2) by (auto simp: filter_empty_conv)
  ultimately show ?thesis by simp
qed

lemma bitarray_bits_split:
  assumes "n \<le> length xs" "k < n"
  shows "filter (bitarray_bit xs) [8 * k..<8 * n] =
    map ((+) (8 * k)) (filter (bit (temp_mask (take (min 8 (n - k)) (drop k xs)))) [0..<64]) @
    filter (bitarray_bit xs) [8 * k + 64..<8 * n]"
proof -
  let ?m = "min 8 (n - k)"
  let ?bs = "take ?m (drop k xs)"
  have len: "length ?bs = ?m" using assms(1) by simp
  have bits: "bit (temp_mask ?bs) i \<longleftrightarrow> i < 8 * ?m \<and> bitarray_bit xs (8 * k + i)" for i
  proof (cases "i < 8 * ?m")
    case True
    then have "i div 8 < ?m" by (simp only: less_mult_imp_div_less mult.commute)
    moreover from this have "k + i div 8 < length xs" using assms by linarith
    ultimately show ?thesis using assms bit_temp_mask [of ?bs i] len True by (simp add: bitarray_bit_def)
  qed (use bit_temp_mask [of ?bs i] len in simp)
  have first: "filter (bit (temp_mask ?bs)) [0..<64] = filter (\<lambda>i. bitarray_bit xs (8 * k + i)) [0..<8 * ?m]"
  proof -
    have "filter (bit (temp_mask ?bs)) [0..<64] = filter (bit (temp_mask ?bs)) [0..<8 * ?m]"
      by (rule filter_upt_above) (auto simp: bits)
    also have "\<dots> = filter (\<lambda>i. bitarray_bit xs (8 * k + i)) [0..<8 * ?m]"
      by (rule filter_cong) (auto simp: bits)
    finally show ?thesis .
  qed
  have "[8 * k..<8 * n] = map ((+) (8 * k)) [0..<8 * ?m] @ [8 * k + 8 * ?m..<8 * n]"
  proof -
    have "map ((+) (8 * k)) [0..<8 * ?m] = [8 * k..<8 * k + 8 * ?m]"
      by (rule nth_equalityI) simp_all
    moreover have "[8 * k..<8 * n] = [8 * k..<8 * k + 8 * ?m] @ [8 * k + 8 * ?m..<8 * n]"
    proof -
      have "8 * k + 8 * ?m + (8 * n - (8 * k + 8 * ?m)) = 8 * n" using assms(2) by auto
      then show ?thesis
        using upt_add_eq_append [of "8 * k" "8 * k + 8 * ?m" "8 * n - (8 * k + 8 * ?m)"] by simp
    qed
    ultimately show ?thesis by simp
  qed
  then have "filter (bitarray_bit xs) [8 * k..<8 * n] =
    map ((+) (8 * k)) (filter (\<lambda>i. bitarray_bit xs (8 * k + i)) [0..<8 * ?m]) @
    filter (bitarray_bit xs) [8 * k + 8 * ?m..<8 * n]"
    by (simp add: filter_map comp_def)
  moreover have "[8 * k + 8 * ?m..<8 * n] = [8 * k + 64..<8 * n]"
    by (cases "8 \<le> n - k") auto
  ultimately show ?thesis using first by simp
qed

lemma bitarray_enumerate_from:
  assumes inv: "\<And>i s s'. Q s \<Longrightarrow> cb i s = Some s' \<Longrightarrow> Q s'" and arr: "\<And>s. Q s \<Longrightarrow> arr s = xs"
    and "Q s" "n = bitarray_size_in_bytes size_in_bits" "n \<le> length xs"
  shows "bitarray_enumerate_bits arr size_in_bits cb (8 * k) s
    = fold_opt cb (filter (bitarray_bit xs) [8 * k..<8 * n]) s"
  using \<open>Q s\<close>
proof (induction "size_in_bits - 8 * k" arbitrary: k s rule: less_induct)
  case less
  have n: "n = (size_in_bits + 7) div 8" using assms(4) by (simp add: bitarray_size_in_bytes_def)
  show ?case
  proof (cases "8 * k < size_in_bits")
    case False
    then have "n \<le> k" using n by simp
    then show ?thesis using False by (subst bitarray_enumerate_bits.simps) simp
  next
    case True
    then have kn: "k < n" using n by simp
    let ?bs = "take (min 8 (n - k)) (drop k xs)"
    have copy: "(if (size_in_bits - 8 * k + 7) div 8 < 8 then (size_in_bits - 8 * k + 7) div 8 else 8)
        = min 8 (n - k)"
    proof -
      have "size_in_bits - 8 * k + 7 = size_in_bits + 7 - k * 8" using True by simp
      then have "(size_in_bits - 8 * k + 7) div 8 = n - k" by (simp only: div_mult_self3 n)
      then show ?thesis by simp
    qed
    have bytes: "those (map (\<lambda>idx. arr_get (arr s) ((8 * k + idx * 8) div 8)) [0..<min 8 (n - k)]) = Some ?bs"
    proof -
      have "k + min 8 (n - k) \<le> length xs" using kn assms(5) by simp
      then show ?thesis using those_arr_get [of k "min 8 (n - k)" xs] arr [OF less.prems] by simp
    qed
    have fold_inv: "Q s'" if "fold_opt cb is s = Some s'" "Q s" for "is" s s'
      using that by (induction "is" arbitrary: s) (auto split: Option.bind_splits dest: inv)
    have "bitarray_enumerate_bits arr size_in_bits cb (8 * k) s =
      Option.bind (bitarray_scan cb (8 * k) (temp_mask ?bs) s)
        (\<lambda>s'. bitarray_enumerate_bits arr size_in_bits cb (8 * (k + 8)) s')"
      by (subst bitarray_enumerate_bits.simps)
         (simp only: True if_True Let_def copy bytes Option.bind.simps add_mult_distrib2, simp)
    also have "\<dots> = Option.bind (bitarray_scan cb (8 * k) (temp_mask ?bs) s)
        (\<lambda>s'. fold_opt cb (filter (bitarray_bit xs) [8 * (k + 8)..<8 * n]) s')"
      using True less.hyps [of "k + 8"] fold_inv [OF _ less.prems]
      by (cases "bitarray_scan cb (8 * k) (temp_mask ?bs) s") (auto simp: bitarray_scan_fold)
    also have "\<dots> = fold_opt cb (filter (bitarray_bit xs) [8 * k..<8 * n]) s"
      by (subst bitarray_bits_split [OF assms(5) kn])
         (simp add: fold_opt_append bitarray_scan_fold add_mult_distrib2 add.commute)
    finally show ?thesis .
  qed
qed

lemma bitarray_enumerate_fold:
  assumes "\<And>i s s'. Q s \<Longrightarrow> cb i s = Some s' \<Longrightarrow> Q s'" "\<And>s. Q s \<Longrightarrow> arr s = xs" "Q s"
    and "length xs = bitarray_size_in_bytes size_in_bits"
  shows "bitarray_enumerate_bits arr size_in_bits cb 0 s = fold_opt cb (bitarray_bits xs) s"
  using bitarray_enumerate_from [where Q = Q and k = 0, OF assms(1-3) refl] assms(4)
  by (simp add: bitarray_bits_def)

section \<open>Cache lemmas\<close>

lemma cache_ok_byte:
  assumes "cache_ok c" "e < num_of_entries c"
  shows "e div 8 < length (valid_bits c)" "e div 8 < length (dirty_bits c)" "e < length (cache_table c)"
proof -
  have "e div 8 < (num_of_entries c + 7) div 8" using assms(2) by simp
  then show "e div 8 < length (valid_bits c)" "e div 8 < length (dirty_bits c)" "e < length (cache_table c)"
    using assms by (simp_all add: cache_ok_def bitarray_size_in_bytes_def)
qed

lemma cache64_read_eq [simp]:
  "cache_ok c \<Longrightarrow> e < num_of_entries c \<Longrightarrow> cache64_read chk False e c = Some (cache_lookup c e)"
  by (simp add: cache64_read_def cache_lookup_def cache_ok_byte)

lemma is_dirty_or [simp]: "cache_flags c = f OR CACHE_DIRTY_FLAG \<Longrightarrow> cache64_is_dirty c"
proof -
  have "bit ((f OR 1) AND 1 :: 16 word) 0" by (simp add: bit_and_iff bit_or_iff)
  then show "cache_flags c = f OR CACHE_DIRTY_FLAG \<Longrightarrow> cache64_is_dirty c"
    by (auto simp: cache64_is_dirty_def simp del: and_one_eq)
qed

lemma cache64_write_ex:
  assumes "cache_ok c" "e < num_of_entries c"
  shows "\<exists>c'. cache64_write chk False v e c = Some c' \<and> cache_ok c' \<and>
    num_of_entries c' = num_of_entries c \<and> cache_lookup c' = (cache_lookup c)(e \<mapsto> v) \<and>
    (cache_lookup c e = Some v \<and> c' = c \<or>
     cache64_is_dirty c' \<and> (\<forall>i. cache_marked c' i \<longleftrightarrow> i = e \<or> cache_marked c i))"
proof (cases "cache_lookup c e = Some v")
  case True
  then have "cache64_write chk False v e c = Some c"
    using assms cache_ok_byte [OF assms]
    by (simp add: cache64_write_def cache_lookup_def split: if_splits)
  moreover have "(cache_lookup c)(e \<mapsto> v) = cache_lookup c" using True by auto
  ultimately show ?thesis using assms(1) True by simp
next
  case False
  obtain d where d: "bitarray_set (dirty_bits c) e = Some d" "length d = length (dirty_bits c)"
      "\<forall>j. bitarray_bit d j \<longleftrightarrow> j = e \<or> bitarray_bit (dirty_bits c) j"
    using bitarray_set_ex cache_ok_byte(2) [OF assms] by blast
  obtain w where w: "bitarray_set (valid_bits c) e = Some w" "length w = length (valid_bits c)"
      "\<forall>j. bitarray_bit w j \<longleftrightarrow> j = e \<or> bitarray_bit (valid_bits c) j"
    using bitarray_set_ex cache_ok_byte(1) [OF assms] by blast
  let ?c = "c \<lparr> cache_table := (cache_table c)[e := v], dirty_bits := d, valid_bits := w,
               cache_flags := cache_flags c OR CACHE_DIRTY_FLAG \<rparr>"
  have "cache64_write chk False v e c = Some ?c"
    using assms cache_ok_byte [OF assms] d(1) w(1) False
    by (auto simp: cache64_write_def cache_lookup_def)
  moreover have "cache_ok ?c" using assms(1) d(2) w(2) by (simp add: cache_ok_def)
  moreover have "cache_lookup ?c = (cache_lookup c)(e \<mapsto> v)"
    using w(3) assms(2) cache_ok_byte(3) [OF assms] by (auto simp: cache_lookup_def fun_eq_iff)
  moreover have "\<forall>i. cache_marked ?c i \<longleftrightarrow> i = e \<or> cache_marked c i" using d(3) by (simp add: cache_marked_def)
  moreover have "cache64_is_dirty ?c" by simp
  ultimately show ?thesis by (intro exI [of _ ?c]) simp
qed

lemma cache64_invalidate_all:
  assumes "cache_ok c" "num_of_entries c \<le> e"
  shows "\<exists>c'. cache64_invalidate e c = Some c' \<and> cache_ok c' \<and> num_of_entries c' = num_of_entries c \<and>
    cache_lookup c' = (\<lambda>_. None) \<and> (\<forall>i. \<not> cache_marked c' i)"
  using assms
  by (auto simp: cache64_invalidate_def cache_ok_def cache_lookup_def cache_marked_def fun_eq_iff)

lemma cache64_create_empty:
  assumes "cache64_create vmm_malloc vmm_mfree n h = (Some c, h')" "n < 2 ^ 18"
  shows "cache_ok c" "num_of_entries c = n" "cache_lookup c = (\<lambda>_. None)" "\<not> cache_marked c i"
    "\<not> cache64_is_dirty c"
proof -
  have "(n + 7) div 8 mod 65536 = (n + 7) div 8" using assms(2) by simp
  then show "cache_ok c" "num_of_entries c = n" "cache_lookup c = (\<lambda>_. None)" "\<not> cache_marked c i"
    "\<not> cache64_is_dirty c"
    using assms(1)
    by (auto simp: cache64_create_def Let_def cache_ok_def cache_lookup_def cache_marked_def
          cache64_is_dirty_def fun_eq_iff bitarray_size_in_bytes_def split: prod.splits if_splits)
qed

lemma cache_marked_bound: "cache_ok c \<Longrightarrow> cache_marked c e \<Longrightarrow> e < 8 * bitmap_size c"
  by (auto simp: cache_ok_def cache_marked_def dest: bitarray_bit_bound)

end
