(* ===== verification/VmmVmcsFields.thy ===== *)
theory VmmVmcsFields
  imports VmmPrelude
begin

unbundle bit_operations_syntax

text \<open>
  The fields of a virtual machine control structure (VMCS): the enumeration \<^verbatim>\<open>VMCS_FIELD\<close> of
  \<^verbatim>\<open>vmm/include/vmcs_api.h\<close>, the encodings of \<^verbatim>\<open>vmm/include/hw/vmx_vmcs.h\<close>, and the part of
  \<^verbatim>\<open>vmm/vmx/vmcs.c\<close> that describes the fields: the table \<^verbatim>\<open>g_field_data\<close>, the fields that
  \<^verbatim>\<open>vmcs_manager_init\<close> enables after the capabilities of the processor, and the table that
  translates an encoding back to its field.  The names of the fields in \<^verbatim>\<open>g_field_data\<close> are only
  printed and are left out; \<^verbatim>\<open>FAST_VIEW_SWITCH\<close> is not defined by the build.
\<close>

section \<open>Fields\<close>

abbreviation (input) VMCS_VPID :: nat where "VMCS_VPID \<equiv> 0"
abbreviation (input) VMCS_EPTP_INDEX :: nat where "VMCS_EPTP_INDEX \<equiv> 1"
abbreviation (input) VMCS_CONTROL_VECTOR_PIN_EVENTS :: nat where "VMCS_CONTROL_VECTOR_PIN_EVENTS \<equiv> 2"
abbreviation (input) VMCS_CONTROL_VECTOR_PROCESSOR_EVENTS :: nat where "VMCS_CONTROL_VECTOR_PROCESSOR_EVENTS \<equiv> 3"
abbreviation (input) VMCS_CONTROL2_VECTOR_PROCESSOR_EVENTS :: nat where "VMCS_CONTROL2_VECTOR_PROCESSOR_EVENTS \<equiv> 4"
abbreviation (input) VMCS_EXCEPTION_BITMAP :: nat where "VMCS_EXCEPTION_BITMAP \<equiv> 5"
abbreviation (input) VMCS_CR3_TARGET_COUNT :: nat where "VMCS_CR3_TARGET_COUNT \<equiv> 6"
abbreviation (input) VMCS_CR0_MASK :: nat where "VMCS_CR0_MASK \<equiv> 7"
abbreviation (input) VMCS_CR4_MASK :: nat where "VMCS_CR4_MASK \<equiv> 8"
abbreviation (input) VMCS_CR0_READ_SHADOW :: nat where "VMCS_CR0_READ_SHADOW \<equiv> 9"
abbreviation (input) VMCS_CR4_READ_SHADOW :: nat where "VMCS_CR4_READ_SHADOW \<equiv> 10"
abbreviation (input) VMCS_PAGE_FAULT_ERROR_CODE_MASK :: nat where "VMCS_PAGE_FAULT_ERROR_CODE_MASK \<equiv> 11"
abbreviation (input) VMCS_PAGE_FAULT_ERROR_CODE_MATCH :: nat where "VMCS_PAGE_FAULT_ERROR_CODE_MATCH \<equiv> 12"
abbreviation (input) VMCS_EXIT_CONTROL_VECTOR :: nat where "VMCS_EXIT_CONTROL_VECTOR \<equiv> 13"
abbreviation (input) VMCS_EXIT_MSR_STORE_COUNT :: nat where "VMCS_EXIT_MSR_STORE_COUNT \<equiv> 14"
abbreviation (input) VMCS_EXIT_MSR_LOAD_COUNT :: nat where "VMCS_EXIT_MSR_LOAD_COUNT \<equiv> 15"
abbreviation (input) VMCS_ENTER_CONTROL_VECTOR :: nat where "VMCS_ENTER_CONTROL_VECTOR \<equiv> 16"
abbreviation (input) VMCS_ENTER_INTERRUPT_INFO :: nat where "VMCS_ENTER_INTERRUPT_INFO \<equiv> 17"
abbreviation (input) VMCS_ENTER_EXCEPTION_ERROR_CODE :: nat where "VMCS_ENTER_EXCEPTION_ERROR_CODE \<equiv> 18"
abbreviation (input) VMCS_ENTER_INSTRUCTION_LENGTH :: nat where "VMCS_ENTER_INSTRUCTION_LENGTH \<equiv> 19"
abbreviation (input) VMCS_ENTER_MSR_LOAD_COUNT :: nat where "VMCS_ENTER_MSR_LOAD_COUNT \<equiv> 20"
abbreviation (input) VMCS_IO_BITMAP_ADDRESS_A :: nat where "VMCS_IO_BITMAP_ADDRESS_A \<equiv> 21"
abbreviation (input) VMCS_IO_BITMAP_ADDRESS_B :: nat where "VMCS_IO_BITMAP_ADDRESS_B \<equiv> 22"
abbreviation (input) VMCS_MSR_BITMAP_ADDRESS :: nat where "VMCS_MSR_BITMAP_ADDRESS \<equiv> 23"
abbreviation (input) VMCS_EXIT_MSR_STORE_ADDRESS :: nat where "VMCS_EXIT_MSR_STORE_ADDRESS \<equiv> 24"
abbreviation (input) VMCS_EXIT_MSR_LOAD_ADDRESS :: nat where "VMCS_EXIT_MSR_LOAD_ADDRESS \<equiv> 25"
abbreviation (input) VMCS_ENTER_MSR_LOAD_ADDRESS :: nat where "VMCS_ENTER_MSR_LOAD_ADDRESS \<equiv> 26"
abbreviation (input) VMCS_OSV_CONTROLLING_VMCS_ADDRESS :: nat where "VMCS_OSV_CONTROLLING_VMCS_ADDRESS \<equiv> 27"
abbreviation (input) VMCS_TSC_OFFSET :: nat where "VMCS_TSC_OFFSET \<equiv> 28"
abbreviation (input) VMCS_EXIT_INFO_GUEST_PHYSICAL_ADDRESS :: nat where "VMCS_EXIT_INFO_GUEST_PHYSICAL_ADDRESS \<equiv> 29"
abbreviation (input) VMCS_EXIT_INFO_INSTRUCTION_ERROR_CODE :: nat where "VMCS_EXIT_INFO_INSTRUCTION_ERROR_CODE \<equiv> 30"
abbreviation (input) VMCS_EXIT_INFO_REASON :: nat where "VMCS_EXIT_INFO_REASON \<equiv> 31"
abbreviation (input) VMCS_EXIT_INFO_EXCEPTION_INFO :: nat where "VMCS_EXIT_INFO_EXCEPTION_INFO \<equiv> 32"
abbreviation (input) VMCS_EXIT_INFO_EXCEPTION_ERROR_CODE :: nat where "VMCS_EXIT_INFO_EXCEPTION_ERROR_CODE \<equiv> 33"
abbreviation (input) VMCS_EXIT_INFO_IDT_VECTORING :: nat where "VMCS_EXIT_INFO_IDT_VECTORING \<equiv> 34"
abbreviation (input) VMCS_EXIT_INFO_IDT_VECTORING_ERROR_CODE :: nat where "VMCS_EXIT_INFO_IDT_VECTORING_ERROR_CODE \<equiv> 35"
abbreviation (input) VMCS_EXIT_INFO_INSTRUCTION_LENGTH :: nat where "VMCS_EXIT_INFO_INSTRUCTION_LENGTH \<equiv> 36"
abbreviation (input) VMCS_EXIT_INFO_INSTRUCTION_INFO :: nat where "VMCS_EXIT_INFO_INSTRUCTION_INFO \<equiv> 37"
abbreviation (input) VMCS_EXIT_INFO_QUALIFICATION :: nat where "VMCS_EXIT_INFO_QUALIFICATION \<equiv> 38"
abbreviation (input) VMCS_EXIT_INFO_IO_RCX :: nat where "VMCS_EXIT_INFO_IO_RCX \<equiv> 39"
abbreviation (input) VMCS_EXIT_INFO_IO_RSI :: nat where "VMCS_EXIT_INFO_IO_RSI \<equiv> 40"
abbreviation (input) VMCS_EXIT_INFO_IO_RDI :: nat where "VMCS_EXIT_INFO_IO_RDI \<equiv> 41"
abbreviation (input) VMCS_EXIT_INFO_IO_RIP :: nat where "VMCS_EXIT_INFO_IO_RIP \<equiv> 42"
abbreviation (input) VMCS_EXIT_INFO_GUEST_LINEAR_ADDRESS :: nat where "VMCS_EXIT_INFO_GUEST_LINEAR_ADDRESS \<equiv> 43"
abbreviation (input) VMCS_VIRTUAL_APIC_ADDRESS :: nat where "VMCS_VIRTUAL_APIC_ADDRESS \<equiv> 44"
abbreviation (input) VMCS_APIC_ACCESS_ADDRESS :: nat where "VMCS_APIC_ACCESS_ADDRESS \<equiv> 45"
abbreviation (input) VMCS_EXIT_TPR_THRESHOLD :: nat where "VMCS_EXIT_TPR_THRESHOLD \<equiv> 46"
abbreviation (input) VMCS_EPTP_ADDRESS :: nat where "VMCS_EPTP_ADDRESS \<equiv> 47"
abbreviation (input) VMCS_PREEMPTION_TIMER :: nat where "VMCS_PREEMPTION_TIMER \<equiv> 48"
abbreviation (input) VMCS_GUEST_CR0 :: nat where "VMCS_GUEST_CR0 \<equiv> 49"
abbreviation (input) VMCS_GUEST_CR3 :: nat where "VMCS_GUEST_CR3 \<equiv> 50"
abbreviation (input) VMCS_GUEST_CR4 :: nat where "VMCS_GUEST_CR4 \<equiv> 51"
abbreviation (input) VMCS_GUEST_DR7 :: nat where "VMCS_GUEST_DR7 \<equiv> 52"
abbreviation (input) VMCS_GUEST_ES_SELECTOR :: nat where "VMCS_GUEST_ES_SELECTOR \<equiv> 53"
abbreviation (input) VMCS_GUEST_ES_BASE :: nat where "VMCS_GUEST_ES_BASE \<equiv> 54"
abbreviation (input) VMCS_GUEST_ES_LIMIT :: nat where "VMCS_GUEST_ES_LIMIT \<equiv> 55"
abbreviation (input) VMCS_GUEST_ES_AR :: nat where "VMCS_GUEST_ES_AR \<equiv> 56"
abbreviation (input) VMCS_GUEST_CS_SELECTOR :: nat where "VMCS_GUEST_CS_SELECTOR \<equiv> 57"
abbreviation (input) VMCS_GUEST_CS_BASE :: nat where "VMCS_GUEST_CS_BASE \<equiv> 58"
abbreviation (input) VMCS_GUEST_CS_LIMIT :: nat where "VMCS_GUEST_CS_LIMIT \<equiv> 59"
abbreviation (input) VMCS_GUEST_CS_AR :: nat where "VMCS_GUEST_CS_AR \<equiv> 60"
abbreviation (input) VMCS_GUEST_SS_SELECTOR :: nat where "VMCS_GUEST_SS_SELECTOR \<equiv> 61"
abbreviation (input) VMCS_GUEST_SS_BASE :: nat where "VMCS_GUEST_SS_BASE \<equiv> 62"
abbreviation (input) VMCS_GUEST_SS_LIMIT :: nat where "VMCS_GUEST_SS_LIMIT \<equiv> 63"
abbreviation (input) VMCS_GUEST_SS_AR :: nat where "VMCS_GUEST_SS_AR \<equiv> 64"
abbreviation (input) VMCS_GUEST_DS_SELECTOR :: nat where "VMCS_GUEST_DS_SELECTOR \<equiv> 65"
abbreviation (input) VMCS_GUEST_DS_BASE :: nat where "VMCS_GUEST_DS_BASE \<equiv> 66"
abbreviation (input) VMCS_GUEST_DS_LIMIT :: nat where "VMCS_GUEST_DS_LIMIT \<equiv> 67"
abbreviation (input) VMCS_GUEST_DS_AR :: nat where "VMCS_GUEST_DS_AR \<equiv> 68"
abbreviation (input) VMCS_GUEST_FS_SELECTOR :: nat where "VMCS_GUEST_FS_SELECTOR \<equiv> 69"
abbreviation (input) VMCS_GUEST_FS_BASE :: nat where "VMCS_GUEST_FS_BASE \<equiv> 70"
abbreviation (input) VMCS_GUEST_FS_LIMIT :: nat where "VMCS_GUEST_FS_LIMIT \<equiv> 71"
abbreviation (input) VMCS_GUEST_FS_AR :: nat where "VMCS_GUEST_FS_AR \<equiv> 72"
abbreviation (input) VMCS_GUEST_GS_SELECTOR :: nat where "VMCS_GUEST_GS_SELECTOR \<equiv> 73"
abbreviation (input) VMCS_GUEST_GS_BASE :: nat where "VMCS_GUEST_GS_BASE \<equiv> 74"
abbreviation (input) VMCS_GUEST_GS_LIMIT :: nat where "VMCS_GUEST_GS_LIMIT \<equiv> 75"
abbreviation (input) VMCS_GUEST_GS_AR :: nat where "VMCS_GUEST_GS_AR \<equiv> 76"
abbreviation (input) VMCS_GUEST_LDTR_SELECTOR :: nat where "VMCS_GUEST_LDTR_SELECTOR \<equiv> 77"
abbreviation (input) VMCS_GUEST_LDTR_BASE :: nat where "VMCS_GUEST_LDTR_BASE \<equiv> 78"
abbreviation (input) VMCS_GUEST_LDTR_LIMIT :: nat where "VMCS_GUEST_LDTR_LIMIT \<equiv> 79"
abbreviation (input) VMCS_GUEST_LDTR_AR :: nat where "VMCS_GUEST_LDTR_AR \<equiv> 80"
abbreviation (input) VMCS_GUEST_TR_SELECTOR :: nat where "VMCS_GUEST_TR_SELECTOR \<equiv> 81"
abbreviation (input) VMCS_GUEST_TR_BASE :: nat where "VMCS_GUEST_TR_BASE \<equiv> 82"
abbreviation (input) VMCS_GUEST_TR_LIMIT :: nat where "VMCS_GUEST_TR_LIMIT \<equiv> 83"
abbreviation (input) VMCS_GUEST_TR_AR :: nat where "VMCS_GUEST_TR_AR \<equiv> 84"
abbreviation (input) VMCS_GUEST_GDTR_BASE :: nat where "VMCS_GUEST_GDTR_BASE \<equiv> 85"
abbreviation (input) VMCS_GUEST_GDTR_LIMIT :: nat where "VMCS_GUEST_GDTR_LIMIT \<equiv> 86"
abbreviation (input) VMCS_GUEST_IDTR_BASE :: nat where "VMCS_GUEST_IDTR_BASE \<equiv> 87"
abbreviation (input) VMCS_GUEST_IDTR_LIMIT :: nat where "VMCS_GUEST_IDTR_LIMIT \<equiv> 88"
abbreviation (input) VMCS_GUEST_RSP :: nat where "VMCS_GUEST_RSP \<equiv> 89"
abbreviation (input) VMCS_GUEST_RIP :: nat where "VMCS_GUEST_RIP \<equiv> 90"
abbreviation (input) VMCS_GUEST_RFLAGS :: nat where "VMCS_GUEST_RFLAGS \<equiv> 91"
abbreviation (input) VMCS_GUEST_PEND_DBE :: nat where "VMCS_GUEST_PEND_DBE \<equiv> 92"
abbreviation (input) VMCS_GUEST_WORKING_VMCS_PTR :: nat where "VMCS_GUEST_WORKING_VMCS_PTR \<equiv> 93"
abbreviation (input) VMCS_GUEST_DEBUG_CONTROL :: nat where "VMCS_GUEST_DEBUG_CONTROL \<equiv> 94"
abbreviation (input) VMCS_GUEST_INTERRUPTIBILITY :: nat where "VMCS_GUEST_INTERRUPTIBILITY \<equiv> 95"
abbreviation (input) VMCS_GUEST_SLEEP_STATE :: nat where "VMCS_GUEST_SLEEP_STATE \<equiv> 96"
abbreviation (input) VMCS_GUEST_SMBASE :: nat where "VMCS_GUEST_SMBASE \<equiv> 97"
abbreviation (input) VMCS_GUEST_SYSENTER_CS :: nat where "VMCS_GUEST_SYSENTER_CS \<equiv> 98"
abbreviation (input) VMCS_GUEST_SYSENTER_ESP :: nat where "VMCS_GUEST_SYSENTER_ESP \<equiv> 99"
abbreviation (input) VMCS_GUEST_SYSENTER_EIP :: nat where "VMCS_GUEST_SYSENTER_EIP \<equiv> 100"
abbreviation (input) VMCS_GUEST_PAT :: nat where "VMCS_GUEST_PAT \<equiv> 101"
abbreviation (input) VMCS_GUEST_EFER :: nat where "VMCS_GUEST_EFER \<equiv> 102"
abbreviation (input) VMCS_GUEST_IA32_PERF_GLOBAL_CTRL :: nat where "VMCS_GUEST_IA32_PERF_GLOBAL_CTRL \<equiv> 103"
abbreviation (input) VMCS_GUEST_PDPTR0 :: nat where "VMCS_GUEST_PDPTR0 \<equiv> 104"
abbreviation (input) VMCS_GUEST_PDPTR1 :: nat where "VMCS_GUEST_PDPTR1 \<equiv> 105"
abbreviation (input) VMCS_GUEST_PDPTR2 :: nat where "VMCS_GUEST_PDPTR2 \<equiv> 106"
abbreviation (input) VMCS_GUEST_PDPTR3 :: nat where "VMCS_GUEST_PDPTR3 \<equiv> 107"
abbreviation (input) VMCS_HOST_CR0 :: nat where "VMCS_HOST_CR0 \<equiv> 108"
abbreviation (input) VMCS_HOST_CR3 :: nat where "VMCS_HOST_CR3 \<equiv> 109"
abbreviation (input) VMCS_HOST_CR4 :: nat where "VMCS_HOST_CR4 \<equiv> 110"
abbreviation (input) VMCS_HOST_ES_SELECTOR :: nat where "VMCS_HOST_ES_SELECTOR \<equiv> 111"
abbreviation (input) VMCS_HOST_CS_SELECTOR :: nat where "VMCS_HOST_CS_SELECTOR \<equiv> 112"
abbreviation (input) VMCS_HOST_SS_SELECTOR :: nat where "VMCS_HOST_SS_SELECTOR \<equiv> 113"
abbreviation (input) VMCS_HOST_DS_SELECTOR :: nat where "VMCS_HOST_DS_SELECTOR \<equiv> 114"
abbreviation (input) VMCS_HOST_FS_SELECTOR :: nat where "VMCS_HOST_FS_SELECTOR \<equiv> 115"
abbreviation (input) VMCS_HOST_FS_BASE :: nat where "VMCS_HOST_FS_BASE \<equiv> 116"
abbreviation (input) VMCS_HOST_GS_SELECTOR :: nat where "VMCS_HOST_GS_SELECTOR \<equiv> 117"
abbreviation (input) VMCS_HOST_GS_BASE :: nat where "VMCS_HOST_GS_BASE \<equiv> 118"
abbreviation (input) VMCS_HOST_TR_SELECTOR :: nat where "VMCS_HOST_TR_SELECTOR \<equiv> 119"
abbreviation (input) VMCS_HOST_TR_BASE :: nat where "VMCS_HOST_TR_BASE \<equiv> 120"
abbreviation (input) VMCS_HOST_GDTR_BASE :: nat where "VMCS_HOST_GDTR_BASE \<equiv> 121"
abbreviation (input) VMCS_HOST_IDTR_BASE :: nat where "VMCS_HOST_IDTR_BASE \<equiv> 122"
abbreviation (input) VMCS_HOST_RSP :: nat where "VMCS_HOST_RSP \<equiv> 123"
abbreviation (input) VMCS_HOST_RIP :: nat where "VMCS_HOST_RIP \<equiv> 124"
abbreviation (input) VMCS_HOST_SYSENTER_CS :: nat where "VMCS_HOST_SYSENTER_CS \<equiv> 125"
abbreviation (input) VMCS_HOST_SYSENTER_ESP :: nat where "VMCS_HOST_SYSENTER_ESP \<equiv> 126"
abbreviation (input) VMCS_HOST_SYSENTER_EIP :: nat where "VMCS_HOST_SYSENTER_EIP \<equiv> 127"
abbreviation (input) VMCS_HOST_PAT :: nat where "VMCS_HOST_PAT \<equiv> 128"
abbreviation (input) VMCS_HOST_EFER :: nat where "VMCS_HOST_EFER \<equiv> 129"
abbreviation (input) VMCS_HOST_IA32_PERF_GLOBAL_CTRL :: nat where "VMCS_HOST_IA32_PERF_GLOBAL_CTRL \<equiv> 130"
abbreviation (input) VMCS_CR3_TARGET_VALUE_0 :: nat where "VMCS_CR3_TARGET_VALUE_0 \<equiv> 131"
abbreviation (input) VMCS_CR3_TARGET_VALUE_1 :: nat where "VMCS_CR3_TARGET_VALUE_1 \<equiv> 132"
abbreviation (input) VMCS_CR3_TARGET_VALUE_2 :: nat where "VMCS_CR3_TARGET_VALUE_2 \<equiv> 133"
abbreviation (input) VMCS_CR3_TARGET_VALUE_3 :: nat where "VMCS_CR3_TARGET_VALUE_3 \<equiv> 134"
abbreviation (input) VMCS_VE_INFO_ADDRESS :: nat where "VMCS_VE_INFO_ADDRESS \<equiv> 135"
abbreviation (input) VMCS_FIELD_COUNT :: nat where "VMCS_FIELD_COUNT \<equiv> 136"

section \<open>Encodings\<close>

abbreviation (input) VM_X_VPID :: nat where "VM_X_VPID \<equiv> 0x0000"
abbreviation (input) VM_X_EPTP_INDEX :: nat where "VM_X_EPTP_INDEX \<equiv> 0x0004"
abbreviation (input) VM_X_CONTROL_VECTOR_PIN_EVENTS :: nat where "VM_X_CONTROL_VECTOR_PIN_EVENTS \<equiv> 0x4000"
abbreviation (input) VM_X_CONTROL_VECTOR_PROCESSOR_EVENTS :: nat where "VM_X_CONTROL_VECTOR_PROCESSOR_EVENTS \<equiv> 0x4002"
abbreviation (input) VM_X_CONTROL2_VECTOR_PROCESSOR_EVENTS :: nat where "VM_X_CONTROL2_VECTOR_PROCESSOR_EVENTS \<equiv> 0x401E"
abbreviation (input) VM_X_EXCEPTION_BITMAP :: nat where "VM_X_EXCEPTION_BITMAP \<equiv> 0x4004"
abbreviation (input) VM_X_CR3_TARGET_COUNT :: nat where "VM_X_CR3_TARGET_COUNT \<equiv> 0x400A"
abbreviation (input) VM_X_CR0_MASK :: nat where "VM_X_CR0_MASK \<equiv> 0x6000"
abbreviation (input) VM_X_CR4_MASK :: nat where "VM_X_CR4_MASK \<equiv> 0x6002"
abbreviation (input) VM_X_CR0_READ_SHADOW :: nat where "VM_X_CR0_READ_SHADOW \<equiv> 0x6004"
abbreviation (input) VM_X_CR4_READ_SHADOW :: nat where "VM_X_CR4_READ_SHADOW \<equiv> 0x6006"
abbreviation (input) VM_X_PAGE_FAULT_ERROR_CODE_MASK :: nat where "VM_X_PAGE_FAULT_ERROR_CODE_MASK \<equiv> 0x4006"
abbreviation (input) VM_X_PAGE_FAULT_ERROR_CODE_MATCH :: nat where "VM_X_PAGE_FAULT_ERROR_CODE_MATCH \<equiv> 0x4008"
abbreviation (input) VM_EXIT_CONTROL_VECTOR :: nat where "VM_EXIT_CONTROL_VECTOR \<equiv> 0x400C"
abbreviation (input) VM_EXIT_MSR_STORE_COUNT :: nat where "VM_EXIT_MSR_STORE_COUNT \<equiv> 0x400E"
abbreviation (input) VM_EXIT_MSR_LOAD_COUNT :: nat where "VM_EXIT_MSR_LOAD_COUNT \<equiv> 0x4010"
abbreviation (input) VM_ENTER_CONTROL_VECTOR :: nat where "VM_ENTER_CONTROL_VECTOR \<equiv> 0x4012"
abbreviation (input) VM_ENTER_INTERRUPT_INFO :: nat where "VM_ENTER_INTERRUPT_INFO \<equiv> 0x4016"
abbreviation (input) VM_ENTER_EXCEPTION_ERROR_CODE :: nat where "VM_ENTER_EXCEPTION_ERROR_CODE \<equiv> 0x4018"
abbreviation (input) VM_ENTER_INSTRUCTION_LENGTH :: nat where "VM_ENTER_INSTRUCTION_LENGTH \<equiv> 0x401A"
abbreviation (input) VM_ENTER_MSR_LOAD_COUNT :: nat where "VM_ENTER_MSR_LOAD_COUNT \<equiv> 0x4014"
abbreviation (input) VM_X_IO_BITMAP_ADDRESS_A :: nat where "VM_X_IO_BITMAP_ADDRESS_A \<equiv> 0x2000"
abbreviation (input) VM_X_IO_BITMAP_ADDRESS_B :: nat where "VM_X_IO_BITMAP_ADDRESS_B \<equiv> 0x2002"
abbreviation (input) VM_X_MSR_BITMAP_ADDRESS :: nat where "VM_X_MSR_BITMAP_ADDRESS \<equiv> 0x2004"
abbreviation (input) VM_EXIT_MSR_STORE_ADDRESS :: nat where "VM_EXIT_MSR_STORE_ADDRESS \<equiv> 0x2006"
abbreviation (input) VM_EXIT_MSR_LOAD_ADDRESS :: nat where "VM_EXIT_MSR_LOAD_ADDRESS \<equiv> 0x2008"
abbreviation (input) VM_ENTER_MSR_LOAD_ADDRESS :: nat where "VM_ENTER_MSR_LOAD_ADDRESS \<equiv> 0x200A"
abbreviation (input) VM_X_OSV_CONTROLLING_VMCS_ADDRESS :: nat where "VM_X_OSV_CONTROLLING_VMCS_ADDRESS \<equiv> 0x200C"
abbreviation (input) VM_X_TSC_OFFSET :: nat where "VM_X_TSC_OFFSET \<equiv> 0x2010"
abbreviation (input) VM_EXIT_PHYSICAL_ADDRESS :: nat where "VM_EXIT_PHYSICAL_ADDRESS \<equiv> 0x2400"
abbreviation (input) VM_EXIT_INFO_INSTRUCTION_ERROR_CODE :: nat where "VM_EXIT_INFO_INSTRUCTION_ERROR_CODE \<equiv> 0x4400"
abbreviation (input) VM_EXIT_INFO_REASON :: nat where "VM_EXIT_INFO_REASON \<equiv> 0x4402"
abbreviation (input) VM_EXIT_INFO_EXCEPTION_INFO :: nat where "VM_EXIT_INFO_EXCEPTION_INFO \<equiv> 0x4404"
abbreviation (input) VM_EXIT_INFO_EXCEPTION_ERROR_CODE :: nat where "VM_EXIT_INFO_EXCEPTION_ERROR_CODE \<equiv> 0x4406"
abbreviation (input) VM_EXIT_INFO_IDT_VECTORING :: nat where "VM_EXIT_INFO_IDT_VECTORING \<equiv> 0x4408"
abbreviation (input) VM_EXIT_INFO_IDT_VECTORING_ERROR_CODE :: nat where "VM_EXIT_INFO_IDT_VECTORING_ERROR_CODE \<equiv> 0x440A"
abbreviation (input) VM_EXIT_INFO_INSTRUCTION_LENGTH :: nat where "VM_EXIT_INFO_INSTRUCTION_LENGTH \<equiv> 0x440C"
abbreviation (input) VM_EXIT_INFO_INSTRUCTION_INFO :: nat where "VM_EXIT_INFO_INSTRUCTION_INFO \<equiv> 0x440E"
abbreviation (input) VM_EXIT_INFO_QUALIFICATION :: nat where "VM_EXIT_INFO_QUALIFICATION \<equiv> 0x6400"
abbreviation (input) VM_EXIT_INFO_IO_RCX :: nat where "VM_EXIT_INFO_IO_RCX \<equiv> 0x6402"
abbreviation (input) VM_EXIT_INFO_IO_RSI :: nat where "VM_EXIT_INFO_IO_RSI \<equiv> 0x6404"
abbreviation (input) VM_EXIT_INFO_IO_RDI :: nat where "VM_EXIT_INFO_IO_RDI \<equiv> 0x6406"
abbreviation (input) VM_EXIT_INFO_IO_RIP :: nat where "VM_EXIT_INFO_IO_RIP \<equiv> 0x6408"
abbreviation (input) VM_EXIT_INFO_GUEST_LINEAR_ADDRESS :: nat where "VM_EXIT_INFO_GUEST_LINEAR_ADDRESS \<equiv> 0x640A"
abbreviation (input) VM_X_VIRTUAL_APIC_ADDRESS :: nat where "VM_X_VIRTUAL_APIC_ADDRESS \<equiv> 0x2012"
abbreviation (input) VM_X_APIC_ACCESS_ADDRESS :: nat where "VM_X_APIC_ACCESS_ADDRESS \<equiv> 0x2014"
abbreviation (input) VM_EXIT_TPR_THRESHOLD :: nat where "VM_EXIT_TPR_THRESHOLD \<equiv> 0x401C"
abbreviation (input) VM_X_EPTP_ADDRESS :: nat where "VM_X_EPTP_ADDRESS \<equiv> 0x201A"
abbreviation (input) VM_X_PREEMTION_TIMER :: nat where "VM_X_PREEMTION_TIMER \<equiv> 0x482E"
abbreviation (input) GUEST_CR0 :: nat where "GUEST_CR0 \<equiv> 0x6800"
abbreviation (input) GUEST_CR3 :: nat where "GUEST_CR3 \<equiv> 0x6802"
abbreviation (input) GUEST_CR4 :: nat where "GUEST_CR4 \<equiv> 0x6804"
abbreviation (input) GUEST_DR7 :: nat where "GUEST_DR7 \<equiv> 0x681A"
abbreviation (input) GUEST_ES_SELECTOR :: nat where "GUEST_ES_SELECTOR \<equiv> 0x0800"
abbreviation (input) GUEST_ES_BASE :: nat where "GUEST_ES_BASE \<equiv> 0x6806"
abbreviation (input) GUEST_ES_LIMIT :: nat where "GUEST_ES_LIMIT \<equiv> 0x4800"
abbreviation (input) GUEST_ES_AR :: nat where "GUEST_ES_AR \<equiv> 0x4814"
abbreviation (input) GUEST_CS_SELECTOR :: nat where "GUEST_CS_SELECTOR \<equiv> 0x0802"
abbreviation (input) GUEST_CS_BASE :: nat where "GUEST_CS_BASE \<equiv> 0x6808"
abbreviation (input) GUEST_CS_LIMIT :: nat where "GUEST_CS_LIMIT \<equiv> 0x4802"
abbreviation (input) GUEST_CS_AR :: nat where "GUEST_CS_AR \<equiv> 0x4816"
abbreviation (input) GUEST_SS_SELECTOR :: nat where "GUEST_SS_SELECTOR \<equiv> 0x0804"
abbreviation (input) GUEST_SS_BASE :: nat where "GUEST_SS_BASE \<equiv> 0x680A"
abbreviation (input) GUEST_SS_LIMIT :: nat where "GUEST_SS_LIMIT \<equiv> 0x4804"
abbreviation (input) GUEST_SS_AR :: nat where "GUEST_SS_AR \<equiv> 0x4818"
abbreviation (input) GUEST_DS_SELECTOR :: nat where "GUEST_DS_SELECTOR \<equiv> 0x0806"
abbreviation (input) GUEST_DS_BASE :: nat where "GUEST_DS_BASE \<equiv> 0x680C"
abbreviation (input) GUEST_DS_LIMIT :: nat where "GUEST_DS_LIMIT \<equiv> 0x4806"
abbreviation (input) GUEST_DS_AR :: nat where "GUEST_DS_AR \<equiv> 0x481A"
abbreviation (input) GUEST_FS_SELECTOR :: nat where "GUEST_FS_SELECTOR \<equiv> 0x0808"
abbreviation (input) GUEST_FS_BASE :: nat where "GUEST_FS_BASE \<equiv> 0x680E"
abbreviation (input) GUEST_FS_LIMIT :: nat where "GUEST_FS_LIMIT \<equiv> 0x4808"
abbreviation (input) GUEST_FS_AR :: nat where "GUEST_FS_AR \<equiv> 0x481C"
abbreviation (input) GUEST_GS_SELECTOR :: nat where "GUEST_GS_SELECTOR \<equiv> 0x080A"
abbreviation (input) GUEST_GS_BASE :: nat where "GUEST_GS_BASE \<equiv> 0x6810"
abbreviation (input) GUEST_GS_LIMIT :: nat where "GUEST_GS_LIMIT \<equiv> 0x480A"
abbreviation (input) GUEST_GS_AR :: nat where "GUEST_GS_AR \<equiv> 0x481E"
abbreviation (input) GUEST_LDTR_SELECTOR :: nat where "GUEST_LDTR_SELECTOR \<equiv> 0x080C"
abbreviation (input) GUEST_LDTR_BASE :: nat where "GUEST_LDTR_BASE \<equiv> 0x6812"
abbreviation (input) GUEST_LDTR_LIMIT :: nat where "GUEST_LDTR_LIMIT \<equiv> 0x480C"
abbreviation (input) GUEST_LDTR_AR :: nat where "GUEST_LDTR_AR \<equiv> 0x4820"
abbreviation (input) GUEST_TR_SELECTOR :: nat where "GUEST_TR_SELECTOR \<equiv> 0x080E"
abbreviation (input) GUEST_TR_BASE :: nat where "GUEST_TR_BASE \<equiv> 0x6814"
abbreviation (input) GUEST_TR_LIMIT :: nat where "GUEST_TR_LIMIT \<equiv> 0x480E"
abbreviation (input) GUEST_TR_AR :: nat where "GUEST_TR_AR \<equiv> 0x4822"
abbreviation (input) GUEST_GDTR_BASE :: nat where "GUEST_GDTR_BASE \<equiv> 0x6816"
abbreviation (input) GUEST_GDTR_LIMIT :: nat where "GUEST_GDTR_LIMIT \<equiv> 0x4810"
abbreviation (input) GUEST_IDTR_BASE :: nat where "GUEST_IDTR_BASE \<equiv> 0x6818"
abbreviation (input) GUEST_IDTR_LIMIT :: nat where "GUEST_IDTR_LIMIT \<equiv> 0x4812"
abbreviation (input) GUEST_ESP :: nat where "GUEST_ESP \<equiv> 0x681C"
abbreviation (input) GUEST_EIP :: nat where "GUEST_EIP \<equiv> 0x681E"
abbreviation (input) GUEST_EFLAGS :: nat where "GUEST_EFLAGS \<equiv> 0x6820"
abbreviation (input) GUEST_PEND_DBE :: nat where "GUEST_PEND_DBE \<equiv> 0x6822"
abbreviation (input) GUEST_WORKING_VMCS_PTR :: nat where "GUEST_WORKING_VMCS_PTR \<equiv> 0x2800"
abbreviation (input) GUEST_DEBUG_CONTROL :: nat where "GUEST_DEBUG_CONTROL \<equiv> 0x2802"
abbreviation (input) GUEST_INTERRUPTIBILITY :: nat where "GUEST_INTERRUPTIBILITY \<equiv> 0x4824"
abbreviation (input) GUEST_SLEEP_STATE :: nat where "GUEST_SLEEP_STATE \<equiv> 0x4826"
abbreviation (input) GUEST_SMBASE :: nat where "GUEST_SMBASE \<equiv> 0x4828"
abbreviation (input) GUEST_SYSENTER_CS :: nat where "GUEST_SYSENTER_CS \<equiv> 0x482A"
abbreviation (input) GUEST_SYSENTER_ESP :: nat where "GUEST_SYSENTER_ESP \<equiv> 0x6824"
abbreviation (input) GUEST_SYSENTER_EIP :: nat where "GUEST_SYSENTER_EIP \<equiv> 0x6826"
abbreviation (input) GUEST_PAT :: nat where "GUEST_PAT \<equiv> 0x2804"
abbreviation (input) GUEST_EFER :: nat where "GUEST_EFER \<equiv> 0x2806"
abbreviation (input) GUEST_IA32_PERF_GLOBAL_CTRL :: nat where "GUEST_IA32_PERF_GLOBAL_CTRL \<equiv> 0x2808"
abbreviation (input) GUEST_PDPTR0 :: nat where "GUEST_PDPTR0 \<equiv> 0x280A"
abbreviation (input) GUEST_PDPTR1 :: nat where "GUEST_PDPTR1 \<equiv> 0x280C"
abbreviation (input) GUEST_PDPTR2 :: nat where "GUEST_PDPTR2 \<equiv> 0x280E"
abbreviation (input) GUEST_PDPTR3 :: nat where "GUEST_PDPTR3 \<equiv> 0x2810"
abbreviation (input) HOST_CR0 :: nat where "HOST_CR0 \<equiv> 0x6C00"
abbreviation (input) HOST_CR3 :: nat where "HOST_CR3 \<equiv> 0x6C02"
abbreviation (input) HOST_CR4 :: nat where "HOST_CR4 \<equiv> 0x6C04"
abbreviation (input) HOST_ES_SELECTOR :: nat where "HOST_ES_SELECTOR \<equiv> 0x0C00"
abbreviation (input) HOST_CS_SELECTOR :: nat where "HOST_CS_SELECTOR \<equiv> 0x0C02"
abbreviation (input) HOST_SS_SELECTOR :: nat where "HOST_SS_SELECTOR \<equiv> 0x0C04"
abbreviation (input) HOST_DS_SELECTOR :: nat where "HOST_DS_SELECTOR \<equiv> 0x0C06"
abbreviation (input) HOST_FS_SELECTOR :: nat where "HOST_FS_SELECTOR \<equiv> 0x0C08"
abbreviation (input) HOST_FS_BASE :: nat where "HOST_FS_BASE \<equiv> 0x6C06"
abbreviation (input) HOST_GS_SELECTOR :: nat where "HOST_GS_SELECTOR \<equiv> 0x0C0A"
abbreviation (input) HOST_GS_BASE :: nat where "HOST_GS_BASE \<equiv> 0x6C08"
abbreviation (input) HOST_TR_SELECTOR :: nat where "HOST_TR_SELECTOR \<equiv> 0x0C0C"
abbreviation (input) HOST_TR_BASE :: nat where "HOST_TR_BASE \<equiv> 0x6C0A"
abbreviation (input) HOST_GDTR_BASE :: nat where "HOST_GDTR_BASE \<equiv> 0x6C0C"
abbreviation (input) HOST_IDTR_BASE :: nat where "HOST_IDTR_BASE \<equiv> 0x6C0E"
abbreviation (input) HOST_ESP :: nat where "HOST_ESP \<equiv> 0x6C14"
abbreviation (input) HOST_EIP :: nat where "HOST_EIP \<equiv> 0x6C16"
abbreviation (input) HOST_SYSENTER_CS :: nat where "HOST_SYSENTER_CS \<equiv> 0x4C00"
abbreviation (input) HOST_SYSENTER_ESP :: nat where "HOST_SYSENTER_ESP \<equiv> 0x6C10"
abbreviation (input) HOST_SYSENTER_EIP :: nat where "HOST_SYSENTER_EIP \<equiv> 0x6C12"
abbreviation (input) HOST_PAT :: nat where "HOST_PAT \<equiv> 0x2C00"
abbreviation (input) HOST_EFER :: nat where "HOST_EFER \<equiv> 0x2C02"
abbreviation (input) HOST_IA32_PERF_GLOBAL_CTRL :: nat where "HOST_IA32_PERF_GLOBAL_CTRL \<equiv> 0x2C04"
abbreviation (input) VM_X_VE_INFO_ADDRESS :: nat where "VM_X_VE_INFO_ADDRESS \<equiv> 0x202A"
abbreviation (input) VMCS_NO_COMPONENT :: nat where "VMCS_NO_COMPONENT \<equiv> 0xFFFF"

abbreviation (input) VM_X_CR3_TARGET_VAL_BASE :: nat where "VM_X_CR3_TARGET_VAL_BASE \<equiv> 0x6008"

definition VM_X_CR3_TARGET_VALUE :: "nat \<Rightarrow> nat" where
  "VM_X_CR3_TARGET_VALUE x = VM_X_CR3_TARGET_VAL_BASE + x * 2"

section \<open>The description of the fields\<close>

abbreviation (input) VMCS_NOT_EXISTS :: nat where "VMCS_NOT_EXISTS \<equiv> 0"
abbreviation (input) VMCS_READABLE :: nat where "VMCS_READABLE \<equiv> 1"
abbreviation (input) VMCS_WRITABLE :: nat where "VMCS_WRITABLE \<equiv> 2"
abbreviation (input) VMCS_WRITABLE_IN_CACHE :: nat where "VMCS_WRITABLE_IN_CACHE \<equiv> 4"

abbreviation (input) NO_EXIST :: nat where "NO_EXIST \<equiv> VMCS_NOT_EXISTS"
abbreviation (input) READONLY :: nat where "READONLY \<equiv> VMCS_READABLE"
abbreviation (input) WRITABLE :: nat where "WRITABLE \<equiv> 3"
abbreviation (input) WRITABLE_IN_CACHE :: nat where "WRITABLE_IN_CACHE \<equiv> 5"

abbreviation (input) FULL_ENC_ONLY :: nat where "FULL_ENC_ONLY \<equiv> 0"
abbreviation (input) SUPP_HIGH_ENC :: nat where "SUPP_HIGH_ENC \<equiv> 1"

record vmcs_encoding =
  encoding :: nat
  access :: nat
  supports_high_encoding :: nat

definition field_entry :: "nat \<Rightarrow> nat \<Rightarrow> nat \<Rightarrow> vmcs_encoding" where
  "field_entry e a h = \<lparr> encoding = e, access = a, supports_high_encoding = h \<rparr>"

definition g_field_data :: "vmcs_encoding list" where
  "g_field_data =
     [field_entry VM_X_VPID NO_EXIST FULL_ENC_ONLY,
      field_entry VM_X_EPTP_INDEX NO_EXIST FULL_ENC_ONLY,
      field_entry VM_X_CONTROL_VECTOR_PIN_EVENTS WRITABLE FULL_ENC_ONLY,
      field_entry VM_X_CONTROL_VECTOR_PROCESSOR_EVENTS WRITABLE FULL_ENC_ONLY,
      field_entry VM_X_CONTROL2_VECTOR_PROCESSOR_EVENTS WRITABLE FULL_ENC_ONLY,
      field_entry VM_X_EXCEPTION_BITMAP WRITABLE FULL_ENC_ONLY,
      field_entry VM_X_CR3_TARGET_COUNT WRITABLE FULL_ENC_ONLY,
      field_entry VM_X_CR0_MASK WRITABLE FULL_ENC_ONLY,
      field_entry VM_X_CR4_MASK WRITABLE FULL_ENC_ONLY,
      field_entry VM_X_CR0_READ_SHADOW WRITABLE FULL_ENC_ONLY,
      field_entry VM_X_CR4_READ_SHADOW WRITABLE FULL_ENC_ONLY,
      field_entry VM_X_PAGE_FAULT_ERROR_CODE_MASK WRITABLE FULL_ENC_ONLY,
      field_entry VM_X_PAGE_FAULT_ERROR_CODE_MATCH WRITABLE FULL_ENC_ONLY,
      field_entry VM_EXIT_CONTROL_VECTOR WRITABLE FULL_ENC_ONLY,
      field_entry VM_EXIT_MSR_STORE_COUNT WRITABLE FULL_ENC_ONLY,
      field_entry VM_EXIT_MSR_LOAD_COUNT WRITABLE FULL_ENC_ONLY,
      field_entry VM_ENTER_CONTROL_VECTOR WRITABLE FULL_ENC_ONLY,
      field_entry VM_ENTER_INTERRUPT_INFO WRITABLE FULL_ENC_ONLY,
      field_entry VM_ENTER_EXCEPTION_ERROR_CODE WRITABLE FULL_ENC_ONLY,
      field_entry VM_ENTER_INSTRUCTION_LENGTH WRITABLE FULL_ENC_ONLY,
      field_entry VM_ENTER_MSR_LOAD_COUNT WRITABLE FULL_ENC_ONLY,
      field_entry VM_X_IO_BITMAP_ADDRESS_A WRITABLE SUPP_HIGH_ENC,
      field_entry VM_X_IO_BITMAP_ADDRESS_B WRITABLE SUPP_HIGH_ENC,
      field_entry VM_X_MSR_BITMAP_ADDRESS WRITABLE SUPP_HIGH_ENC,
      field_entry VM_EXIT_MSR_STORE_ADDRESS WRITABLE SUPP_HIGH_ENC,
      field_entry VM_EXIT_MSR_LOAD_ADDRESS WRITABLE SUPP_HIGH_ENC,
      field_entry VM_ENTER_MSR_LOAD_ADDRESS WRITABLE SUPP_HIGH_ENC,
      field_entry VM_X_OSV_CONTROLLING_VMCS_ADDRESS WRITABLE SUPP_HIGH_ENC,
      field_entry VM_X_TSC_OFFSET WRITABLE SUPP_HIGH_ENC,
      field_entry VM_EXIT_PHYSICAL_ADDRESS NO_EXIST SUPP_HIGH_ENC,
      field_entry VM_EXIT_INFO_INSTRUCTION_ERROR_CODE READONLY FULL_ENC_ONLY,
      field_entry VM_EXIT_INFO_REASON READONLY FULL_ENC_ONLY,
      field_entry VM_EXIT_INFO_EXCEPTION_INFO READONLY FULL_ENC_ONLY,
      field_entry VM_EXIT_INFO_EXCEPTION_ERROR_CODE READONLY FULL_ENC_ONLY,
      field_entry VM_EXIT_INFO_IDT_VECTORING WRITABLE_IN_CACHE FULL_ENC_ONLY,
      field_entry VM_EXIT_INFO_IDT_VECTORING_ERROR_CODE READONLY FULL_ENC_ONLY,
      field_entry VM_EXIT_INFO_INSTRUCTION_LENGTH READONLY FULL_ENC_ONLY,
      field_entry VM_EXIT_INFO_INSTRUCTION_INFO READONLY FULL_ENC_ONLY,
      field_entry VM_EXIT_INFO_QUALIFICATION READONLY FULL_ENC_ONLY,
      field_entry VM_EXIT_INFO_IO_RCX READONLY FULL_ENC_ONLY,
      field_entry VM_EXIT_INFO_IO_RSI READONLY FULL_ENC_ONLY,
      field_entry VM_EXIT_INFO_IO_RDI READONLY FULL_ENC_ONLY,
      field_entry VM_EXIT_INFO_IO_RIP READONLY FULL_ENC_ONLY,
      field_entry VM_EXIT_INFO_GUEST_LINEAR_ADDRESS READONLY FULL_ENC_ONLY,
      field_entry VM_X_VIRTUAL_APIC_ADDRESS WRITABLE SUPP_HIGH_ENC,
      field_entry VM_X_APIC_ACCESS_ADDRESS WRITABLE SUPP_HIGH_ENC,
      field_entry VM_EXIT_TPR_THRESHOLD WRITABLE FULL_ENC_ONLY,
      field_entry VM_X_EPTP_ADDRESS NO_EXIST SUPP_HIGH_ENC,
      field_entry VM_X_PREEMTION_TIMER NO_EXIST FULL_ENC_ONLY,
      field_entry GUEST_CR0 WRITABLE FULL_ENC_ONLY,
      field_entry GUEST_CR3 WRITABLE FULL_ENC_ONLY,
      field_entry GUEST_CR4 WRITABLE FULL_ENC_ONLY,
      field_entry GUEST_DR7 WRITABLE FULL_ENC_ONLY,
      field_entry GUEST_ES_SELECTOR WRITABLE FULL_ENC_ONLY,
      field_entry GUEST_ES_BASE WRITABLE FULL_ENC_ONLY,
      field_entry GUEST_ES_LIMIT WRITABLE FULL_ENC_ONLY,
      field_entry GUEST_ES_AR WRITABLE FULL_ENC_ONLY,
      field_entry GUEST_CS_SELECTOR WRITABLE FULL_ENC_ONLY,
      field_entry GUEST_CS_BASE WRITABLE FULL_ENC_ONLY,
      field_entry GUEST_CS_LIMIT WRITABLE FULL_ENC_ONLY,
      field_entry GUEST_CS_AR WRITABLE FULL_ENC_ONLY,
      field_entry GUEST_SS_SELECTOR WRITABLE FULL_ENC_ONLY,
      field_entry GUEST_SS_BASE WRITABLE FULL_ENC_ONLY,
      field_entry GUEST_SS_LIMIT WRITABLE FULL_ENC_ONLY,
      field_entry GUEST_SS_AR WRITABLE FULL_ENC_ONLY,
      field_entry GUEST_DS_SELECTOR WRITABLE FULL_ENC_ONLY,
      field_entry GUEST_DS_BASE WRITABLE FULL_ENC_ONLY,
      field_entry GUEST_DS_LIMIT WRITABLE FULL_ENC_ONLY,
      field_entry GUEST_DS_AR WRITABLE FULL_ENC_ONLY,
      field_entry GUEST_FS_SELECTOR WRITABLE FULL_ENC_ONLY,
      field_entry GUEST_FS_BASE WRITABLE FULL_ENC_ONLY,
      field_entry GUEST_FS_LIMIT WRITABLE FULL_ENC_ONLY,
      field_entry GUEST_FS_AR WRITABLE FULL_ENC_ONLY,
      field_entry GUEST_GS_SELECTOR WRITABLE FULL_ENC_ONLY,
      field_entry GUEST_GS_BASE WRITABLE FULL_ENC_ONLY,
      field_entry GUEST_GS_LIMIT WRITABLE FULL_ENC_ONLY,
      field_entry GUEST_GS_AR WRITABLE FULL_ENC_ONLY,
      field_entry GUEST_LDTR_SELECTOR WRITABLE FULL_ENC_ONLY,
      field_entry GUEST_LDTR_BASE WRITABLE FULL_ENC_ONLY,
      field_entry GUEST_LDTR_LIMIT WRITABLE FULL_ENC_ONLY,
      field_entry GUEST_LDTR_AR WRITABLE FULL_ENC_ONLY,
      field_entry GUEST_TR_SELECTOR WRITABLE FULL_ENC_ONLY,
      field_entry GUEST_TR_BASE WRITABLE FULL_ENC_ONLY,
      field_entry GUEST_TR_LIMIT WRITABLE FULL_ENC_ONLY,
      field_entry GUEST_TR_AR WRITABLE FULL_ENC_ONLY,
      field_entry GUEST_GDTR_BASE WRITABLE FULL_ENC_ONLY,
      field_entry GUEST_GDTR_LIMIT WRITABLE FULL_ENC_ONLY,
      field_entry GUEST_IDTR_BASE WRITABLE FULL_ENC_ONLY,
      field_entry GUEST_IDTR_LIMIT WRITABLE FULL_ENC_ONLY,
      field_entry GUEST_ESP WRITABLE FULL_ENC_ONLY,
      field_entry GUEST_EIP WRITABLE FULL_ENC_ONLY,
      field_entry GUEST_EFLAGS WRITABLE FULL_ENC_ONLY,
      field_entry GUEST_PEND_DBE WRITABLE FULL_ENC_ONLY,
      field_entry GUEST_WORKING_VMCS_PTR WRITABLE SUPP_HIGH_ENC,
      field_entry GUEST_DEBUG_CONTROL WRITABLE SUPP_HIGH_ENC,
      field_entry GUEST_INTERRUPTIBILITY WRITABLE FULL_ENC_ONLY,
      field_entry GUEST_SLEEP_STATE WRITABLE FULL_ENC_ONLY,
      field_entry GUEST_SMBASE WRITABLE FULL_ENC_ONLY,
      field_entry GUEST_SYSENTER_CS WRITABLE FULL_ENC_ONLY,
      field_entry GUEST_SYSENTER_ESP WRITABLE FULL_ENC_ONLY,
      field_entry GUEST_SYSENTER_EIP WRITABLE FULL_ENC_ONLY,
      field_entry GUEST_PAT NO_EXIST SUPP_HIGH_ENC,
      field_entry GUEST_EFER WRITABLE SUPP_HIGH_ENC,
      field_entry GUEST_IA32_PERF_GLOBAL_CTRL NO_EXIST SUPP_HIGH_ENC,
      field_entry GUEST_PDPTR0 NO_EXIST SUPP_HIGH_ENC,
      field_entry GUEST_PDPTR1 NO_EXIST SUPP_HIGH_ENC,
      field_entry GUEST_PDPTR2 NO_EXIST SUPP_HIGH_ENC,
      field_entry GUEST_PDPTR3 NO_EXIST SUPP_HIGH_ENC,
      field_entry HOST_CR0 WRITABLE FULL_ENC_ONLY,
      field_entry HOST_CR3 WRITABLE FULL_ENC_ONLY,
      field_entry HOST_CR4 WRITABLE FULL_ENC_ONLY,
      field_entry HOST_ES_SELECTOR WRITABLE FULL_ENC_ONLY,
      field_entry HOST_CS_SELECTOR WRITABLE FULL_ENC_ONLY,
      field_entry HOST_SS_SELECTOR WRITABLE FULL_ENC_ONLY,
      field_entry HOST_DS_SELECTOR WRITABLE FULL_ENC_ONLY,
      field_entry HOST_FS_SELECTOR WRITABLE FULL_ENC_ONLY,
      field_entry HOST_FS_BASE WRITABLE FULL_ENC_ONLY,
      field_entry HOST_GS_SELECTOR WRITABLE FULL_ENC_ONLY,
      field_entry HOST_GS_BASE WRITABLE FULL_ENC_ONLY,
      field_entry HOST_TR_SELECTOR WRITABLE FULL_ENC_ONLY,
      field_entry HOST_TR_BASE WRITABLE FULL_ENC_ONLY,
      field_entry HOST_GDTR_BASE WRITABLE FULL_ENC_ONLY,
      field_entry HOST_IDTR_BASE WRITABLE FULL_ENC_ONLY,
      field_entry HOST_ESP WRITABLE FULL_ENC_ONLY,
      field_entry HOST_EIP WRITABLE FULL_ENC_ONLY,
      field_entry HOST_SYSENTER_CS WRITABLE FULL_ENC_ONLY,
      field_entry HOST_SYSENTER_ESP WRITABLE FULL_ENC_ONLY,
      field_entry HOST_SYSENTER_EIP WRITABLE FULL_ENC_ONLY,
      field_entry HOST_PAT NO_EXIST SUPP_HIGH_ENC,
      field_entry HOST_EFER WRITABLE SUPP_HIGH_ENC,
      field_entry HOST_IA32_PERF_GLOBAL_CTRL NO_EXIST SUPP_HIGH_ENC,
      field_entry (VM_X_CR3_TARGET_VALUE 0) WRITABLE FULL_ENC_ONLY,
      field_entry (VM_X_CR3_TARGET_VALUE 1) WRITABLE FULL_ENC_ONLY,
      field_entry (VM_X_CR3_TARGET_VALUE 2) WRITABLE FULL_ENC_ONLY,
      field_entry (VM_X_CR3_TARGET_VALUE 3) WRITABLE FULL_ENC_ONLY,
      field_entry VM_X_VE_INFO_ADDRESS NO_EXIST SUPP_HIGH_ENC,
      field_entry VMCS_NO_COMPONENT NO_EXIST FULL_ENC_ONLY]"

text \<open>The table changes while the VMM starts, so the operations take it as the argument \<open>t\<close>.\<close>

definition field_access :: "vmcs_encoding list \<Rightarrow> nat \<Rightarrow> nat option" where
  "field_access t field_id = map_option access (arr_get t field_id)"

definition field_is_readable :: "vmcs_encoding list \<Rightarrow> nat \<Rightarrow> bool option" where
  "field_is_readable t field_id = do { a \<leftarrow> field_access t field_id; Some (a AND VMCS_READABLE \<noteq> 0) }"

definition field_is_writeable :: "vmcs_encoding list \<Rightarrow> nat \<Rightarrow> bool option" where
  "field_is_writeable t field_id =
     do { a \<leftarrow> field_access t field_id; Some (a AND (VMCS_WRITABLE OR VMCS_WRITABLE_IN_CACHE) \<noteq> 0) }"

definition vmcs_field_is_supported :: "vmcs_encoding list \<Rightarrow> nat \<Rightarrow> bool" where
  "vmcs_field_is_supported t field_id \<longleftrightarrow>
     field_id < VMCS_FIELD_COUNT \<and> field_id < length t - 1 \<and> access (t ! field_id) \<noteq> NO_EXIST"

text \<open>The access type is written only for a field of the table.\<close>

definition vmcs_get_field_encoding :: "vmcs_encoding list \<Rightarrow> nat \<Rightarrow> (nat \<times> nat option) option" where
  "vmcs_get_field_encoding t field_id =
     (if field_id < VMCS_FIELD_COUNT
      then do { e \<leftarrow> arr_get t field_id; Some (encoding e, Some (access e)) }
      else Some (VMCS_NO_COMPONENT, None))"

section \<open>Initialisation\<close>

text \<open>The capabilities that \<^verbatim>\<open>enable_vmcs_2_0_fields\<close> looks at.\<close>

record vmcs_hw_constraints =
  ept_supported :: bool
  vpid_supported :: bool
  ve_supported :: bool
  entry_load_efer :: bool
  entry_load_pat :: bool
  entry_load_perf_global_ctrl :: bool
  exit_save_efer :: bool
  exit_save_pat :: bool
  exit_load_efer :: bool
  exit_load_pat :: bool
  exit_load_perf_global_ctrl :: bool
  pin_vmx_timer :: bool

definition set_access :: "nat \<Rightarrow> nat \<Rightarrow> vmcs_encoding list \<Rightarrow> vmcs_encoding list" where
  "set_access a field_id t = t[field_id := (t ! field_id) \<lparr> access := a \<rparr>]"

definition enable_if :: "bool \<Rightarrow> nat list \<Rightarrow> vmcs_encoding list \<Rightarrow> vmcs_encoding list" where
  "enable_if c ids t = (if c then fold (set_access WRITABLE) ids t else t)"

definition enable_vmcs_2_0_fields :: "vmcs_hw_constraints \<Rightarrow> vmcs_encoding list \<Rightarrow> vmcs_encoding list" where
  "enable_vmcs_2_0_fields c t0 =
     (let t1 = enable_if (ept_supported c) [VMCS_EPTP_ADDRESS] t0;
          t2 = (if ept_supported c then set_access READONLY VMCS_EXIT_INFO_GUEST_PHYSICAL_ADDRESS t1 else t1);
          t3 = enable_if (ept_supported c)
                 [VMCS_GUEST_PDPTR0, VMCS_GUEST_PDPTR1, VMCS_GUEST_PDPTR2, VMCS_GUEST_PDPTR3] t2;
          t4 = enable_if (vpid_supported c) [VMCS_VPID] t3;
          t5 = enable_if (entry_load_efer c \<or> exit_save_efer c) [VMCS_GUEST_EFER] t4;
          t6 = enable_if (entry_load_pat c \<or> exit_save_pat c) [VMCS_GUEST_PAT] t5;
          t7 = enable_if (pin_vmx_timer c) [VMCS_PREEMPTION_TIMER] t6;
          t8 = enable_if (exit_load_efer c) [VMCS_HOST_EFER] t7;
          t9 = enable_if (exit_load_pat c) [VMCS_HOST_PAT] t8;
          t10 = enable_if (exit_load_perf_global_ctrl c) [VMCS_GUEST_IA32_PERF_GLOBAL_CTRL] t9;
          t11 = enable_if (entry_load_perf_global_ctrl c) [VMCS_HOST_IA32_PERF_GLOBAL_CTRL] t10
      in enable_if (ve_supported c) [VMCS_EPTP_INDEX, VMCS_VE_INFO_ADDRESS] t11)"

abbreviation (input) NUMBER_OF_ENCODING_TYPES :: nat where "NUMBER_OF_ENCODING_TYPES \<equiv> 16"
abbreviation (input) MAX_ENCODINGS_OF_SAME_TYPE :: nat where "MAX_ENCODINGS_OF_SAME_TYPE \<equiv> 32"
abbreviation (input) ENC_MUST_BE_ZERO_BITS :: nat where "ENC_MUST_BE_ZERO_BITS \<equiv> 0x9000"
abbreviation (input) ENC_M_BITS :: nat where "ENC_M_BITS \<equiv> 0x6000"
abbreviation (input) ENC_M_BITS_SHIFT :: nat where "ENC_M_BITS_SHIFT \<equiv> 11"
abbreviation (input) ENC_N_BITS :: nat where "ENC_N_BITS \<equiv> 0x0C00"
abbreviation (input) ENC_N_BITS_SHIFT :: nat where "ENC_N_BITS_SHIFT \<equiv> 10"
abbreviation (input) ENC_X_BITS :: nat where "ENC_X_BITS \<equiv> 0x03FE"
abbreviation (input) ENC_BITS_SHIFT :: nat where "ENC_BITS_SHIFT \<equiv> 1"
abbreviation (input) ENC_HIGH_TYPE_BIT :: nat where "ENC_HIGH_TYPE_BIT \<equiv> 0x1"

definition enc_type_from_encoding :: "nat \<Rightarrow> nat" where
  "enc_type_from_encoding enc =
     drop_bit ENC_M_BITS_SHIFT (enc AND ENC_M_BITS) OR drop_bit ENC_N_BITS_SHIFT (enc AND ENC_N_BITS)"

definition entry_idx_from_encoding :: "nat \<Rightarrow> nat" where
  "entry_idx_from_encoding enc = drop_bit ENC_BITS_SHIFT (enc AND ENC_X_BITS)"

definition is_encoding_high_type :: "nat \<Rightarrow> bool" where
  "is_encoding_high_type enc \<longleftrightarrow> enc AND ENC_HIGH_TYPE_BIT = ENC_HIGH_TYPE_BIT"

text \<open>An entry of the table is \<^verbatim>\<open>valid\<close> and \<^verbatim>\<open>field_id\<close>; a pointer to an entry is its pair of indices.\<close>

type_synonym enc_2_field_table = "(bool \<times> nat) list list"

definition enc_2_field_cleared :: enc_2_field_table where
  "enc_2_field_cleared =
     replicate NUMBER_OF_ENCODING_TYPES (replicate MAX_ENCODINGS_OF_SAME_TYPE (False, 0))"

definition get_enc_2_field_entry :: "nat \<Rightarrow> (nat \<times> nat) option" where
  "get_enc_2_field_entry enc =
     (let enc_type = enc_type_from_encoding enc; entry_idx = entry_idx_from_encoding enc
      in if enc AND ENC_MUST_BE_ZERO_BITS \<noteq> 0 then None
         else if enc_type \<ge> NUMBER_OF_ENCODING_TYPES then None
         else if entry_idx \<ge> MAX_ENCODINGS_OF_SAME_TYPE then None
         else Some (enc_type, entry_idx))"

text \<open>
  The loop over the fields.  \<open>p\<close> is the pointer \<^verbatim>\<open>enc_2_field_entry\<close>, which keeps its value when
  an encoding has no entry.
\<close>

function init_enc_2_field_loop ::
    "bool \<Rightarrow> vmcs_encoding list \<Rightarrow> nat \<Rightarrow> (nat \<times> nat) option \<Rightarrow> enc_2_field_table \<Rightarrow> enc_2_field_table option" where
  "init_enc_2_field_loop chk t cur_field p tbl =
     (if cur_field < VMCS_FIELD_COUNT
      then do {
        enc \<leftarrow> arr_get t cur_field;
        if access enc = NO_EXIST then init_enc_2_field_loop chk t (cur_field + 1) p tbl
        else do {
          let q = get_enc_2_field_entry (encoding enc);
          vmm_assert chk (q \<noteq> None);
          let p' = (if q \<noteq> None then q else p);
          (i, j) \<leftarrow> p';
          row \<leftarrow> arr_get tbl i;
          (valid, _) \<leftarrow> arr_get row j;
          vmm_assert chk (\<not> valid);
          row' \<leftarrow> arr_set row j (True, cur_field);
          tbl' \<leftarrow> arr_set tbl i row';
          init_enc_2_field_loop chk t (cur_field + 1) p' tbl'
        }
      }
      else Some tbl)"
  by pat_completeness auto
termination by (relation "measure (\<lambda>(chk, t, cur, p, tbl). VMCS_FIELD_COUNT - cur)") auto

declare init_enc_2_field_loop.simps [simp del]

definition init_enc_2_field_tables :: "bool \<Rightarrow> vmcs_encoding list \<Rightarrow> enc_2_field_table option" where
  "init_enc_2_field_tables chk t = init_enc_2_field_loop chk t 0 None enc_2_field_cleared"

definition vmcs_manager_init ::
    "bool \<Rightarrow> vmcs_hw_constraints \<Rightarrow> vmcs_encoding list \<Rightarrow> (vmcs_encoding list \<times> enc_2_field_table) option" where
  "vmcs_manager_init chk c t = do {
     let t' = enable_vmcs_2_0_fields c t;
     tbl \<leftarrow> init_enc_2_field_tables chk t';
     Some (t', tbl)
   }"

text \<open>The result is the field and, for a known encoding, the value that is stored in \<^verbatim>\<open>is_HIGH_part\<close>.\<close>

definition vmcs_get_field_id_by_encoding ::
    "vmcs_encoding list \<Rightarrow> enc_2_field_table \<Rightarrow> nat \<Rightarrow> nat \<times> bool option" where
  "vmcs_get_field_id_by_encoding t tbl enc =
     (case get_enc_2_field_entry enc of
        None \<Rightarrow> (VMCS_FIELD_COUNT, None)
      | Some (i, j) \<Rightarrow>
          (let (valid, field) = tbl ! i ! j
           in if \<not> valid then (VMCS_FIELD_COUNT, None)
              else if is_encoding_high_type enc \<and> supports_high_encoding (t ! field) \<noteq> SUPP_HIGH_ENC
              then (VMCS_FIELD_COUNT, None)
              else (field, Some (is_encoding_high_type enc))))"

section \<open>Specification\<close>

text \<open>The table after the fields below \<open>k\<close> have been entered.\<close>

definition enc_table_ok :: "vmcs_encoding list \<Rightarrow> nat \<Rightarrow> enc_2_field_table \<Rightarrow> bool" where
  "enc_table_ok t k tbl \<longleftrightarrow>
     length tbl = NUMBER_OF_ENCODING_TYPES \<and>
     (\<forall>row \<in> set tbl. length row = MAX_ENCODINGS_OF_SAME_TYPE) \<and>
     (\<forall>i < NUMBER_OF_ENCODING_TYPES. \<forall>j < MAX_ENCODINGS_OF_SAME_TYPE. \<forall>f.
        tbl ! i ! j = (True, f) \<longleftrightarrow>
        f < k \<and> access (t ! f) \<noteq> NO_EXIST \<and> get_enc_2_field_entry (encoding (t ! f)) = Some (i, j))"

text \<open>What the initialisation relies on: every field has an entry, and no two fields share one.\<close>

definition enc_slots_ok :: "vmcs_encoding list \<Rightarrow> bool" where
  "enc_slots_ok t \<longleftrightarrow> VMCS_FIELD_COUNT < length t \<and>
     (\<forall>f < VMCS_FIELD_COUNT. get_enc_2_field_entry (encoding (t ! f)) \<noteq> None) \<and>
     (\<forall>f < VMCS_FIELD_COUNT. \<forall>g < VMCS_FIELD_COUNT.
        get_enc_2_field_entry (encoding (t ! f)) = get_enc_2_field_entry (encoding (t ! g)) \<longrightarrow> f = g)"

section \<open>Lemmas on the table\<close>

lemma length_g_field_data [simp]: "length g_field_data = Suc VMCS_FIELD_COUNT"
  by (simp add: g_field_data_def)

lemma g_field_data_encodings:
  "map encoding (take VMCS_FIELD_COUNT g_field_data) = [
     0x0000, 0x0004, 0x4000, 0x4002, 0x401E, 0x4004, 0x400A, 0x6000, 0x6002, 0x6004, 0x6006,
     0x4006, 0x4008, 0x400C, 0x400E, 0x4010, 0x4012, 0x4016, 0x4018, 0x401A, 0x4014, 0x2000,
     0x2002, 0x2004, 0x2006, 0x2008, 0x200A, 0x200C, 0x2010, 0x2400, 0x4400, 0x4402, 0x4404,
     0x4406, 0x4408, 0x440A, 0x440C, 0x440E, 0x6400, 0x6402, 0x6404, 0x6406, 0x6408, 0x640A,
     0x2012, 0x2014, 0x401C, 0x201A, 0x482E, 0x6800, 0x6802, 0x6804, 0x681A, 0x0800, 0x6806,
     0x4800, 0x4814, 0x0802, 0x6808, 0x4802, 0x4816, 0x0804, 0x680A, 0x4804, 0x4818, 0x0806,
     0x680C, 0x4806, 0x481A, 0x0808, 0x680E, 0x4808, 0x481C, 0x080A, 0x6810, 0x480A, 0x481E,
     0x080C, 0x6812, 0x480C, 0x4820, 0x080E, 0x6814, 0x480E, 0x4822, 0x6816, 0x4810, 0x6818,
     0x4812, 0x681C, 0x681E, 0x6820, 0x6822, 0x2800, 0x2802, 0x4824, 0x4826, 0x4828, 0x482A,
     0x6824, 0x6826, 0x2804, 0x2806, 0x2808, 0x280A, 0x280C, 0x280E, 0x2810, 0x6C00, 0x6C02,
     0x6C04, 0x0C00, 0x0C02, 0x0C04, 0x0C06, 0x0C08, 0x6C06, 0x0C0A, 0x6C08, 0x0C0C, 0x6C0A,
     0x6C0C, 0x6C0E, 0x6C14, 0x6C16, 0x4C00, 0x6C10, 0x6C12, 0x2C00, 0x2C02, 0x2C04, 0x6008,
     0x600A, 0x600C, 0x600E, 0x202A]"
  by (simp add: g_field_data_def field_entry_def VM_X_CR3_TARGET_VALUE_def)

lemma g_field_data_distinct: "distinct (map encoding (take VMCS_FIELD_COUNT g_field_data))"
  unfolding g_field_data_encodings by simp

lemma g_field_data_ranges:
  assumes "f < VMCS_FIELD_COUNT"
  shows "encoding (g_field_data ! f) < 2 ^ 16 \<and> even (encoding (g_field_data ! f)) \<and>
    get_enc_2_field_entry (encoding (g_field_data ! f)) \<noteq> None"
proof -
  have "list_all (\<lambda>e. e < 2 ^ 16 \<and> even e \<and> get_enc_2_field_entry e \<noteq> None)
      (map encoding (take VMCS_FIELD_COUNT g_field_data))"
    unfolding g_field_data_encodings
    by (simp add: get_enc_2_field_entry_def enc_type_from_encoding_def entry_idx_from_encoding_def
          Let_def numeral_3_eq_3 [symmetric])
  then show ?thesis using assms by (simp add: list_all_length)
qed

text \<open>The two indices determine an encoding up to the bit that selects its high half.\<close>

lemma get_enc_2_field_entry_inj:
  assumes "get_enc_2_field_entry a = Some p" "get_enc_2_field_entry b = Some p" "a < 2 ^ 16" "b < 2 ^ 16"
  shows "a div 2 = b div 2"
proof -
  have ty: "enc_type_from_encoding a = enc_type_from_encoding b"
    and ix: "entry_idx_from_encoding a = entry_idx_from_encoding b"
    and z: "a AND 0x9000 = 0" "b AND 0x9000 = 0"
    using assms(1,2) by (auto simp: get_enc_2_field_entry_def Let_def split: if_splits)
  have hi: "\<not> bit a n" "\<not> bit b n" if "16 \<le> n" for n
  proof -
    have "(2::nat) ^ 16 \<le> 2 ^ n" using that by (rule power_increasing) simp
    then have "a div 2 ^ n = 0" "b div 2 ^ n = 0" using assms(3,4) by simp_all
    then show "\<not> bit a n" "\<not> bit b n" by (simp_all add: bit_iff_odd)
  qed
  have Z: "\<not> bit a 12" "\<not> bit a 15" "\<not> bit b 12" "\<not> bit b 15"
    using arg_cong [OF z(1), of "\<lambda>x. bit x 12"] arg_cong [OF z(1), of "\<lambda>x. bit x 15"]
      arg_cong [OF z(2), of "\<lambda>x. bit x 12"] arg_cong [OF z(2), of "\<lambda>x. bit x 15"]
    by (simp_all add: bit_and_iff bit_0)
  have T: "bit a 10 = bit b 10" "bit a 11 = bit b 11" "bit a 13 = bit b 13" "bit a 14 = bit b 14"
    using arg_cong [OF ty, of "\<lambda>x. bit x 0"] arg_cong [OF ty, of "\<lambda>x. bit x 1"]
      arg_cong [OF ty, of "\<lambda>x. bit x 2"] arg_cong [OF ty, of "\<lambda>x. bit x 3"]
    by (simp_all add: enc_type_from_encoding_def bit_simps bit_0 even_or_iff even_and_iff even_drop_bit_iff_not_bit)
  have I: "bit a (Suc n) = bit b (Suc n)" if "n < 9" for n
  proof -
    have "n = 0 \<or> n = 1 \<or> n = 2 \<or> n = 3 \<or> n = 4 \<or> n = 5 \<or> n = 6 \<or> n = 7 \<or> n = 8"
      using that by linarith
    then have "bit (0x3FE :: nat) (Suc n)" by (elim disjE) (simp_all add: bit_Suc bit_0)
    then show ?thesis
      using arg_cong [OF ix, of "\<lambda>x. bit x n"] by (simp add: entry_idx_from_encoding_def bit_simps)
  qed
  have "bit a (Suc n) = bit b (Suc n)" for n
  proof -
    consider "n < 9" | "n = 9" | "n = 10" | "n = 11" | "n = 12" | "n = 13" | "n = 14" | "15 \<le> n" by linarith
    then show ?thesis
      by cases (use I T Z hi [of "Suc n"] in simp_all)
  qed
  then show ?thesis by (simp add: bit_eq_iff bit_Suc)
qed

lemma length_set_access [simp]: "length (set_access a f t) = length t"
  by (simp add: set_access_def)

lemma set_access_nth [simp]:
  "i < length t \<Longrightarrow> encoding (set_access a f t ! i) = encoding (t ! i)"
  "i < length t \<Longrightarrow> supports_high_encoding (set_access a f t ! i) = supports_high_encoding (t ! i)"
  "i < length t \<Longrightarrow> access (set_access a f t ! i) = (if i = f then a else access (t ! i))"
  by (cases "i = f"; simp add: set_access_def)+

lemma fold_set_access:
  "length (fold (set_access a) fs t) = length t"
  "i < length t \<Longrightarrow> encoding (fold (set_access a) fs t ! i) = encoding (t ! i)"
  "i < length t \<Longrightarrow> supports_high_encoding (fold (set_access a) fs t ! i) = supports_high_encoding (t ! i)"
  "i < length t \<Longrightarrow> access (fold (set_access a) fs t ! i) = (if i \<in> set fs then a else access (t ! i))"
  by (induction fs arbitrary: t) auto

lemma enable_if_nth [simp]:
  "length (enable_if c fs t) = length t"
  "i < length t \<Longrightarrow> encoding (enable_if c fs t ! i) = encoding (t ! i)"
  "i < length t \<Longrightarrow> supports_high_encoding (enable_if c fs t ! i) = supports_high_encoding (t ! i)"
  "i < length t \<Longrightarrow> access (enable_if c fs t ! i) = (if c \<and> i \<in> set fs then WRITABLE else access (t ! i))"
  by (auto simp: enable_if_def fold_set_access)

lemma enable_vmcs_2_0_fields_nth:
  shows "length (enable_vmcs_2_0_fields c t) = length t"
    and "i < length t \<Longrightarrow> encoding (enable_vmcs_2_0_fields c t ! i) = encoding (t ! i)"
    and "i < length t \<Longrightarrow>
      supports_high_encoding (enable_vmcs_2_0_fields c t ! i) = supports_high_encoding (t ! i)"
  by (simp_all add: enable_vmcs_2_0_fields_def Let_def)

text \<open>The fields whose access depends on the processor.\<close>

lemma enable_vmcs_2_0_fields_fixed:
  assumes "i < length t"
    "i \<notin> {VMCS_VPID, VMCS_EPTP_INDEX, VMCS_EXIT_INFO_GUEST_PHYSICAL_ADDRESS, VMCS_EPTP_ADDRESS,
          VMCS_PREEMPTION_TIMER, VMCS_GUEST_PAT, VMCS_GUEST_EFER, VMCS_GUEST_IA32_PERF_GLOBAL_CTRL,
          VMCS_GUEST_PDPTR0, VMCS_GUEST_PDPTR1, VMCS_GUEST_PDPTR2, VMCS_GUEST_PDPTR3, VMCS_HOST_PAT,
          VMCS_HOST_EFER, VMCS_HOST_IA32_PERF_GLOBAL_CTRL, VMCS_VE_INFO_ADDRESS}"
  shows "access (enable_vmcs_2_0_fields c t ! i) = access (t ! i)"
  using assms by (simp add: enable_vmcs_2_0_fields_def Let_def)

lemma enable_vmcs_2_0_fields_perf:
  "access (enable_vmcs_2_0_fields c g_field_data ! VMCS_GUEST_IA32_PERF_GLOBAL_CTRL) =
     (if exit_load_perf_global_ctrl c then WRITABLE else NO_EXIST)"
  "access (enable_vmcs_2_0_fields c g_field_data ! VMCS_HOST_IA32_PERF_GLOBAL_CTRL) =
     (if entry_load_perf_global_ctrl c then WRITABLE else NO_EXIST)"
proof -
  have "access (g_field_data ! VMCS_GUEST_IA32_PERF_GLOBAL_CTRL) = NO_EXIST"
    "access (g_field_data ! VMCS_HOST_IA32_PERF_GLOBAL_CTRL) = NO_EXIST"
    by (simp_all add: g_field_data_def field_entry_def)
  then show "access (enable_vmcs_2_0_fields c g_field_data ! VMCS_GUEST_IA32_PERF_GLOBAL_CTRL) =
     (if exit_load_perf_global_ctrl c then WRITABLE else NO_EXIST)"
    "access (enable_vmcs_2_0_fields c g_field_data ! VMCS_HOST_IA32_PERF_GLOBAL_CTRL) =
     (if entry_load_perf_global_ctrl c then WRITABLE else NO_EXIST)"
    by (simp_all add: enable_vmcs_2_0_fields_def Let_def)
qed

section \<open>The table of encodings\<close>

lemma get_enc_2_field_entry_bounds:
  "get_enc_2_field_entry e = Some (i, j) \<Longrightarrow> i < NUMBER_OF_ENCODING_TYPES \<and> j < MAX_ENCODINGS_OF_SAME_TYPE"
  by (auto simp: get_enc_2_field_entry_def Let_def split: if_splits)

lemma g_field_data_encoding_inj:
  "f < VMCS_FIELD_COUNT \<Longrightarrow> g < VMCS_FIELD_COUNT \<Longrightarrow>
     encoding (g_field_data ! f) = encoding (g_field_data ! g) \<longleftrightarrow> f = g"
  using g_field_data_distinct by (auto simp: distinct_conv_nth)

lemma enc_slots_ok_enabled: "enc_slots_ok (enable_vmcs_2_0_fields c g_field_data)"
proof -
  have "f = g"
    if "f < VMCS_FIELD_COUNT" "g < VMCS_FIELD_COUNT"
      "get_enc_2_field_entry (encoding (g_field_data ! f)) = get_enc_2_field_entry (encoding (g_field_data ! g))"
    for f g
  proof -
    note F = g_field_data_ranges [OF that(1)] and G = g_field_data_ranges [OF that(2)]
    from F obtain p where "get_enc_2_field_entry (encoding (g_field_data ! f)) = Some p" by auto
    then have "encoding (g_field_data ! f) div 2 = encoding (g_field_data ! g) div 2"
      using that(3) F G by (intro get_enc_2_field_entry_inj [of _ p]) auto
    then have "encoding (g_field_data ! f) = encoding (g_field_data ! g)"
      using F G by (metis dvd_mult_div_cancel)
    then show ?thesis using g_field_data_encoding_inj that(1,2) by blast
  qed
  then show ?thesis
    using g_field_data_ranges
    by (simp add: enc_slots_ok_def enable_vmcs_2_0_fields_nth)
qed

lemma enc_table_cleared: "enc_table_ok t 0 enc_2_field_cleared"
  by (simp add: enc_table_ok_def enc_2_field_cleared_def)

lemma enc_table_enter:
  assumes "enc_slots_ok t" "enc_table_ok t k tbl" "k < VMCS_FIELD_COUNT" "access (t ! k) \<noteq> NO_EXIST"
    and "get_enc_2_field_entry (encoding (t ! k)) = Some (i, j)"
  shows "enc_table_ok t (Suc k) (tbl[i := (tbl ! i)[j := (True, k)]])" "\<not> fst (tbl ! i ! j)"
proof -
  have b: "i < 16" "j < 32" using get_enc_2_field_entry_bounds [OF assms(5)] by auto
  have len: "length tbl = 16" "\<And>i. i < 16 \<Longrightarrow> length (tbl ! i) = 32"
    using assms(2) by (auto simp: enc_table_ok_def)
  have spec: "tbl ! i ! j = (True, f) \<longleftrightarrow> f < k \<and> access (t ! f) \<noteq> 0 \<and>
      get_enc_2_field_entry (encoding (t ! f)) = Some (i, j)" if "i < 16" "j < 32" for i j f
    using assms(2) that by (simp add: enc_table_ok_def)
  have uniq: "f = k" if "f \<le> k" "get_enc_2_field_entry (encoding (t ! f)) = Some (i, j)" for f
  proof -
    have "f < 136" using that(1) assms(3) by linarith
    then show ?thesis using assms(1,3,5) that(2) unfolding enc_slots_ok_def by metis
  qed
  show "\<not> fst (tbl ! i ! j)"
  proof
    assume "fst (tbl ! i ! j)"
    then obtain f where "tbl ! i ! j = (True, f)" by (metis prod.collapse)
    then show False using spec [OF b] uniq [of f] by auto
  qed
  let ?tbl = "tbl[i := (tbl ! i)[j := (True, k)]]"
  have "?tbl ! x ! y = (True, f) \<longleftrightarrow> f < Suc k \<and> access (t ! f) \<noteq> 0 \<and>
      get_enc_2_field_entry (encoding (t ! f)) = Some (x, y)" if xy: "x < 16" "y < 32" for x y f
  proof (cases "x = i \<and> y = j")
    case True
    then have "?tbl ! x ! y = (True, k)" using len b by simp
    moreover have "f < Suc k \<and> get_enc_2_field_entry (encoding (t ! f)) = Some (i, j) \<longleftrightarrow> f = k"
      using uniq [of f] assms(5) by auto
    ultimately show ?thesis using True assms(4) by auto
  next
    case False
    then have "?tbl ! x ! y = tbl ! x ! y" using len b by (cases "x = i") auto
    moreover have "f = k \<Longrightarrow> get_enc_2_field_entry (encoding (t ! f)) \<noteq> Some (x, y)"
      using False assms(5) by auto
    ultimately show ?thesis using spec [OF xy] by (auto simp: less_Suc_eq)
  qed
  moreover have "\<forall>row \<in> set ?tbl. length row = 32"
    using len b assms(2) by (auto simp: enc_table_ok_def dest!: set_update_subset_insert [THEN subsetD])
  ultimately show "enc_table_ok t (Suc k) ?tbl" using len by (simp add: enc_table_ok_def)
qed

lemma enc_table_skip:
  "enc_table_ok t k tbl \<Longrightarrow> access (t ! k) = NO_EXIST \<Longrightarrow> enc_table_ok t (Suc k) tbl"
  by (auto simp: enc_table_ok_def less_Suc_eq)

lemma init_enc_2_field_loop_ok:
  assumes "enc_slots_ok t"
  shows "enc_table_ok t k tbl \<Longrightarrow> k \<le> VMCS_FIELD_COUNT \<Longrightarrow>
    \<exists>tbl'. init_enc_2_field_loop chk t k p tbl = Some tbl' \<and> enc_table_ok t VMCS_FIELD_COUNT tbl'"
proof (induction "VMCS_FIELD_COUNT - k" arbitrary: k p tbl)
  case 0
  then show ?case by (subst init_enc_2_field_loop.simps) simp
next
  case (Suc x)
  then have k: "k < 136" by simp
  then have len: "k < length t" using assms by (simp add: enc_slots_ok_def)
  show ?case
  proof (cases "access (t ! k) = 0")
    case True
    then show ?thesis
      using Suc k len enc_table_skip [OF Suc.prems(1) True]
      by (subst init_enc_2_field_loop.simps) simp
  next
    case False
    obtain i j where ij: "get_enc_2_field_entry (encoding (t ! k)) = Some (i, j)"
      using assms k by (auto simp: enc_slots_ok_def)
    note E = enc_table_enter [OF assms Suc.prems(1) k False ij]
    have b: "i < length tbl" "j < length (tbl ! i)"
      using get_enc_2_field_entry_bounds [OF ij] Suc.prems(1) by (auto simp: enc_table_ok_def)
    obtain v f where vf: "tbl ! i ! j = (v, f)" by (cases "tbl ! i ! j")
    have "init_enc_2_field_loop chk t k p tbl =
        init_enc_2_field_loop chk t (Suc k) (Some (i, j)) (tbl[i := (tbl ! i)[j := (True, k)]])"
      using k len False ij b vf E(2) by (subst init_enc_2_field_loop.simps) simp
    then show ?thesis using Suc.hyps(1) [of "Suc k"] Suc.hyps(2) E(1) k by simp
  qed
qed

lemma vmcs_manager_init_ok:
  "\<exists>tbl. vmcs_manager_init chk c g_field_data = Some (enable_vmcs_2_0_fields c g_field_data, tbl) \<and>
     enc_table_ok (enable_vmcs_2_0_fields c g_field_data) VMCS_FIELD_COUNT tbl"
  using init_enc_2_field_loop_ok [OF enc_slots_ok_enabled [of c] enc_table_cleared, where chk = chk and p = None]
  by (auto simp: vmcs_manager_init_def init_enc_2_field_tables_def Let_def)

lemma and_high_half: "even e \<Longrightarrow> Suc e AND (2 * m) = e AND (2 * m)" for e m :: nat
proof (rule bit_eqI)
  fix n
  assume e: "even e"
  have "bit (Suc e) (Suc k) = bit e (Suc k)" for k using e by (simp add: bit_Suc)
  then show "bit (Suc e AND (2 * m)) n = bit (e AND (2 * m)) n"
    by (cases n) (simp_all add: bit_and_iff bit_0 even_and_iff)
qed

lemma get_enc_2_field_entry_high: "even e \<Longrightarrow> get_enc_2_field_entry (e + 1) = get_enc_2_field_entry e"
  using and_high_half [of e "0x4800"] and_high_half [of e "0x3000"] and_high_half [of e "0x0600"]
    and_high_half [of e "0x01FF"]
  by (simp add: get_enc_2_field_entry_def enc_type_from_encoding_def entry_idx_from_encoding_def)

section \<open>Properties\<close>

text \<open>
  C28.  The initialisation of the VMCS package returns for every set of processor capabilities, with no
  assertion failing, and afterwards the translation from encodings to fields inverts the table of
  fields: the encoding of an enabled field gives the field, the encoding of its high half gives the
  field marked as high exactly when the field has a high half, and a 16-bit encoding that gives a
  field is the encoding of that field or of its high half.
\<close>

theorem vmcs_encoding_roundtrip:
  assumes "t = enable_vmcs_2_0_fields c g_field_data"
  shows "\<exists>tbl. vmcs_manager_init chk c g_field_data = Some (t, tbl) \<and>
    (\<forall>f < VMCS_FIELD_COUNT. access (t ! f) \<noteq> NO_EXIST \<longrightarrow>
       vmcs_get_field_id_by_encoding t tbl (encoding (t ! f)) = (f, Some False) \<and>
       vmcs_get_field_id_by_encoding t tbl (encoding (t ! f) + 1) =
         (if supports_high_encoding (t ! f) = SUPP_HIGH_ENC then (f, Some True) else (VMCS_FIELD_COUNT, None))) \<and>
    (\<forall>e < 2 ^ 16. \<forall>f high. vmcs_get_field_id_by_encoding t tbl e = (f, Some high) \<longrightarrow>
       f < VMCS_FIELD_COUNT \<and> access (t ! f) \<noteq> NO_EXIST \<and> e = encoding (t ! f) + (if high then 1 else 0))"
proof -
  obtain tbl where tbl: "vmcs_manager_init chk c g_field_data = Some (t, tbl)" "enc_table_ok t 136 tbl"
    using vmcs_manager_init_ok assms by blast
  have rng: "encoding (t ! f) < 2 ^ 16" "even (encoding (t ! f))"
      "get_enc_2_field_entry (encoding (t ! f)) \<noteq> None" if "f < 136" for f
    using g_field_data_ranges [OF that] that assms by (auto simp: enable_vmcs_2_0_fields_nth)
  have high: "is_encoding_high_type e \<longleftrightarrow> odd e" for e
    by (auto simp: is_encoding_high_type_def and_one_eq mod2_eq_if)
  have entry: "tbl ! i ! j = (True, f) \<longleftrightarrow> f < 136 \<and> access (t ! f) \<noteq> 0 \<and>
      get_enc_2_field_entry (encoding (t ! f)) = Some (i, j)" if "i < 16" "j < 32" for i j f
    using tbl(2) that by (simp add: enc_table_ok_def)
  have A: "vmcs_get_field_id_by_encoding t tbl (encoding (t ! f)) = (f, Some False) \<and>
       vmcs_get_field_id_by_encoding t tbl (encoding (t ! f) + 1) =
         (if supports_high_encoding (t ! f) = 1 then (f, Some True) else (136, None))"
    if f: "f < 136" "access (t ! f) \<noteq> 0" for f
  proof -
    obtain i j where ij: "get_enc_2_field_entry (encoding (t ! f)) = Some (i, j)" using rng(3) [OF f(1)] by auto
    have "tbl ! i ! j = (True, f)" using entry get_enc_2_field_entry_bounds [OF ij] f ij by blast
    moreover have "get_enc_2_field_entry (encoding (t ! f) + 1) = Some (i, j)"
      using get_enc_2_field_entry_high [OF rng(2) [OF f(1)]] ij by simp
    ultimately show ?thesis using ij rng(2) [OF f(1)]
      by (simp add: vmcs_get_field_id_by_encoding_def high)
  qed
  have B: "f < 136 \<and> access (t ! f) \<noteq> 0 \<and> e = encoding (t ! f) + (if h then 1 else 0)"
    if e: "e < 2 ^ 16" "vmcs_get_field_id_by_encoding t tbl e = (f, Some h)" for e f h
  proof -
    obtain i j where ij: "get_enc_2_field_entry e = Some (i, j)" "tbl ! i ! j = (True, f)" "h \<longleftrightarrow> odd e"
      using e(2) by (auto simp: vmcs_get_field_id_by_encoding_def high Let_def
          split: option.splits if_splits prod.splits)
    then have f: "f < 136" "access (t ! f) \<noteq> 0" "get_enc_2_field_entry (encoding (t ! f)) = Some (i, j)"
      using entry get_enc_2_field_entry_bounds [OF ij(1)] by blast+
    have "e div 2 = encoding (t ! f) div 2"
      using get_enc_2_field_entry_inj [OF ij(1) f(3) e(1) rng(1) [OF f(1)]] .
    then have "e = encoding (t ! f) + (if h then 1 else 0)"
      using rng(2) [OF f(1)] ij(3) by (cases h) (auto elim!: evenE oddE)
    with f show ?thesis by simp
  qed
  from tbl(1) A B show ?thesis by blast
qed

theorem vmcs_encoding_roundtrip_witness:
  "\<exists>t tbl. vmcs_manager_init True
      \<lparr> ept_supported = True, vpid_supported = True, ve_supported = False, entry_load_efer = True,
        entry_load_pat = True, entry_load_perf_global_ctrl = False, exit_save_efer = True,
        exit_save_pat = True, exit_load_efer = True, exit_load_pat = True,
        exit_load_perf_global_ctrl = False, pin_vmx_timer = False \<rparr> g_field_data = Some (t, tbl) \<and>
    vmcs_get_field_id_by_encoding t tbl VM_X_EPTP_ADDRESS = (VMCS_EPTP_ADDRESS, Some False) \<and>
    vmcs_get_field_id_by_encoding t tbl (VM_X_EPTP_ADDRESS + 1) = (VMCS_EPTP_ADDRESS, Some True)"
proof -
  let ?c = "\<lparr> ept_supported = True, vpid_supported = True, ve_supported = False, entry_load_efer = True,
        entry_load_pat = True, entry_load_perf_global_ctrl = False, exit_save_efer = True,
        exit_save_pat = True, exit_load_efer = True, exit_load_pat = True,
        exit_load_perf_global_ctrl = False, pin_vmx_timer = False \<rparr>"
  let ?t = "enable_vmcs_2_0_fields ?c g_field_data"
  have g: "encoding (g_field_data ! VMCS_EPTP_ADDRESS) = VM_X_EPTP_ADDRESS"
    "supports_high_encoding (g_field_data ! VMCS_EPTP_ADDRESS) = SUPP_HIGH_ENC"
    by (simp_all add: g_field_data_def field_entry_def)
  have f: "encoding (?t ! VMCS_EPTP_ADDRESS) = VM_X_EPTP_ADDRESS"
    "supports_high_encoding (?t ! VMCS_EPTP_ADDRESS) = SUPP_HIGH_ENC"
    using g by (simp_all add: enable_vmcs_2_0_fields_nth)
  have a: "access (?t ! VMCS_EPTP_ADDRESS) \<noteq> NO_EXIST"
    by (simp add: enable_vmcs_2_0_fields_def Let_def)
  obtain tbl where "vmcs_manager_init True ?c g_field_data = Some (?t, tbl)"
    "\<forall>f < VMCS_FIELD_COUNT. access (?t ! f) \<noteq> NO_EXIST \<longrightarrow>
       vmcs_get_field_id_by_encoding ?t tbl (encoding (?t ! f)) = (f, Some False) \<and>
       vmcs_get_field_id_by_encoding ?t tbl (encoding (?t ! f) + 1) =
         (if supports_high_encoding (?t ! f) = SUPP_HIGH_ENC then (f, Some True) else (VMCS_FIELD_COUNT, None))"
    using vmcs_encoding_roundtrip [of ?t ?c True, OF refl] by (elim exE conjE) (rule that)
  then show ?thesis
    using a f by (intro exI [of _ ?t] exI [of _ tbl]) (auto dest!: spec [of _ VMCS_EPTP_ADDRESS])
qed

end
