(* ===== verification/VmmVmcs.thy ===== *)
theory VmmVmcs
  imports VmmCache64 VmmVmcsFields
begin

unbundle bit_operations_syntax

text \<open>
  The VMCS object that runs on a processor: the checked accesses of \<^verbatim>\<open>vmm/vmx/vmcs.c\<close>, the VMX
  instructions of \<^verbatim>\<open>vmm/vmx/vmx.c\<close>, and \<^verbatim>\<open>vmm/vmx/vmcs_actual.c\<close>, which keeps the fields in a cache,
  writes the changed ones to the processor before the guest is entered, and makes sure that a
  non-maskable interrupt (NMI) that arrives meanwhile opens the NMI window of the guest.

  The state is one processor together with the VMCS object that is used on it.  Memory that the
  processor keeps for VMCS regions is a function from region addresses and encodings to values.
  \<open>nmi_arrivals\<close> says at which of the following interruptible points an NMI arrives; the handler
  runs to completion there.  The debug-only ownership checks (\<^verbatim>\<open>VMM_DEBUG_CODE\<close>) are not compiled.
\<close>

section \<open>State\<close>

abbreviation (input) HW_VMCS_IS_EMPTY :: nat where "HW_VMCS_IS_EMPTY \<equiv> 0xFFFFFFFFFFFFFFFF"
abbreviation (input) CPU_NEVER_USED :: nat where "CPU_NEVER_USED \<equiv> 0xFFFF"
abbreviation (input) DATA32_GDT_ENTRY_OFFSET :: nat where "DATA32_GDT_ENTRY_OFFSET \<equiv> 8"

abbreviation (input) UPDATE_SUCCEEDED :: nat where "UPDATE_SUCCEEDED \<equiv> 0"
abbreviation (input) UPDATE_FINISHED :: nat where "UPDATE_FINISHED \<equiv> 1"
abbreviation (input) UPDATE_FAILED :: nat where "UPDATE_FAILED \<equiv> 2"
abbreviation (input) LAUNCHED_FLAG :: "16 word" where "LAUNCHED_FLAG \<equiv> 1"
abbreviation (input) ACTIVATED_FLAG :: "16 word" where "ACTIVATED_FLAG \<equiv> 2"
abbreviation (input) NEVER_ACTIVATED_FLAG :: "16 word" where "NEVER_ACTIVATED_FLAG \<equiv> 4"
abbreviation (input) NMI_WINDOW_BIT :: nat where "NMI_WINDOW_BIT \<equiv> 22"

abbreviation (input) HW_VMX_SUCCESS :: nat where "HW_VMX_SUCCESS \<equiv> 0"
abbreviation (input) HW_VMX_FAILED_WITH_STATUS :: nat where "HW_VMX_FAILED_WITH_STATUS \<equiv> 1"
abbreviation (input) HW_VMX_FAILED :: nat where "HW_VMX_FAILED \<equiv> 2"

text \<open>
  The processor: its current VMCS pointer, the VMCS regions, which region addresses and which
  encodings its VMX instructions accept, the selector in \<^verbatim>\<open>FS\<close>, and the entries of this CPU in
  \<^verbatim>\<open>nmi_window\<close>, \<^verbatim>\<open>nmi_array\<close> and \<^verbatim>\<open>vmcs_sw_shadow_disable\<close>.  \<open>stack_cell\<close> and
  \<open>temp_cell\<close> are what the local variables \<^verbatim>\<open>previous_vmcs\<close> (of \<^verbatim>\<open>temp_replace_vmcs_ptr\<close> and
  \<^verbatim>\<open>vmcs_act_flush_to_memory\<close>) and \<^verbatim>\<open>temp_vmcs_ptr\<close> (of \<^verbatim>\<open>restore_previous_vmcs_ptr\<close>) hold before they are assigned.
\<close>

record vmx_cpu =
  this_cpu :: nat
  sw_shadow_disable :: bool
  current_vmcs :: nat
  vmcs_regions :: "nat \<Rightarrow> nat \<Rightarrow> 64 word"
  region_ok :: "nat \<Rightarrow> bool"
  vmread_ok :: "nat \<Rightarrow> bool"
  vmwrite_ok :: "nat \<Rightarrow> bool"
  fs_selector :: nat
  nmi_window :: bool
  nmi_pending :: bool
  nmi_arrivals :: "bool list"
  stack_cell :: nat
  temp_cell :: nat

record vmcs_object = vmx_cpu +
  field_data :: "vmcs_encoding list"
  skip_access_checking :: bool
  vmcs_cache :: cache64
  vmcs_hpa :: nat
  update_status :: nat
  vmcs_flags :: "16 word"
  owning_host_cpu :: nat

section \<open>VMX instructions\<close>

text \<open>
  \<^verbatim>\<open>vmx_vmptrst\<close> copies the cell it is given to a local variable and stores the pointer there, so
  the cell keeps its value.
\<close>

definition vmx_vmptrst :: "'a vmx_cpu_scheme \<Rightarrow> nat \<Rightarrow> nat" where
  "vmx_vmptrst s cell = (let address = cell; address = current_vmcs s in cell)"

definition vmx_vmptrld :: "nat \<Rightarrow> 'a vmx_cpu_scheme \<Rightarrow> nat \<times> 'a vmx_cpu_scheme" where
  "vmx_vmptrld address s =
     (if region_ok s address then (HW_VMX_SUCCESS, s \<lparr> current_vmcs := address \<rparr>)
      else if current_vmcs s = HW_VMCS_IS_EMPTY then (HW_VMX_FAILED, s)
      else (HW_VMX_FAILED_WITH_STATUS, s))"

definition hw_vmx_flush_current_vmcs :: "nat \<Rightarrow> 'a vmx_cpu_scheme \<Rightarrow> nat \<times> 'a vmx_cpu_scheme" where
  "hw_vmx_flush_current_vmcs address s =
     (if region_ok s address
      then (HW_VMX_SUCCESS,
            if current_vmcs s = address then s \<lparr> current_vmcs := HW_VMCS_IS_EMPTY \<rparr> else s)
      else if current_vmcs s = HW_VMCS_IS_EMPTY then (HW_VMX_FAILED, s)
      else (HW_VMX_FAILED_WITH_STATUS, s))"

text \<open>A failing read does not write the value.\<close>

definition hw_vmx_read_current_vmcs :: "nat \<Rightarrow> 'a vmx_cpu_scheme \<Rightarrow> nat \<times> 64 word option" where
  "hw_vmx_read_current_vmcs enc s =
     (if current_vmcs s = HW_VMCS_IS_EMPTY then (HW_VMX_FAILED, None)
      else if vmread_ok s enc then (HW_VMX_SUCCESS, Some (vmcs_regions s (current_vmcs s) enc))
      else (HW_VMX_FAILED_WITH_STATUS, None))"

definition hw_vmx_write_current_vmcs ::
    "nat \<Rightarrow> 64 word \<Rightarrow> 'a vmx_cpu_scheme \<Rightarrow> nat \<times> 'a vmx_cpu_scheme" where
  "hw_vmx_write_current_vmcs enc val s =
     (if current_vmcs s = HW_VMCS_IS_EMPTY then (HW_VMX_FAILED, s)
      else if vmwrite_ok s enc
      then (HW_VMX_SUCCESS,
            s \<lparr> vmcs_regions := (vmcs_regions s)
                 (current_vmcs s := (vmcs_regions s (current_vmcs s))(enc := val)) \<rparr>)
      else (HW_VMX_FAILED_WITH_STATUS, s))"

text \<open>The messages are printed only in a debug build.\<close>

definition error_processing :: "bool \<Rightarrow> nat \<Rightarrow> unit option" where
  "error_processing chk ret_val = (if ret_val = HW_VMX_SUCCESS then Some () else vmm_deadloop chk)"

section \<open>Hardware accesses\<close>

definition temp_replace_vmcs_ptr :: "bool \<Rightarrow> nat \<Rightarrow> 'a vmx_cpu_scheme \<Rightarrow> ('a vmx_cpu_scheme \<times> nat) option" where
  "temp_replace_vmcs_ptr chk new_ptr s = do {
     let previous_vmcs = vmx_vmptrst s (stack_cell s);
     let (ret_val, s') = vmx_vmptrld new_ptr s;
     error_processing chk ret_val;
     Some (s', previous_vmcs)
   }"

definition restore_previous_vmcs_ptr :: "bool \<Rightarrow> nat \<Rightarrow> 'a vmx_cpu_scheme \<Rightarrow> 'a vmx_cpu_scheme option" where
  "restore_previous_vmcs_ptr chk ptr_to_restore s =
     (if ptr_to_restore \<noteq> HW_VMCS_IS_EMPTY
      then do {
        let (ret_val, s') = vmx_vmptrld ptr_to_restore s;
        error_processing chk ret_val;
        Some s'
      }
      else do {
        let temp_vmcs_ptr = vmx_vmptrst s (temp_cell s);
        if temp_vmcs_ptr \<noteq> HW_VMCS_IS_EMPTY
        then do {
          let (ret_val, s') = hw_vmx_flush_current_vmcs temp_vmcs_ptr s;
          error_processing chk ret_val;
          Some s'
        }
        else Some s
      })"

text \<open>The value that a failing read leaves undefined is not used.\<close>

definition vmcs_act_read_from_hardware ::
    "bool \<Rightarrow> nat \<Rightarrow> 'a vmcs_object_scheme \<Rightarrow> ('a vmcs_object_scheme \<times> 64 word) option" where
  "vmcs_act_read_from_hardware chk field_id s = do {
     (enc, _) \<leftarrow> vmcs_get_field_encoding (field_data s) field_id;
     vmm_assert chk (enc \<noteq> VMCS_NO_COMPONENT);
     (s1, previous_vmcs) \<leftarrow>
       (if vmcs_flags s AND ACTIVATED_FLAG = 0 then temp_replace_vmcs_ptr chk (vmcs_hpa s) s
        else Some (s, 0));
     let (ret_val, read) = hw_vmx_read_current_vmcs enc s1;
     error_processing chk ret_val;
     s2 \<leftarrow>
       (if owning_host_cpu s1 = CPU_NEVER_USED
        then do {
          let (ret_val', s') = hw_vmx_flush_current_vmcs (vmcs_hpa s1) s1;
          error_processing chk ret_val';
          Some s'
        }
        else Some s1);
     s3 \<leftarrow> (if previous_vmcs \<noteq> 0 then restore_previous_vmcs_ptr chk previous_vmcs s2 else Some s2);
     val \<leftarrow> read;
     Some (s3, val)
   }"

definition vmcs_act_write_to_hardware ::
    "bool \<Rightarrow> nat \<Rightarrow> 64 word \<Rightarrow> 'a vmcs_object_scheme \<Rightarrow> 'a vmcs_object_scheme option" where
  "vmcs_act_write_to_hardware chk field_id val s = do {
     (enc, access) \<leftarrow> vmcs_get_field_encoding (field_data s) field_id;
     vmm_assert chk (enc \<noteq> VMCS_NO_COMPONENT);
     access_type \<leftarrow> access;
     if VMCS_WRITABLE AND access_type = 0 then Some s
     else do {
       let (ret_val, s') = hw_vmx_write_current_vmcs enc val s;
       error_processing chk ret_val;
       Some s'
     }
   }"

section \<open>Accesses to a field\<close>

definition vmcs_act_write :: "bool \<Rightarrow> nat \<Rightarrow> 64 word \<Rightarrow> 'a vmcs_object_scheme \<Rightarrow> 'a vmcs_object_scheme option" where
  "vmcs_act_write chk field_id val s =
     (if \<not> sw_shadow_disable s
      then do {
        c \<leftarrow> cache64_write chk (sw_shadow_disable s) val field_id (vmcs_cache s);
        Some (s \<lparr> vmcs_cache := c \<rparr>)
      }
      else vmcs_act_write_to_hardware chk field_id val s)"

definition vmcs_act_read ::
    "bool \<Rightarrow> nat \<Rightarrow> 'a vmcs_object_scheme \<Rightarrow> ('a vmcs_object_scheme \<times> 64 word) option" where
  "vmcs_act_read chk field_id s = do {
     vmm_assert chk (field_id < VMCS_FIELD_COUNT);
     cached \<leftarrow> cache64_read chk (sw_shadow_disable s) field_id (vmcs_cache s);
     case cached of
       Some val \<Rightarrow> Some (s, val)
     | None \<Rightarrow>
         if vmcs_flags s AND NEVER_ACTIVATED_FLAG \<noteq> 0
         then do {
           c \<leftarrow> cache64_write chk (sw_shadow_disable s) 0 field_id (vmcs_cache s);
           Some (s \<lparr> vmcs_cache := c \<rparr>, 0)
         }
         else do {
           (s', val) \<leftarrow> vmcs_act_read_from_hardware chk field_id s;
           c \<leftarrow> cache64_write chk (sw_shadow_disable s') val field_id (vmcs_cache s');
           Some (s' \<lparr> vmcs_cache := c \<rparr>, val)
         }
   }"

definition vmcs_write_nocheck :: "bool \<Rightarrow> nat \<Rightarrow> 64 word \<Rightarrow> 'a vmcs_object_scheme \<Rightarrow> 'a vmcs_object_scheme option" where
  "vmcs_write_nocheck chk field_id val s = do {
     vmm_assert chk (field_id < VMCS_FIELD_COUNT);
     if field_id < VMCS_FIELD_COUNT then vmcs_act_write chk field_id val s else Some s
   }"

definition vmcs_write :: "bool \<Rightarrow> nat \<Rightarrow> 64 word \<Rightarrow> 'a vmcs_object_scheme \<Rightarrow> 'a vmcs_object_scheme option" where
  "vmcs_write chk field_id val s = do {
     vmm_assert chk (field_id < VMCS_FIELD_COUNT);
     writeable \<leftarrow> field_is_writeable (field_data s) field_id;
     vmm_assert chk writeable;
     if field_id < VMCS_FIELD_COUNT \<and> (skip_access_checking s \<or> writeable)
     then vmcs_act_write chk field_id val s
     else Some s
   }"

definition vmcs_read :: "bool \<Rightarrow> nat \<Rightarrow> 'a vmcs_object_scheme \<Rightarrow> ('a vmcs_object_scheme \<times> 64 word) option" where
  "vmcs_read chk field_id s = do {
     vmm_assert chk (field_id < VMCS_FIELD_COUNT);
     readable \<leftarrow> field_is_readable (field_data s) field_id;
     vmm_assert chk readable;
     if field_id < VMCS_FIELD_COUNT \<and> (skip_access_checking s \<or> readable)
     then vmcs_act_read chk field_id s
     else Some (s, - 1)
   }"

definition vmcs_update ::
    "bool \<Rightarrow> nat \<Rightarrow> 64 word \<Rightarrow> 64 word \<Rightarrow> 'a vmcs_object_scheme \<Rightarrow> 'a vmcs_object_scheme option" where
  "vmcs_update chk field_id val bits_to_update s = do {
     vmm_assert chk (field_id < VMCS_FIELD_COUNT);
     (s', result_value) \<leftarrow> vmcs_read chk field_id s;
     let val' = val AND bits_to_update;
     vmcs_write chk field_id ((result_value AND NOT bits_to_update) OR val') s'
   }"

section \<open>NMI window\<close>

definition nmi_is_nmi_occured :: "'a vmx_cpu_scheme \<Rightarrow> bool" where
  "nmi_is_nmi_occured s \<longleftrightarrow> fs_selector s \<noteq> 0"

definition nmi_window_set :: "'a vmx_cpu_scheme \<Rightarrow> 'a vmx_cpu_scheme" where
  "nmi_window_set s = s \<lparr> nmi_window := True \<rparr>"

definition nmi_window_clear :: "'a vmx_cpu_scheme \<Rightarrow> 'a vmx_cpu_scheme" where
  "nmi_window_clear s =
     (let s' = s \<lparr> nmi_window := False \<rparr>
      in if nmi_is_nmi_occured s' then s' \<lparr> nmi_window := True \<rparr> else s')"

definition nmi_remember_occured_nmi :: "'a vmx_cpu_scheme \<Rightarrow> 'a vmx_cpu_scheme" where
  "nmi_remember_occured_nmi s = nmi_window_set (s \<lparr> fs_selector := DATA32_GDT_ENTRY_OFFSET \<rparr>)"

definition nmi_window_is_requested :: "'a vmx_cpu_scheme \<Rightarrow> bool" where
  "nmi_window_is_requested s \<longleftrightarrow> nmi_is_nmi_occured s \<or> nmi_window s"

definition vmcs_nmi_handler :: "bool \<Rightarrow> 'a vmcs_object_scheme \<Rightarrow> 'a vmcs_object_scheme option" where
  "vmcs_nmi_handler chk s = do {
     let s1 = nmi_remember_occured_nmi s;
     let s2 = s1 \<lparr> update_status := UPDATE_FAILED \<rparr>;
     (s3, val) \<leftarrow> vmcs_act_read_from_hardware chk VMCS_CONTROL_VECTOR_PROCESSOR_EVENTS s2;
     vmcs_act_write_to_hardware chk VMCS_CONTROL_VECTOR_PROCESSOR_EVENTS (set_bit NMI_WINDOW_BIT val) s3
   }"

definition nmi_window_update_before_vmresume :: "bool \<Rightarrow> 'a vmcs_object_scheme \<Rightarrow> 'a vmcs_object_scheme option" where
  "nmi_window_update_before_vmresume chk s =
     (if nmi_is_nmi_occured s \<or> nmi_pending s
      then do {
        (s1, val) \<leftarrow> vmcs_act_read_from_hardware chk VMCS_CONTROL_VECTOR_PROCESSOR_EVENTS s;
        s2 \<leftarrow> vmcs_act_write_to_hardware chk VMCS_CONTROL_VECTOR_PROCESSOR_EVENTS (set_bit NMI_WINDOW_BIT val) s1;
        Some (nmi_window_set s2)
      }
      else Some s)"

definition vmcs_write_nmi_window_bit :: "bool \<Rightarrow> bool \<Rightarrow> 'a vmcs_object_scheme \<Rightarrow> 'a vmcs_object_scheme option" where
  "vmcs_write_nmi_window_bit chk val s = do {
     s' \<leftarrow> vmcs_update chk VMCS_CONTROL_VECTOR_PROCESSOR_EVENTS (if val then - 1 else 0)
            (push_bit NMI_WINDOW_BIT 1) s;
     Some (if val then nmi_window_set s' else nmi_window_clear s')
   }"

definition vmcs_read_nmi_window_bit :: "bool \<Rightarrow> 'a vmcs_object_scheme \<Rightarrow> ('a vmcs_object_scheme \<times> bool) option" where
  "vmcs_read_nmi_window_bit chk s = do {
     (s', val) \<leftarrow> vmcs_read chk VMCS_CONTROL_VECTOR_PROCESSOR_EVENTS s;
     Some (s', bit val NMI_WINDOW_BIT)
   }"

section \<open>Flushing the cache\<close>

text \<open>An interruptible point: the next entry of \<open>nmi_arrivals\<close> says whether an NMI is taken here.\<close>

definition nmi_point :: "bool \<Rightarrow> 'a vmcs_object_scheme \<Rightarrow> 'a vmcs_object_scheme option" where
  "nmi_point chk s =
     (case nmi_arrivals s of
        [] \<Rightarrow> Some s
      | arrives # later \<Rightarrow>
          (let s' = s \<lparr> nmi_arrivals := later \<rparr>
           in if arrives then vmcs_nmi_handler chk s' else Some s'))"

text \<open>
  One round of the loop, interruptible between any two of its steps.  The exchange of
  \<^verbatim>\<open>hw_interlocked_compare_exchange\<close> reads the status, reads it again, and stores the new or the
  second value; its result is the first value read.
\<close>

definition flush_nmi_round ::
    "bool \<Rightarrow> 64 word \<Rightarrow> 'a vmcs_object_scheme \<Rightarrow> ('a vmcs_object_scheme \<times> 64 word \<times> bool) option" where
  "flush_nmi_round chk val s = do {
     s1 \<leftarrow> nmi_point chk (s \<lparr> update_status := UPDATE_SUCCEEDED \<rparr>);
     let val' = (if nmi_window_is_requested s1 then set_bit NMI_WINDOW_BIT val else val);
     s2 \<leftarrow> nmi_point chk s1;
     s3 \<leftarrow> vmcs_act_write_to_hardware chk VMCS_CONTROL_VECTOR_PROCESSOR_EVENTS val' s2;
     s4 \<leftarrow> nmi_point chk s3;
     let old = update_status s4;
     s5 \<leftarrow> nmi_point chk s4;
     let edx = update_status s5;
     s6 \<leftarrow> nmi_point chk s5;
     let s7 = s6 \<lparr> update_status := (if edx = UPDATE_SUCCEEDED then UPDATE_FINISHED else edx) \<rparr>;
     Some (s7, val', old = UPDATE_SUCCEEDED)
   }"

text \<open>
  The rounds go on while NMIs spoil them.  The recursion is bounded by the arrivals that are left:
  \<open>flush_nmi_rounds\<close> below takes that bound explicitly and the lemmas show that it is never reached.
\<close>

fun flush_nmi_rounds :: "bool \<Rightarrow> nat \<Rightarrow> 64 word \<Rightarrow> 'a vmcs_object_scheme \<Rightarrow> 'a vmcs_object_scheme option" where
  "flush_nmi_rounds chk 0 val s = None"
| "flush_nmi_rounds chk (Suc n) val s = do {
     (s', val', success) \<leftarrow> flush_nmi_round chk val s;
     if success then Some s' else flush_nmi_rounds chk n val' s'
   }"

definition vmcs_act_flush_nmi_depended_field_to_cpu ::
    "bool \<Rightarrow> 64 word \<Rightarrow> 'a vmcs_object_scheme \<Rightarrow> 'a vmcs_object_scheme option" where
  "vmcs_act_flush_nmi_depended_field_to_cpu chk val s =
     flush_nmi_rounds chk (Suc (length (nmi_arrivals s))) val s"

text \<open>A failing read of the cache is logged and skipped.\<close>

definition vmcs_act_flush_field_to_cpu ::
    "bool \<Rightarrow> nat \<Rightarrow> 'a vmcs_object_scheme \<Rightarrow> 'a vmcs_object_scheme option" where
  "vmcs_act_flush_field_to_cpu chk field_id s0 = do {
     s \<leftarrow> nmi_point chk s0;
     cached \<leftarrow> cache64_read chk (sw_shadow_disable s) field_id (vmcs_cache s);
     case cached of
       None \<Rightarrow> Some s
     | Some val \<Rightarrow>
         if field_id \<noteq> VMCS_CONTROL_VECTOR_PROCESSOR_EVENTS
         then vmcs_act_write_to_hardware chk field_id val s
         else vmcs_act_flush_nmi_depended_field_to_cpu chk val s
   }"

definition vmcs_act_is_dirty :: "'a vmcs_object_scheme \<Rightarrow> bool" where
  "vmcs_act_is_dirty s \<longleftrightarrow> cache64_is_dirty (vmcs_cache s)"

definition vmcs_act_flush_to_cpu :: "bool \<Rightarrow> 'a vmcs_object_scheme \<Rightarrow> 'a vmcs_object_scheme option" where
  "vmcs_act_flush_to_cpu chk s = do {
     vmm_assert chk (owning_host_cpu s = this_cpu s);
     s0 \<leftarrow> nmi_point chk s;
     s1 \<leftarrow> (if nmi_window_is_requested s0
            then vmcs_update chk VMCS_CONTROL_VECTOR_PROCESSOR_EVENTS (- 1) (push_bit NMI_WINDOW_BIT 1) s0
            else Some s0);
     s2 \<leftarrow> nmi_point chk s1;
     s3 \<leftarrow> (if cache64_is_dirty (vmcs_cache s2)
            then cache64_flush_dirty vmcs_cache (\<lambda>c x. x \<lparr> vmcs_cache := c \<rparr>) CACHE_ALL_ENTRIES
                   (Some (vmcs_act_flush_field_to_cpu chk)) s2
            else Some s2);
     nmi_point chk s3
   }"

section \<open>Activation\<close>

definition vmcs_clear_cache :: "'a vmcs_object_scheme \<Rightarrow> 'a vmcs_object_scheme option" where
  "vmcs_clear_cache s = do {
     c \<leftarrow> cache64_invalidate CACHE_ALL_ENTRIES (vmcs_cache s);
     Some (s \<lparr> vmcs_cache := c \<rparr>)
   }"

definition vmcs_activate :: "bool \<Rightarrow> 'a vmcs_object_scheme \<Rightarrow> 'a vmcs_object_scheme option" where
  "vmcs_activate chk s = do {
     vmm_assert chk (vmcs_hpa s \<noteq> 0);
     vmm_assert chk (vmcs_flags s AND ACTIVATED_FLAG = 0);
     s1 \<leftarrow> (if vmcs_flags s AND NEVER_ACTIVATED_FLAG \<noteq> 0
            then do {
              let (ret_val, s') = hw_vmx_flush_current_vmcs (vmcs_hpa s) s;
              error_processing chk ret_val;
              Some s'
            }
            else Some s);
     let (ret_val, s2) = vmx_vmptrld (vmcs_hpa s1) s1;
     error_processing chk ret_val;
     Some (s2 \<lparr> owning_host_cpu := this_cpu s2,
               vmcs_flags := (vmcs_flags s2 OR ACTIVATED_FLAG) AND NOT NEVER_ACTIVATED_FLAG \<rparr>)
   }"

definition vmcs_deactivate :: "bool \<Rightarrow> 'a vmcs_object_scheme \<Rightarrow> 'a vmcs_object_scheme option" where
  "vmcs_deactivate chk s = do {
     vmm_assert chk (this_cpu s = owning_host_cpu s);
     Some (s \<lparr> vmcs_flags := vmcs_flags s AND NOT ACTIVATED_FLAG \<rparr>)
   }"

definition vmcs_launch_required :: "'a vmcs_object_scheme \<Rightarrow> bool" where
  "vmcs_launch_required s \<longleftrightarrow> vmcs_flags s AND LAUNCHED_FLAG = 0"

definition vmcs_set_launched :: "'a vmcs_object_scheme \<Rightarrow> 'a vmcs_object_scheme" where
  "vmcs_set_launched s = s \<lparr> vmcs_flags := vmcs_flags s OR LAUNCHED_FLAG \<rparr>"

definition vmcs_set_launch_required :: "'a vmcs_object_scheme \<Rightarrow> 'a vmcs_object_scheme" where
  "vmcs_set_launch_required s = s \<lparr> vmcs_flags := vmcs_flags s AND NOT LAUNCHED_FLAG \<rparr>"

definition vmcs_act_flush_to_memory :: "bool \<Rightarrow> 'a vmcs_object_scheme \<Rightarrow> 'a vmcs_object_scheme option" where
  "vmcs_act_flush_to_memory chk s =
     (if owning_host_cpu s = CPU_NEVER_USED then Some s
      else do {
        vmm_assert chk (this_cpu s = owning_host_cpu s);
        let previous_vmcs = vmx_vmptrst s (stack_cell s);
        s1 \<leftarrow> vmcs_activate chk s;
        s2 \<leftarrow> vmcs_act_flush_to_cpu chk s1;
        let (ret_val, s3) = hw_vmx_flush_current_vmcs (vmcs_hpa s2) s2;
        error_processing chk ret_val;
        s4 \<leftarrow> vmcs_deactivate chk s3;
        restore_previous_vmcs_ptr chk previous_vmcs
          (s4 \<lparr> vmcs_flags := vmcs_flags s4 AND NOT LAUNCHED_FLAG, owning_host_cpu := CPU_NEVER_USED \<rparr>)
      })"

section \<open>Specification\<close>

text \<open>The value of a field in the processor, and the value that a read of the object gives.\<close>

definition vmcs_hw :: "'a vmcs_object_scheme \<Rightarrow> nat \<Rightarrow> 64 word" where
  "vmcs_hw s f = vmcs_regions s (vmcs_hpa s) (encoding (field_data s ! f))"

definition vmcs_view :: "'a vmcs_object_scheme \<Rightarrow> nat \<Rightarrow> 64 word" where
  "vmcs_view s f = (case cache_lookup (vmcs_cache s) f of Some v \<Rightarrow> v | None \<Rightarrow> vmcs_hw s f)"

text \<open>
  The object is active on this CPU: its region is the current one, the table of fields is one that the
  initialisation produces, and the processor implements the fields that the table enables.
\<close>

definition vmcs_active :: "'a vmcs_object_scheme \<Rightarrow> bool" where
  "vmcs_active s \<longleftrightarrow>
     cache_ok (vmcs_cache s) \<and> num_of_entries (vmcs_cache s) = VMCS_FIELD_COUNT \<and>
     \<not> sw_shadow_disable s \<and> vmcs_flags s AND ACTIVATED_FLAG \<noteq> 0 \<and>
     vmcs_flags s AND NEVER_ACTIVATED_FLAG = 0 \<and>
     owning_host_cpu s = this_cpu s \<and> this_cpu s \<noteq> CPU_NEVER_USED \<and>
     current_vmcs s = vmcs_hpa s \<and> vmcs_hpa s \<noteq> HW_VMCS_IS_EMPTY \<and>
     (\<exists>c. field_data s = enable_vmcs_2_0_fields c g_field_data) \<and>
     (\<forall>e \<in> set (field_data s). access e \<noteq> NO_EXIST \<longrightarrow>
        vmread_ok s (encoding e) \<and> (VMCS_WRITABLE AND access e \<noteq> 0 \<longrightarrow> vmwrite_ok s (encoding e)))"

abbreviation (input) field_readable :: "'a vmcs_object_scheme \<Rightarrow> nat \<Rightarrow> bool" where
  "field_readable s f \<equiv> f < VMCS_FIELD_COUNT \<and> access (field_data s ! f) AND VMCS_READABLE \<noteq> 0"

abbreviation (input) field_writeable :: "'a vmcs_object_scheme \<Rightarrow> nat \<Rightarrow> bool" where
  "field_writeable s f \<equiv> f < VMCS_FIELD_COUNT \<and>
     access (field_data s ! f) AND (VMCS_WRITABLE OR VMCS_WRITABLE_IN_CACHE) \<noteq> 0"

abbreviation (input) field_hw_writeable :: "'a vmcs_object_scheme \<Rightarrow> nat \<Rightarrow> bool" where
  "field_hw_writeable s f \<equiv> f < VMCS_FIELD_COUNT \<and> VMCS_WRITABLE AND access (field_data s ! f) \<noteq> 0"

text \<open>
  A cached value agrees with the processor: the same value, except that the processor may have the NMI
  window open where the cached controls have it closed.
\<close>

definition vmcs_agrees :: "nat \<Rightarrow> 64 word \<Rightarrow> 64 word \<Rightarrow> bool" where
  "vmcs_agrees f v h \<longleftrightarrow>
     (if f = VMCS_CONTROL_VECTOR_PROCESSOR_EVENTS
      then set_bit NMI_WINDOW_BIT v = set_bit NMI_WINDOW_BIT h \<and> (bit v NMI_WINDOW_BIT \<longrightarrow> bit h NMI_WINDOW_BIT)
      else v = h)"

text \<open>Cached values that the next flush does not write agree with the processor already.\<close>

definition vmcs_synced :: "'a vmcs_object_scheme \<Rightarrow> bool" where
  "vmcs_synced s \<longleftrightarrow> (\<forall>f v. field_hw_writeable s f \<and> cache_lookup (vmcs_cache s) f = Some v \<and>
     \<not> (cache_marked (vmcs_cache s) f \<and> cache64_is_dirty (vmcs_cache s)) \<longrightarrow> vmcs_agrees f v (vmcs_hw s f))"

text \<open>Two states that differ only in the VMCS region and in what NMIs change.\<close>

definition vmcs_same :: "'a vmcs_object_scheme \<Rightarrow> 'a vmcs_object_scheme \<Rightarrow> bool" where
  "vmcs_same s s' \<longleftrightarrow>
     this_cpu s' = this_cpu s \<and> sw_shadow_disable s' = sw_shadow_disable s \<and>
     current_vmcs s' = current_vmcs s \<and> region_ok s' = region_ok s \<and> vmread_ok s' = vmread_ok s \<and>
     vmwrite_ok s' = vmwrite_ok s \<and> nmi_pending s' = nmi_pending s \<and> stack_cell s' = stack_cell s \<and> temp_cell s' = temp_cell s \<and>
     field_data s' = field_data s \<and> skip_access_checking s' = skip_access_checking s \<and>
     vmcs_cache s' = vmcs_cache s \<and> vmcs_hpa s' = vmcs_hpa s \<and> vmcs_flags s' = vmcs_flags s \<and>
     owning_host_cpu s' = owning_host_cpu s \<and> vmcs_object.more s' = vmcs_object.more s \<and>
     (\<forall>r. r \<noteq> vmcs_hpa s \<longrightarrow> vmcs_regions s' r = vmcs_regions s r)"

text \<open>NMIs were taken as \<open>nmi_arrivals\<close> says, and each of them is remembered.\<close>

definition nmi_progress :: "'a vmcs_object_scheme \<Rightarrow> 'a vmcs_object_scheme \<Rightarrow> bool" where
  "nmi_progress s s' \<longleftrightarrow> vmcs_same s s' \<and>
     (\<exists>taken. nmi_arrivals s = taken @ nmi_arrivals s' \<and>
        (True \<in> set taken \<or> nmi_window_is_requested s \<longrightarrow> nmi_window_is_requested s'))"

text \<open>The effect of the NMI handler on an active object.\<close>

definition nmi_effect :: "'a vmcs_object_scheme \<Rightarrow> 'a vmcs_object_scheme" where
  "nmi_effect s = s \<lparr> fs_selector := DATA32_GDT_ENTRY_OFFSET, nmi_window := True, update_status := UPDATE_FAILED,
     vmcs_regions := (vmcs_regions s)(vmcs_hpa s := (vmcs_regions s (vmcs_hpa s))
       (encoding (field_data s ! VMCS_CONTROL_VECTOR_PROCESSOR_EVENTS) :=
          set_bit NMI_WINDOW_BIT (vmcs_hw s VMCS_CONTROL_VECTOR_PROCESSOR_EVENTS))) \<rparr>"

definition hw_store :: "nat \<Rightarrow> 64 word \<Rightarrow> 'a vmcs_object_scheme \<Rightarrow> 'a vmcs_object_scheme" where
  "hw_store f v s = s \<lparr> vmcs_regions := (vmcs_regions s)(vmcs_hpa s :=
     (vmcs_regions s (vmcs_hpa s))(encoding (field_data s ! f) := v)) \<rparr>"

text \<open>The other fields are kept.\<close>

definition other_fields_kept :: "'a vmcs_object_scheme \<Rightarrow> 'a vmcs_object_scheme \<Rightarrow> bool" where
  "other_fields_kept s s' \<longleftrightarrow>
     (\<forall>f < VMCS_FIELD_COUNT. f \<noteq> VMCS_CONTROL_VECTOR_PROCESSOR_EVENTS \<longrightarrow> vmcs_hw s' f = vmcs_hw s f)"

text \<open>The window of the processor is open when an NMI is remembered.\<close>

definition window_shown :: "'a vmcs_object_scheme \<Rightarrow> bool" where
  "window_shown s \<longleftrightarrow>
     (nmi_window_is_requested s \<longrightarrow> bit (vmcs_hw s VMCS_CONTROL_VECTOR_PROCESSOR_EVENTS) NMI_WINDOW_BIT)"

text \<open>What the flush of one field achieves.\<close>

definition field_flushed :: "nat \<Rightarrow> 'a vmcs_object_scheme \<Rightarrow> 'a vmcs_object_scheme \<Rightarrow> bool" where
  "field_flushed f s s' \<longleftrightarrow> nmi_progress s s' \<and> vmcs_active s' \<and>
     (\<forall>v. cache_lookup (vmcs_cache s) f = Some v \<and> field_hw_writeable s f \<longrightarrow> vmcs_agrees f v (vmcs_hw s' f)) \<and>
     (\<forall>g < VMCS_FIELD_COUNT. g \<noteq> f \<or> cache_lookup (vmcs_cache s) f = None \<or> \<not> field_hw_writeable s f \<longrightarrow>
        vmcs_agrees g (vmcs_hw s g) (vmcs_hw s' g)) \<and>
     (f = VMCS_CONTROL_VECTOR_PROCESSOR_EVENTS \<and> cache_lookup (vmcs_cache s) f \<noteq> None \<or> window_shown s \<longrightarrow>
        window_shown s')"

text \<open>A freshly activated object on a processor where the second interruptible point takes an NMI.\<close>

definition vmcs_example_constraints :: vmcs_hw_constraints where
  "vmcs_example_constraints =
     \<lparr> ept_supported = True, vpid_supported = True, ve_supported = False, entry_load_efer = True,
       entry_load_pat = True, entry_load_perf_global_ctrl = False, exit_save_efer = True,
       exit_save_pat = True, exit_load_efer = True, exit_load_pat = True,
       exit_load_perf_global_ctrl = False, pin_vmx_timer = False \<rparr>"

definition vmcs_example :: vmcs_object where
  "vmcs_example =
     \<lparr> this_cpu = 0, sw_shadow_disable = False, current_vmcs = 0x1000, vmcs_regions = (\<lambda>_ _. 0),
       region_ok = (\<lambda>a. a mod PAGE_4KB_SIZE = 0), vmread_ok = (\<lambda>_. True), vmwrite_ok = (\<lambda>_. True),
       fs_selector = 0, nmi_window = False, nmi_pending = False, nmi_arrivals = [False, True],
       stack_cell = 0x5000, temp_cell = 0x6000, field_data = enable_vmcs_2_0_fields vmcs_example_constraints g_field_data,
       skip_access_checking = False,
       vmcs_cache = \<lparr> num_of_entries = VMCS_FIELD_COUNT, bitmap_size = 17, cache_flags = 0,
                      cache_table = replicate VMCS_FIELD_COUNT 0, dirty_bits = replicate 17 0,
                      valid_bits = replicate 17 0, cache_ptr = 0x100, table_ptr = 0x200,
                      dirty_ptr = 0x300, valid_ptr = 0x400 \<rparr>,
       vmcs_hpa = 0x1000, update_status = UPDATE_SUCCEEDED, vmcs_flags = ACTIVATED_FLAG,
       owning_host_cpu = 0 \<rparr>"

section \<open>The table of an active object\<close>

lemma active_encoding:
  assumes "vmcs_active s" "f < VMCS_FIELD_COUNT"
  shows "length (field_data s) = Suc VMCS_FIELD_COUNT"
    "encoding (field_data s ! f) = encoding (g_field_data ! f)" "encoding (field_data s ! f) < 2 ^ 16"
    "encoding (field_data s ! f) \<noteq> VMCS_NO_COMPONENT"
    "vmcs_get_field_encoding (field_data s) f
       = Some (encoding (field_data s ! f), Some (access (field_data s ! f)))"
proof -
  obtain c where c: "field_data s = enable_vmcs_2_0_fields c g_field_data"
    using assms(1) by (auto simp: vmcs_active_def)
  show l: "length (field_data s) = Suc VMCS_FIELD_COUNT" by (simp add: c enable_vmcs_2_0_fields_nth)
  show e: "encoding (field_data s ! f) = encoding (g_field_data ! f)"
    using assms(2) by (simp add: c enable_vmcs_2_0_fields_nth)
  show "encoding (field_data s ! f) < 2 ^ 16" using g_field_data_ranges [OF assms(2)] e by simp
  show "encoding (field_data s ! f) \<noteq> VMCS_NO_COMPONENT"
    using g_field_data_ranges [OF assms(2)] e by auto
  show "vmcs_get_field_encoding (field_data s) f
       = Some (encoding (field_data s ! f), Some (access (field_data s ! f)))"
    using assms(2) l by (simp add: vmcs_get_field_encoding_def)
qed

lemma active_encoding_inj:
  assumes "vmcs_active s" "f < VMCS_FIELD_COUNT" "g < VMCS_FIELD_COUNT"
  shows "encoding (field_data s ! f) = encoding (field_data s ! g) \<longleftrightarrow> f = g"
  using active_encoding(2) [OF assms(1,2)] active_encoding(2) [OF assms(1,3)]
    g_field_data_encoding_inj [OF assms(2,3)] by simp

lemma active_hw_ok:
  assumes "vmcs_active s" "f < VMCS_FIELD_COUNT" "access (field_data s ! f) \<noteq> NO_EXIST"
  shows "vmread_ok s (encoding (field_data s ! f))"
    "VMCS_WRITABLE AND access (field_data s ! f) \<noteq> 0 \<Longrightarrow> vmwrite_ok s (encoding (field_data s ! f))"
proof -
  have "field_data s ! f \<in> set (field_data s)"
    using active_encoding(1) [OF assms(1,2)] assms(2) by simp
  then show "vmread_ok s (encoding (field_data s ! f))"
    "VMCS_WRITABLE AND access (field_data s ! f) \<noteq> 0 \<Longrightarrow> vmwrite_ok s (encoding (field_data s ! f))"
    using assms(1,3) unfolding vmcs_active_def by blast+
qed

lemma active_proc_events:
  assumes "vmcs_active s"
  shows "access (field_data s ! VMCS_CONTROL_VECTOR_PROCESSOR_EVENTS) = WRITABLE"
    "encoding (field_data s ! VMCS_CONTROL_VECTOR_PROCESSOR_EVENTS) = VM_X_CONTROL_VECTOR_PROCESSOR_EVENTS"
proof -
  obtain c where c: "field_data s = enable_vmcs_2_0_fields c g_field_data"
    using assms(1) by (auto simp: vmcs_active_def)
  have g: "access (g_field_data ! VMCS_CONTROL_VECTOR_PROCESSOR_EVENTS) = WRITABLE"
    "encoding (g_field_data ! VMCS_CONTROL_VECTOR_PROCESSOR_EVENTS) = VM_X_CONTROL_VECTOR_PROCESSOR_EVENTS"
    by (simp_all add: g_field_data_def field_entry_def)
  show "access (field_data s ! VMCS_CONTROL_VECTOR_PROCESSOR_EVENTS) = WRITABLE"
    using enable_vmcs_2_0_fields_fixed [of VMCS_CONTROL_VECTOR_PROCESSOR_EVENTS g_field_data c] g c by simp
  show "encoding (field_data s ! VMCS_CONTROL_VECTOR_PROCESSOR_EVENTS) = VM_X_CONTROL_VECTOR_PROCESSOR_EVENTS"
    using g c by (simp add: enable_vmcs_2_0_fields_nth)
qed

section \<open>Hardware accesses of an active object\<close>

lemma error_processing_success [simp]: "error_processing chk 0 = Some ()"
  by (simp add: error_processing_def)

lemma active_read_from_hardware:
  assumes "vmcs_active s" "f < VMCS_FIELD_COUNT" "access (field_data s ! f) \<noteq> NO_EXIST"
  shows "vmcs_act_read_from_hardware chk f s = Some (s, vmcs_hw s f)"
  using assms active_encoding(4,5) [OF assms(1,2)] active_hw_ok(1) [OF assms]
  by (simp add: vmcs_act_read_from_hardware_def vmcs_active_def hw_vmx_read_current_vmcs_def vmcs_hw_def)

lemma active_write_to_hardware:
  assumes "vmcs_active s" "f < VMCS_FIELD_COUNT"
  shows "vmcs_act_write_to_hardware chk f v s = Some (if field_hw_writeable s f then hw_store f v s else s)"
proof (cases "VMCS_WRITABLE AND access (field_data s ! f) = 0")
  case True
  then show ?thesis
    using assms active_encoding(4,5) [OF assms] by (simp add: vmcs_act_write_to_hardware_def)
next
  case False
  then have "vmwrite_ok s (encoding (field_data s ! f))"
    using active_hw_ok(2) [OF assms] by (cases "access (field_data s ! f) = 0") auto
  then show ?thesis
    using assms active_encoding(4,5) [OF assms] False
    by (simp add: vmcs_act_write_to_hardware_def hw_vmx_write_current_vmcs_def hw_store_def vmcs_active_def)
qed

lemma vmcs_same_active: "vmcs_same s s' \<Longrightarrow> vmcs_active s' \<longleftrightarrow> vmcs_active s"
  by (simp add: vmcs_same_def vmcs_active_def)

lemma vmcs_same_refl [simp]: "vmcs_same s s"
  by (simp add: vmcs_same_def)

lemma vmcs_same_trans: "vmcs_same s s' \<Longrightarrow> vmcs_same s' s'' \<Longrightarrow> vmcs_same s s''"
  by (simp add: vmcs_same_def)

lemma vmcs_same_hw_store [simp]: "vmcs_same s (hw_store f v s)"
  by (simp add: vmcs_same_def hw_store_def)

lemma vmcs_same_nmi_effect [simp]: "vmcs_same s (nmi_effect s)"
  by (simp add: vmcs_same_def nmi_effect_def)

lemma vmcs_hw_store:
  assumes "vmcs_active s" "f < VMCS_FIELD_COUNT" "g < VMCS_FIELD_COUNT"
  shows "vmcs_hw (hw_store f v s) g = (if g = f then v else vmcs_hw s g)"
  using active_encoding_inj [OF assms(1,3,2)] by (auto simp: vmcs_hw_def hw_store_def)

lemma vmcs_hw_nmi_effect:
  assumes "vmcs_active s" "g < VMCS_FIELD_COUNT"
  shows "vmcs_hw (nmi_effect s) g =
    (if g = VMCS_CONTROL_VECTOR_PROCESSOR_EVENTS then set_bit NMI_WINDOW_BIT (vmcs_hw s g) else vmcs_hw s g)"
  using active_encoding_inj [OF assms(1,2), of VMCS_CONTROL_VECTOR_PROCESSOR_EVENTS]
  by (auto simp: vmcs_hw_def nmi_effect_def)

section \<open>Reads and writes of an active object\<close>

lemma field_is_readable_active:
  "vmcs_active s \<Longrightarrow> f < VMCS_FIELD_COUNT \<Longrightarrow>
     field_is_readable (field_data s) f = Some (access (field_data s ! f) AND VMCS_READABLE \<noteq> 0)"
  using active_encoding(1) [of s f] by (simp add: field_is_readable_def field_access_def)

lemma field_is_writeable_active:
  "vmcs_active s \<Longrightarrow> f < VMCS_FIELD_COUNT \<Longrightarrow>
     field_is_writeable (field_data s) f =
       Some (access (field_data s ! f) AND (VMCS_WRITABLE OR VMCS_WRITABLE_IN_CACHE) \<noteq> 0)"
  using active_encoding(1) [of s f] by (simp add: field_is_writeable_def field_access_def)

lemma vmcs_active_cache:
  "vmcs_active s \<Longrightarrow> cache_ok c \<Longrightarrow> num_of_entries c = VMCS_FIELD_COUNT \<Longrightarrow>
     vmcs_active (s \<lparr> vmcs_cache := c \<rparr>)"
  by (simp add: vmcs_active_def)

lemma vmcs_hw_cache [simp]: "vmcs_hw (s \<lparr> vmcs_cache := c \<rparr>) f = vmcs_hw s f"
  by (simp add: vmcs_hw_def)

text \<open>The cache after a value was entered.\<close>

lemma vmcs_synced_enter:
  assumes "vmcs_synced s"
    "cache_lookup c' = (cache_lookup (vmcs_cache s))(f \<mapsto> v)"
    "cache_lookup (vmcs_cache s) f = Some v \<and> c' = vmcs_cache s \<or>
     cache64_is_dirty c' \<and> (\<forall>i. cache_marked c' i \<longleftrightarrow> i = f \<or> cache_marked (vmcs_cache s) i)"
  shows "vmcs_synced (s \<lparr> vmcs_cache := c' \<rparr>)"
  using assms by (auto simp: vmcs_synced_def split: if_splits)

lemma vmcs_write_active:
  assumes "vmcs_active s" "field_writeable s f"
  shows "\<exists>c. vmcs_write chk f v s = Some (s \<lparr> vmcs_cache := c \<rparr>) \<and> vmcs_active (s \<lparr> vmcs_cache := c \<rparr>) \<and>
    vmcs_view (s \<lparr> vmcs_cache := c \<rparr>) = (vmcs_view s)(f := v) \<and>
    cache_lookup c f = Some v \<and> (vmcs_synced s \<longrightarrow> vmcs_synced (s \<lparr> vmcs_cache := c \<rparr>))"
proof -
  have ok: "cache_ok (vmcs_cache s)" "f < num_of_entries (vmcs_cache s)" "\<not> sw_shadow_disable s"
    using assms by (simp_all add: vmcs_active_def)
  obtain c where c: "cache64_write chk False v f (vmcs_cache s) = Some c" "cache_ok c"
      "num_of_entries c = num_of_entries (vmcs_cache s)"
      "cache_lookup c = (cache_lookup (vmcs_cache s))(f \<mapsto> v)"
      "cache_lookup (vmcs_cache s) f = Some v \<and> c = vmcs_cache s \<or>
       cache64_is_dirty c \<and> (\<forall>i. cache_marked c i \<longleftrightarrow> i = f \<or> cache_marked (vmcs_cache s) i)"
    using cache64_write_ex [OF ok(1,2)] by blast
  have "vmcs_write chk f v s = Some (s \<lparr> vmcs_cache := c \<rparr>)"
    using assms ok c(1) by (simp add: vmcs_write_def field_is_writeable_active vmcs_act_write_def)
  moreover have "vmcs_active (s \<lparr> vmcs_cache := c \<rparr>)"
    using vmcs_active_cache [OF assms(1) c(2)] c(3) assms(1) by (simp add: vmcs_active_def)
  moreover have "vmcs_view (s \<lparr> vmcs_cache := c \<rparr>) = (vmcs_view s)(f := v)"
    using c(4) by (auto simp: vmcs_view_def fun_eq_iff split: option.splits)
  ultimately show ?thesis using c(4,5) vmcs_synced_enter [of s c f v] by (intro exI [of _ c]) simp
qed

lemma vmcs_read_active:
  assumes "vmcs_active s" "field_readable s f"
  shows "\<exists>c. vmcs_read chk f s = Some (s \<lparr> vmcs_cache := c \<rparr>, vmcs_view s f) \<and>
    vmcs_active (s \<lparr> vmcs_cache := c \<rparr>) \<and> vmcs_view (s \<lparr> vmcs_cache := c \<rparr>) = vmcs_view s \<and>
    cache_lookup c f = Some (vmcs_view s f) \<and> (vmcs_synced s \<longrightarrow> vmcs_synced (s \<lparr> vmcs_cache := c \<rparr>))"
proof -
  have ok: "cache_ok (vmcs_cache s)" "f < num_of_entries (vmcs_cache s)" "\<not> sw_shadow_disable s"
    using assms by (simp_all add: vmcs_active_def)
  have rd: "vmcs_read chk f s = vmcs_act_read chk f s"
    using assms by (simp add: vmcs_read_def field_is_readable_active)
  show ?thesis
  proof (cases "cache_lookup (vmcs_cache s) f")
    case (Some v)
    then have "vmcs_read chk f s = Some (s \<lparr> vmcs_cache := vmcs_cache s \<rparr>, vmcs_view s f)"
      using assms ok by (simp add: rd vmcs_act_read_def vmcs_view_def)
    then show ?thesis using assms(1) Some by (intro exI [of _ "vmcs_cache s"]) (simp add: vmcs_view_def)
  next
    case None
    then have view: "vmcs_view s f = vmcs_hw s f" by (simp add: vmcs_view_def)
    obtain c where c: "cache64_write chk False (vmcs_hw s f) f (vmcs_cache s) = Some c" "cache_ok c"
        "num_of_entries c = num_of_entries (vmcs_cache s)"
        "cache_lookup c = (cache_lookup (vmcs_cache s))(f \<mapsto> vmcs_hw s f)"
        "cache_lookup (vmcs_cache s) f = Some (vmcs_hw s f) \<and> c = vmcs_cache s \<or>
         cache64_is_dirty c \<and> (\<forall>i. cache_marked c i \<longleftrightarrow> i = f \<or> cache_marked (vmcs_cache s) i)"
      using cache64_write_ex [OF ok(1,2)] by blast
    have acc: "access (field_data s ! f) \<noteq> 0" using assms(2) by auto
    have "vmcs_flags s AND NEVER_ACTIVATED_FLAG = 0" using assms(1) by (simp add: vmcs_active_def)
    then have "vmcs_read chk f s = Some (s \<lparr> vmcs_cache := c \<rparr>, vmcs_view s f)"
      using assms ok c(1) None view active_read_from_hardware [OF assms(1) _ acc]
      by (simp add: rd vmcs_act_read_def)
    moreover have "vmcs_active (s \<lparr> vmcs_cache := c \<rparr>)"
      using vmcs_active_cache [OF assms(1) c(2)] c(3) assms(1) by (simp add: vmcs_active_def)
    moreover have "vmcs_view (s \<lparr> vmcs_cache := c \<rparr>) = vmcs_view s"
      using c(4) view by (auto simp: vmcs_view_def fun_eq_iff split: option.splits)
    ultimately show ?thesis
      using c(4,5) view vmcs_synced_enter [of s c f "vmcs_hw s f"] by (intro exI [of _ c]) simp
  qed
qed

section \<open>NMIs during a flush\<close>

lemma nmi_progress_refl [simp]: "nmi_progress s s"
  by (auto simp: nmi_progress_def intro: exI [of _ "[]"])

lemma nmi_progress_trans:
  assumes "nmi_progress s s'" "nmi_progress s' s''"
  shows "nmi_progress s s''"
proof -
  obtain t where t: "nmi_arrivals s = t @ nmi_arrivals s'"
      "True \<in> set t \<or> nmi_window_is_requested s \<longrightarrow> nmi_window_is_requested s'"
    using assms(1) by (auto simp: nmi_progress_def)
  obtain t' where t': "nmi_arrivals s' = t' @ nmi_arrivals s''"
      "True \<in> set t' \<or> nmi_window_is_requested s' \<longrightarrow> nmi_window_is_requested s''"
    using assms(2) by (auto simp: nmi_progress_def)
  have "vmcs_same s s''" using assms vmcs_same_trans by (auto simp: nmi_progress_def)
  moreover have "nmi_arrivals s = (t @ t') @ nmi_arrivals s''" using t(1) t'(1) by simp
  moreover have "True \<in> set (t @ t') \<or> nmi_window_is_requested s \<longrightarrow> nmi_window_is_requested s''"
    using t(2) t'(2) by auto
  ultimately show ?thesis unfolding nmi_progress_def by blast
qed

lemma nmi_progressD:
  "nmi_progress s s' \<Longrightarrow> vmcs_same s s'"
  "nmi_progress s s' \<Longrightarrow> nmi_window_is_requested s \<Longrightarrow> nmi_window_is_requested s'"
  "nmi_progress s s' \<Longrightarrow> length (nmi_arrivals s') \<le> length (nmi_arrivals s)"
  by (auto simp: nmi_progress_def)

lemma nmi_progress_hw_store [simp]: "nmi_progress s (hw_store f v s)"
  by (auto simp: nmi_progress_def nmi_window_is_requested_def nmi_is_nmi_occured_def hw_store_def
        vmcs_same_def intro: exI [of _ "[]"])

lemma nmi_progress_status [simp]: "nmi_progress s (s \<lparr> update_status := u \<rparr>)"
  by (auto simp: nmi_progress_def nmi_window_is_requested_def nmi_is_nmi_occured_def
        vmcs_same_def intro: exI [of _ "[]"])

lemma vmcs_active_simps [simp]:
  "vmcs_active (s \<lparr> update_status := u \<rparr>) \<longleftrightarrow> vmcs_active s"
  "vmcs_active (s \<lparr> nmi_arrivals := a \<rparr>) \<longleftrightarrow> vmcs_active s"
  by (simp_all add: vmcs_active_def)

lemma vmcs_hw_simps [simp]:
  "vmcs_hw (s \<lparr> update_status := u \<rparr>) f = vmcs_hw s f"
  "vmcs_hw (s \<lparr> nmi_arrivals := a \<rparr>) f = vmcs_hw s f"
  "vmcs_hw (s \<lparr> nmi_window := w \<rparr>) f = vmcs_hw s f"
  "vmcs_hw (s \<lparr> fs_selector := g \<rparr>) f = vmcs_hw s f"
  by (simp_all add: vmcs_hw_def)

lemma vmcs_nmi_handler_active:
  assumes "vmcs_active s"
  shows "vmcs_nmi_handler chk s = Some (nmi_effect s)"
proof -
  let ?s = "s \<lparr> fs_selector := DATA32_GDT_ENTRY_OFFSET, nmi_window := True, update_status := UPDATE_FAILED \<rparr>"
  have a: "vmcs_active ?s" using assms by (simp add: vmcs_active_def)
  have acc: "access (field_data ?s ! VMCS_CONTROL_VECTOR_PROCESSOR_EVENTS) = WRITABLE"
    using active_proc_events(1) [OF a] .
  have "vmcs_act_read_from_hardware chk VMCS_CONTROL_VECTOR_PROCESSOR_EVENTS ?s
      = Some (?s, vmcs_hw ?s VMCS_CONTROL_VECTOR_PROCESSOR_EVENTS)"
    using active_read_from_hardware [OF a, of VMCS_CONTROL_VECTOR_PROCESSOR_EVENTS] acc by simp
  moreover have "vmcs_act_write_to_hardware chk VMCS_CONTROL_VECTOR_PROCESSOR_EVENTS v ?s
      = Some (hw_store VMCS_CONTROL_VECTOR_PROCESSOR_EVENTS v ?s)" for v
    using active_write_to_hardware [OF a, of VMCS_CONTROL_VECTOR_PROCESSOR_EVENTS] acc by simp
  ultimately show ?thesis
    by (simp add: vmcs_nmi_handler_def nmi_remember_occured_nmi_def nmi_window_set_def nmi_effect_def
          hw_store_def vmcs_hw_def)
qed

text \<open>At an interruptible point either nothing happens or the handler runs.\<close>

lemma nmi_point_cases:
  assumes "vmcs_active s"
  obtains (quiet) a where "nmi_point chk s = Some (s \<lparr> nmi_arrivals := a \<rparr>)" "nmi_progress s (s \<lparr> nmi_arrivals := a \<rparr>)"
  | (nmi) a where "nmi_point chk s = Some (nmi_effect (s \<lparr> nmi_arrivals := a \<rparr>))"
      "nmi_progress s (nmi_effect (s \<lparr> nmi_arrivals := a \<rparr>))" "length a < length (nmi_arrivals s)"
proof (cases "nmi_arrivals s")
  case Nil
  have "s \<lparr> nmi_arrivals := nmi_arrivals s \<rparr> = s" by simp
  then have "nmi_point chk s = Some (s \<lparr> nmi_arrivals := [] \<rparr>)"
    using Nil by (simp add: nmi_point_def)
  moreover have "nmi_progress s (s \<lparr> nmi_arrivals := [] \<rparr>)"
    using Nil by (auto simp: nmi_progress_def nmi_window_is_requested_def nmi_is_nmi_occured_def vmcs_same_def)
  ultimately show ?thesis using quiet by blast
next
  case (Cons b a)
  show ?thesis
  proof (cases b)
    case False
    have "nmi_progress s (s \<lparr> nmi_arrivals := a \<rparr>)"
      using Cons False
      by (auto simp: nmi_progress_def nmi_window_is_requested_def nmi_is_nmi_occured_def vmcs_same_def
            intro: exI [of _ "[b]"])
    then show ?thesis using quiet [of a] Cons False by (simp add: nmi_point_def)
  next
    case True
    have "nmi_progress s (nmi_effect (s \<lparr> nmi_arrivals := a \<rparr>))"
      using Cons True
      by (auto simp: nmi_progress_def nmi_window_is_requested_def nmi_is_nmi_occured_def vmcs_same_def
            nmi_effect_def intro: exI [of _ "[b]"])
    then show ?thesis
      using nmi [of a] Cons True assms by (simp add: nmi_point_def vmcs_nmi_handler_active)
  qed
qed

lemma nmi_effect_simps [simp]:
  "nmi_arrivals (nmi_effect s) = nmi_arrivals s" "update_status (nmi_effect s) = UPDATE_FAILED"
  "nmi_window_is_requested (nmi_effect s)" "vmcs_active (nmi_effect s) \<longleftrightarrow> vmcs_active s"
  "nmi_window_is_requested (s \<lparr> nmi_arrivals := a \<rparr>) \<longleftrightarrow> nmi_window_is_requested s"
  "nmi_window_is_requested (s \<lparr> update_status := u \<rparr>) \<longleftrightarrow> nmi_window_is_requested s"
  using vmcs_same_active [OF vmcs_same_nmi_effect, of s]
  by (simp_all add: nmi_effect_def nmi_window_is_requested_def nmi_is_nmi_occured_def)

text \<open>What a point keeps: the state of the VMCS region up to the NMI window, which it may only open.\<close>

lemma nmi_point_spec:
  assumes "vmcs_active s"
  shows "\<exists>s'. nmi_point chk s = Some s' \<and> nmi_progress s s' \<and> vmcs_active s' \<and>
    (\<forall>f < VMCS_FIELD_COUNT. f \<noteq> VMCS_CONTROL_VECTOR_PROCESSOR_EVENTS \<longrightarrow> vmcs_hw s' f = vmcs_hw s f) \<and>
    (update_status s' = update_status s \<and>
     vmcs_hw s' VMCS_CONTROL_VECTOR_PROCESSOR_EVENTS = vmcs_hw s VMCS_CONTROL_VECTOR_PROCESSOR_EVENTS \<and>
     (nmi_window_is_requested s' \<longrightarrow> nmi_window_is_requested s)
     \<or> update_status s' = UPDATE_FAILED \<and>
     vmcs_hw s' VMCS_CONTROL_VECTOR_PROCESSOR_EVENTS
       = set_bit NMI_WINDOW_BIT (vmcs_hw s VMCS_CONTROL_VECTOR_PROCESSOR_EVENTS) \<and>
     nmi_window_is_requested s' \<and> length (nmi_arrivals s') < length (nmi_arrivals s))"
  using assms
proof (cases rule: nmi_point_cases [where chk = chk, consumes 1, case_names quiet nmi])
  case (quiet a)
  then show ?thesis using assms by (intro exI [of _ "s \<lparr> nmi_arrivals := a \<rparr>"]) simp
next
  case (nmi a)
  then show ?thesis
    using assms by (intro exI [of _ "nmi_effect (s \<lparr> nmi_arrivals := a \<rparr>)"]) (simp add: vmcs_hw_nmi_effect)
qed

lemma set_bit_window [simp]:
  "set_bit NMI_WINDOW_BIT (set_bit NMI_WINDOW_BIT v) = set_bit NMI_WINDOW_BIT (v :: 64 word)"
  "bit (set_bit NMI_WINDOW_BIT (v :: 64 word)) NMI_WINDOW_BIT"
  by (simp_all add: bit_eq_iff bit_simps)

lemma active_store_events:
  assumes "vmcs_active s"
  shows "vmcs_act_write_to_hardware chk VMCS_CONTROL_VECTOR_PROCESSOR_EVENTS v s
      = Some (hw_store VMCS_CONTROL_VECTOR_PROCESSOR_EVENTS v s)"
  using active_write_to_hardware [OF assms, of VMCS_CONTROL_VECTOR_PROCESSOR_EVENTS]
    active_proc_events(1) [OF assms] by simp

lemma hw_store_simps [simp]:
  "update_status (hw_store f v s) = update_status s" "nmi_arrivals (hw_store f v s) = nmi_arrivals s"
  "nmi_window_is_requested (hw_store f v s) \<longleftrightarrow> nmi_window_is_requested s"
  "vmcs_active (hw_store f v s) \<longleftrightarrow> vmcs_active s"
  using vmcs_same_active [OF vmcs_same_hw_store [of s f v]]
  by (simp_all add: hw_store_def nmi_window_is_requested_def nmi_is_nmi_occured_def)

lemma other_fields_kept_trans:
  "other_fields_kept s s' \<Longrightarrow> other_fields_kept s' s'' \<Longrightarrow> other_fields_kept s s''"
  by (simp add: other_fields_kept_def)

lemma quiet_point: "A \<or> st = UPDATE_FAILED \<and> B \<Longrightarrow> st = UPDATE_SUCCEEDED \<Longrightarrow> A"
  by auto

lemma flush_nmi_round_spec:
  assumes "vmcs_active s"
  shows "\<exists>s' v' ok. flush_nmi_round chk v s = Some (s', v', ok) \<and> nmi_progress s s' \<and> vmcs_active s' \<and>
    other_fields_kept s s' \<and> set_bit NMI_WINDOW_BIT v' = set_bit NMI_WINDOW_BIT v \<and>
    (bit v NMI_WINDOW_BIT \<longrightarrow> bit v' NMI_WINDOW_BIT) \<and>
    (\<not> ok \<longrightarrow> length (nmi_arrivals s') < length (nmi_arrivals s)) \<and>
    (ok \<longrightarrow> vmcs_agrees VMCS_CONTROL_VECTOR_PROCESSOR_EVENTS v (vmcs_hw s' VMCS_CONTROL_VECTOR_PROCESSOR_EVENTS) \<and>
       (nmi_window_is_requested s' \<longrightarrow> bit (vmcs_hw s' VMCS_CONTROL_VECTOR_PROCESSOR_EVENTS) NMI_WINDOW_BIT))"
proof -
  let ?E = VMCS_CONTROL_VECTOR_PROCESSOR_EVENTS
  let ?s0 = "s \<lparr> update_status := UPDATE_SUCCEEDED \<rparr>"
  have a0: "vmcs_active ?s0" using assms by simp
  obtain s1 where s1: "nmi_point chk ?s0 = Some s1" "nmi_progress ?s0 s1" "vmcs_active s1" "other_fields_kept ?s0 s1"
    "update_status s1 = update_status ?s0 \<and> vmcs_hw s1 ?E = vmcs_hw ?s0 ?E \<and>
       (nmi_window_is_requested s1 \<longrightarrow> nmi_window_is_requested ?s0)
     \<or> update_status s1 = UPDATE_FAILED \<and> vmcs_hw s1 ?E = set_bit NMI_WINDOW_BIT (vmcs_hw ?s0 ?E) \<and>
       nmi_window_is_requested s1 \<and> length (nmi_arrivals s1) < length (nmi_arrivals ?s0)"
    using nmi_point_spec [OF a0, of chk] unfolding other_fields_kept_def by blast
  let ?v = "if nmi_window_is_requested s1 then set_bit NMI_WINDOW_BIT v else v"
  obtain s2 where s2: "nmi_point chk s1 = Some s2" "nmi_progress s1 s2" "vmcs_active s2" "other_fields_kept s1 s2"
    "update_status s2 = update_status s1 \<and> vmcs_hw s2 ?E = vmcs_hw s1 ?E \<and>
       (nmi_window_is_requested s2 \<longrightarrow> nmi_window_is_requested s1)
     \<or> update_status s2 = UPDATE_FAILED \<and> vmcs_hw s2 ?E = set_bit NMI_WINDOW_BIT (vmcs_hw s1 ?E) \<and>
       nmi_window_is_requested s2 \<and> length (nmi_arrivals s2) < length (nmi_arrivals s1)"
    using nmi_point_spec [OF s1(3), of chk] unfolding other_fields_kept_def by blast
  let ?s3 = "hw_store ?E ?v s2"
  have a3: "vmcs_active ?s3" "vmcs_hw ?s3 ?E = ?v" "other_fields_kept s2 ?s3"
    using s2(3) vmcs_hw_store [OF s2(3), of ?E] by (auto simp: other_fields_kept_def)
  obtain s4 where s4: "nmi_point chk ?s3 = Some s4" "nmi_progress ?s3 s4" "vmcs_active s4" "other_fields_kept ?s3 s4"
    "update_status s4 = update_status ?s3 \<and> vmcs_hw s4 ?E = vmcs_hw ?s3 ?E \<and>
       (nmi_window_is_requested s4 \<longrightarrow> nmi_window_is_requested ?s3)
     \<or> update_status s4 = UPDATE_FAILED \<and> vmcs_hw s4 ?E = set_bit NMI_WINDOW_BIT (vmcs_hw ?s3 ?E) \<and>
       nmi_window_is_requested s4 \<and> length (nmi_arrivals s4) < length (nmi_arrivals ?s3)"
    using nmi_point_spec [OF a3(1), of chk] unfolding other_fields_kept_def by blast
  obtain s5 where s5: "nmi_point chk s4 = Some s5" "nmi_progress s4 s5" "vmcs_active s5" "other_fields_kept s4 s5"
    "vmcs_hw s5 ?E = vmcs_hw s4 ?E \<and> (nmi_window_is_requested s5 \<longrightarrow> nmi_window_is_requested s4)
     \<or> vmcs_hw s5 ?E = set_bit NMI_WINDOW_BIT (vmcs_hw s4 ?E)"
    using nmi_point_spec [OF s4(3), of chk] unfolding other_fields_kept_def by blast
  obtain s6 where s6: "nmi_point chk s5 = Some s6" "nmi_progress s5 s6" "vmcs_active s6" "other_fields_kept s5 s6"
    "vmcs_hw s6 ?E = vmcs_hw s5 ?E \<and> (nmi_window_is_requested s6 \<longrightarrow> nmi_window_is_requested s5)
     \<or> vmcs_hw s6 ?E = set_bit NMI_WINDOW_BIT (vmcs_hw s5 ?E)"
    using nmi_point_spec [OF s5(3), of chk] unfolding other_fields_kept_def by blast
  let ?s7 = "s6 \<lparr> update_status := (if update_status s5 = UPDATE_SUCCEEDED then UPDATE_FINISHED else update_status s5) \<rparr>"
  let ?ok = "update_status s4 = UPDATE_SUCCEEDED"
  have "flush_nmi_round chk v s = Some (?s7, ?v, ?ok)"
    using s1(1) s2(1) s4(1) s5(1) s6(1) active_store_events [OF s2(3)]
    by (simp add: flush_nmi_round_def Let_def)
  moreover have "nmi_progress s ?s7"
    by (rule nmi_progress_trans [OF nmi_progress_status nmi_progress_trans [OF s1(2) nmi_progress_trans [OF s2(2)
      nmi_progress_trans [OF nmi_progress_hw_store nmi_progress_trans [OF s4(2) nmi_progress_trans [OF s5(2)
      nmi_progress_trans [OF s6(2) nmi_progress_status]]]]]]])
  moreover have "other_fields_kept s ?s7"
    using s1(4) s2(4) a3(3) s4(4) s5(4) s6(4) by (simp add: other_fields_kept_def)
  moreover have "length (nmi_arrivals ?s7) < length (nmi_arrivals s)" if "\<not> ?ok"
  proof -
    have "update_status s1 = 0 \<or> length (nmi_arrivals s1) < length (nmi_arrivals s)"
      "update_status s2 = update_status s1 \<or> length (nmi_arrivals s2) < length (nmi_arrivals s1)"
      "update_status s4 = update_status s2 \<or> length (nmi_arrivals s4) < length (nmi_arrivals s2)"
      using s1(5) s2(5) s4(5) by auto
    moreover have "length (nmi_arrivals s1) \<le> length (nmi_arrivals s)"
      "length (nmi_arrivals s2) \<le> length (nmi_arrivals s1)" "length (nmi_arrivals s4) \<le> length (nmi_arrivals s2)"
      "length (nmi_arrivals s5) \<le> length (nmi_arrivals s4)" "length (nmi_arrivals s6) \<le> length (nmi_arrivals s5)"
      using nmi_progressD(3) [OF s1(2)] nmi_progressD(3) [OF s2(2)] nmi_progressD(3) [OF s4(2)]
        nmi_progressD(3) [OF s5(2)] nmi_progressD(3) [OF s6(2)] by simp_all
    ultimately have "length (nmi_arrivals s6) < length (nmi_arrivals s)" using that by linarith
    then show ?thesis by simp
  qed
  moreover have "vmcs_agrees ?E v (vmcs_hw ?s7 ?E) \<and>
      (nmi_window_is_requested ?s7 \<longrightarrow> bit (vmcs_hw ?s7 ?E) NMI_WINDOW_BIT)" if ?ok
  proof -
    note q4 = quiet_point [OF s4(5) that]
    then have "update_status s2 = UPDATE_SUCCEEDED" using that by simp
    note q2 = quiet_point [OF s2(5) this]
    have q: "vmcs_hw s4 ?E = ?v" "nmi_window_is_requested s4 \<longrightarrow> nmi_window_is_requested s1"
      using q4 q2 a3(2) by simp_all
    have b: "nmi_window_is_requested s4 \<Longrightarrow> bit (vmcs_hw s4 ?E) NMI_WINDOW_BIT"
      and g: "vmcs_agrees ?E v (vmcs_hw s4 ?E)"
      using q by (auto simp: vmcs_agrees_def)
    have "vmcs_agrees ?E v (vmcs_hw s6 ?E) \<and> (nmi_window_is_requested s6 \<longrightarrow> bit (vmcs_hw s6 ?E) NMI_WINDOW_BIT)"
      using s5(5) s6(5) b g by (auto simp: vmcs_agrees_def)
    then show ?thesis by simp
  qed
  ultimately show ?thesis
    using s6(3) by (intro exI [of _ ?s7] exI [of _ ?v] exI [of _ ?ok]) auto
qed

lemma vmcs_agrees_window:
  "set_bit NMI_WINDOW_BIT v' = set_bit NMI_WINDOW_BIT v \<Longrightarrow> (bit v NMI_WINDOW_BIT \<longrightarrow> bit v' NMI_WINDOW_BIT) \<Longrightarrow>
     vmcs_agrees VMCS_CONTROL_VECTOR_PROCESSOR_EVENTS v' h \<Longrightarrow> vmcs_agrees VMCS_CONTROL_VECTOR_PROCESSOR_EVENTS v h"
  by (simp add: vmcs_agrees_def)

text \<open>The rounds end, because every failed round has consumed an arrival.\<close>

lemma flush_nmi_rounds_spec:
  assumes "vmcs_active s" "length (nmi_arrivals s) < n"
  shows "\<exists>s'. flush_nmi_rounds chk n v s = Some s' \<and> nmi_progress s s' \<and> vmcs_active s' \<and> other_fields_kept s s' \<and>
    vmcs_agrees VMCS_CONTROL_VECTOR_PROCESSOR_EVENTS v (vmcs_hw s' VMCS_CONTROL_VECTOR_PROCESSOR_EVENTS) \<and>
    (nmi_window_is_requested s' \<longrightarrow> bit (vmcs_hw s' VMCS_CONTROL_VECTOR_PROCESSOR_EVENTS) NMI_WINDOW_BIT)"
  using assms
proof (induction n arbitrary: v s)
  case (Suc n)
  obtain s1 v1 ok where r: "flush_nmi_round chk v s = Some (s1, v1, ok)" "nmi_progress s s1" "vmcs_active s1"
      "other_fields_kept s s1" "set_bit NMI_WINDOW_BIT v1 = set_bit NMI_WINDOW_BIT v"
      "bit v NMI_WINDOW_BIT \<longrightarrow> bit v1 NMI_WINDOW_BIT"
      "\<not> ok \<longrightarrow> length (nmi_arrivals s1) < length (nmi_arrivals s)"
      "ok \<longrightarrow> vmcs_agrees VMCS_CONTROL_VECTOR_PROCESSOR_EVENTS v (vmcs_hw s1 VMCS_CONTROL_VECTOR_PROCESSOR_EVENTS) \<and>
       (nmi_window_is_requested s1 \<longrightarrow> bit (vmcs_hw s1 VMCS_CONTROL_VECTOR_PROCESSOR_EVENTS) NMI_WINDOW_BIT)"
    using flush_nmi_round_spec [OF Suc.prems(1), of chk v] by blast
  show ?case
  proof (cases ok)
    case True
    then show ?thesis using r by (intro exI [of _ s1]) simp
  next
    case False
    then have "length (nmi_arrivals s1) < n" using r(7) Suc.prems(2) by simp
    then obtain s2 where "flush_nmi_rounds chk n v1 s1 = Some s2" "nmi_progress s1 s2" "vmcs_active s2"
        "other_fields_kept s1 s2"
        "vmcs_agrees VMCS_CONTROL_VECTOR_PROCESSOR_EVENTS v1 (vmcs_hw s2 VMCS_CONTROL_VECTOR_PROCESSOR_EVENTS)"
        "nmi_window_is_requested s2 \<longrightarrow> bit (vmcs_hw s2 VMCS_CONTROL_VECTOR_PROCESSOR_EVENTS) NMI_WINDOW_BIT"
      using Suc.IH [OF r(3), of v1] by blast
    then show ?thesis
      using False r(1) nmi_progress_trans [OF r(2)] other_fields_kept_trans [OF r(4)]
        vmcs_agrees_window [OF r(5,6)]
      by (intro exI [of _ s2]) simp
  qed
qed simp

section \<open>The flush\<close>

lemma vmcs_agrees_refl [simp]: "vmcs_agrees f v v"
  by (simp add: vmcs_agrees_def)

lemma vmcs_agrees_trans: "vmcs_agrees f u v \<Longrightarrow> vmcs_agrees f v w \<Longrightarrow> vmcs_agrees f u w"
  by (simp add: vmcs_agrees_def split: if_splits)

lemma vmcs_same_lookup: "vmcs_same s s' \<Longrightarrow> vmcs_cache s' = vmcs_cache s" "vmcs_same s s' \<Longrightarrow> field_data s' = field_data s"
  by (simp_all add: vmcs_same_def)

lemma nmi_point_agrees:
  assumes "vmcs_active s"
  shows "\<exists>s'. nmi_point chk s = Some s' \<and> nmi_progress s s' \<and> vmcs_active s' \<and>
    (\<forall>f < VMCS_FIELD_COUNT. vmcs_agrees f (vmcs_hw s f) (vmcs_hw s' f)) \<and> (window_shown s \<longrightarrow> window_shown s')"
proof -
  obtain s' where s': "nmi_point chk s = Some s'" "nmi_progress s s'" "vmcs_active s'"
    "\<forall>f < VMCS_FIELD_COUNT. f \<noteq> VMCS_CONTROL_VECTOR_PROCESSOR_EVENTS \<longrightarrow> vmcs_hw s' f = vmcs_hw s f"
    "vmcs_hw s' VMCS_CONTROL_VECTOR_PROCESSOR_EVENTS = vmcs_hw s VMCS_CONTROL_VECTOR_PROCESSOR_EVENTS \<and>
       (nmi_window_is_requested s' \<longrightarrow> nmi_window_is_requested s)
     \<or> vmcs_hw s' VMCS_CONTROL_VECTOR_PROCESSOR_EVENTS
       = set_bit NMI_WINDOW_BIT (vmcs_hw s VMCS_CONTROL_VECTOR_PROCESSOR_EVENTS)"
    using nmi_point_spec [OF assms, of chk] by blast
  have "vmcs_agrees f (vmcs_hw s f) (vmcs_hw s' f)" if "f < VMCS_FIELD_COUNT" for f
    using s'(4,5) that by (cases "f = VMCS_CONTROL_VECTOR_PROCESSOR_EVENTS") (auto simp: vmcs_agrees_def)
  moreover have "window_shown s \<longrightarrow> window_shown s'" using s'(5) by (auto simp: window_shown_def)
  ultimately show ?thesis using s'(1-3) by blast
qed

lemma flush_field_spec:
  assumes "vmcs_active s" "f < VMCS_FIELD_COUNT"
  shows "\<exists>s'. vmcs_act_flush_field_to_cpu chk f s = Some s' \<and> field_flushed f s s'"
proof -
  let ?E = VMCS_CONTROL_VECTOR_PROCESSOR_EVENTS
  obtain s1 where s1: "nmi_point chk s = Some s1" "nmi_progress s s1" "vmcs_active s1"
      "\<forall>f < VMCS_FIELD_COUNT. vmcs_agrees f (vmcs_hw s f) (vmcs_hw s1 f)" "window_shown s \<longrightarrow> window_shown s1"
    using nmi_point_agrees [OF assms(1), of chk] by blast
  have same: "vmcs_cache s1 = vmcs_cache s" "field_data s1 = field_data s"
    using vmcs_same_lookup nmi_progressD(1) [OF s1(2)] by blast+
  have rd: "cache64_read chk (sw_shadow_disable s1) f (vmcs_cache s1) = Some (cache_lookup (vmcs_cache s) f)"
    using s1(3) assms(2) same by (simp add: vmcs_active_def)
  show ?thesis
  proof (cases "cache_lookup (vmcs_cache s) f")
    case None
    then have "vmcs_act_flush_field_to_cpu chk f s = Some s1"
      using s1(1) rd by (simp add: vmcs_act_flush_field_to_cpu_def)
    then show ?thesis using s1 None by (intro exI [of _ s1]) (simp add: field_flushed_def)
  next
    case (Some v)
    show ?thesis
    proof (cases "f = ?E")
      case False
      let ?s = "if field_hw_writeable s1 f then hw_store f v s1 else s1"
      have "vmcs_act_flush_field_to_cpu chk f s = Some ?s"
        using s1(1) rd Some False active_write_to_hardware [OF s1(3) assms(2), of chk v]
        by (simp add: vmcs_act_flush_field_to_cpu_def)
      moreover have "vmcs_hw ?s g = (if g = f \<and> field_hw_writeable s1 f then v else vmcs_hw s1 g)"
        if "g < VMCS_FIELD_COUNT" for g
        using vmcs_hw_store [OF s1(3) assms(2) that, of v] by auto
      moreover have "window_shown s1 \<longrightarrow> window_shown ?s"
        using False vmcs_hw_store [OF s1(3) assms(2), of ?E v] by (auto simp: window_shown_def)
      moreover have "nmi_progress s ?s" using nmi_progress_trans [OF s1(2) nmi_progress_hw_store] s1(2) by simp
      ultimately show ?thesis
        using s1(3-5) Some False same by (intro exI [of _ ?s]) (auto simp: field_flushed_def)
    next
      case True
      obtain s2 where s2: "flush_nmi_rounds chk (Suc (length (nmi_arrivals s1))) v s1 = Some s2"
          "nmi_progress s1 s2" "vmcs_active s2" "other_fields_kept s1 s2" "vmcs_agrees ?E v (vmcs_hw s2 ?E)"
          "nmi_window_is_requested s2 \<longrightarrow> bit (vmcs_hw s2 ?E) NMI_WINDOW_BIT"
        using flush_nmi_rounds_spec [OF s1(3) lessI, of chk v] by blast
      have "vmcs_act_flush_field_to_cpu chk f s = Some s2"
        using s1(1) rd Some True s2(1)
        by (simp add: vmcs_act_flush_field_to_cpu_def vmcs_act_flush_nmi_depended_field_to_cpu_def del: flush_nmi_rounds.simps)
      moreover have "vmcs_agrees g (vmcs_hw s g) (vmcs_hw s2 g)" if "g < VMCS_FIELD_COUNT" "g \<noteq> f" for g
        using s2(4) s1(4) that True by (auto simp: other_fields_kept_def)
      moreover have "field_hw_writeable s f"
        using active_proc_events(1) [OF assms(1)] True by simp
      ultimately show ?thesis
        using s2(3,5,6) Some True nmi_progress_trans [OF s1(2) s2(2)]
        by (intro exI [of _ s2]) (simp add: field_flushed_def window_shown_def)
    qed
  qed
qed

lemma flush_fields_spec:
  assumes "vmcs_active s" "\<forall>f \<in> set fs. f < VMCS_FIELD_COUNT"
  shows "\<exists>s'. fold_opt (vmcs_act_flush_field_to_cpu chk) fs s = Some s' \<and> nmi_progress s s' \<and> vmcs_active s' \<and>
    (\<forall>f v. f \<in> set fs \<and> cache_lookup (vmcs_cache s) f = Some v \<and> field_hw_writeable s f \<longrightarrow>
       vmcs_agrees f v (vmcs_hw s' f)) \<and>
    (\<forall>f < VMCS_FIELD_COUNT. f \<notin> set fs \<or> cache_lookup (vmcs_cache s) f = None \<or> \<not> field_hw_writeable s f \<longrightarrow>
       vmcs_agrees f (vmcs_hw s f) (vmcs_hw s' f)) \<and>
    (VMCS_CONTROL_VECTOR_PROCESSOR_EVENTS \<in> set fs \<and>
       cache_lookup (vmcs_cache s) VMCS_CONTROL_VECTOR_PROCESSOR_EVENTS \<noteq> None \<or> window_shown s \<longrightarrow> window_shown s')"
  using assms
proof (induction fs arbitrary: s)
  case Nil
  then show ?case by simp
next
  case (Cons f fs)
  obtain s1 where s1: "vmcs_act_flush_field_to_cpu chk f s = Some s1" "field_flushed f s s1"
    using flush_field_spec [OF Cons.prems(1), of f chk] Cons.prems(2) by auto
  have p1: "nmi_progress s s1" "vmcs_active s1" using s1(2) by (auto simp: field_flushed_def)
  have same: "vmcs_cache s1 = vmcs_cache s" "field_data s1 = field_data s"
    using vmcs_same_lookup nmi_progressD(1) [OF p1(1)] by blast+
  obtain s2 where s2: "fold_opt (vmcs_act_flush_field_to_cpu chk) fs s1 = Some s2" "nmi_progress s1 s2" "vmcs_active s2"
      "\<forall>f v. f \<in> set fs \<and> cache_lookup (vmcs_cache s) f = Some v \<and> field_hw_writeable s f \<longrightarrow>
         vmcs_agrees f v (vmcs_hw s2 f)"
      "\<forall>f < VMCS_FIELD_COUNT. f \<notin> set fs \<or> cache_lookup (vmcs_cache s) f = None \<or> \<not> field_hw_writeable s f \<longrightarrow>
         vmcs_agrees f (vmcs_hw s1 f) (vmcs_hw s2 f)"
      "VMCS_CONTROL_VECTOR_PROCESSOR_EVENTS \<in> set fs \<and>
         cache_lookup (vmcs_cache s) VMCS_CONTROL_VECTOR_PROCESSOR_EVENTS \<noteq> None \<or> window_shown s1 \<longrightarrow> window_shown s2"
    using Cons.IH [OF p1(2)] Cons.prems(2) same by auto
  have "vmcs_agrees g v (vmcs_hw s2 g)"
    if "g \<in> set (f # fs)" "cache_lookup (vmcs_cache s) g = Some v" "field_hw_writeable s g" for g v
  proof (cases "g \<in> set fs")
    case False
    with that(1) have "g = f" by simp
    then have "vmcs_agrees g v (vmcs_hw s1 g)" using s1(2) that(2,3) by (simp add: field_flushed_def)
    moreover have "vmcs_agrees g (vmcs_hw s1 g) (vmcs_hw s2 g)" using s2(5) that(3) False by blast
    ultimately show ?thesis by (rule vmcs_agrees_trans)
  qed (use s2(4) that in blast)
  moreover have "vmcs_agrees g (vmcs_hw s g) (vmcs_hw s2 g)"
    if "g < VMCS_FIELD_COUNT" "g \<notin> set (f # fs) \<or> cache_lookup (vmcs_cache s) g = None \<or> \<not> field_hw_writeable s g" for g
  proof -
    have "vmcs_agrees g (vmcs_hw s g) (vmcs_hw s1 g)"
      using s1(2) that by (cases "g = f") (auto simp: field_flushed_def)
    moreover have "vmcs_agrees g (vmcs_hw s1 g) (vmcs_hw s2 g)" using s2(5) that by auto
    ultimately show ?thesis by (rule vmcs_agrees_trans)
  qed
  moreover have "window_shown s2"
    if "VMCS_CONTROL_VECTOR_PROCESSOR_EVENTS \<in> set (f # fs) \<and>
       cache_lookup (vmcs_cache s) VMCS_CONTROL_VECTOR_PROCESSOR_EVENTS \<noteq> None \<or> window_shown s"
    using s1(2) s2(6) that by (auto simp: field_flushed_def)
  ultimately show ?case
    using s1(1) s2(1,3) nmi_progress_trans [OF p1(1) s2(2)] by (intro exI [of _ s2]) auto
qed

lemma vmcs_update_active:
  assumes "vmcs_active s" "field_readable s f" "field_writeable s f"
  shows "\<exists>c. vmcs_update chk f v m s = Some (s \<lparr> vmcs_cache := c \<rparr>) \<and> vmcs_active (s \<lparr> vmcs_cache := c \<rparr>) \<and>
    vmcs_view (s \<lparr> vmcs_cache := c \<rparr>) = (vmcs_view s)(f := (vmcs_view s f AND NOT m) OR (v AND m)) \<and>
    cache_lookup c f = Some ((vmcs_view s f AND NOT m) OR (v AND m)) \<and>
    (vmcs_synced s \<longrightarrow> vmcs_synced (s \<lparr> vmcs_cache := c \<rparr>))"
proof -
  obtain c where c: "vmcs_read chk f s = Some (s \<lparr> vmcs_cache := c \<rparr>, vmcs_view s f)"
      "vmcs_active (s \<lparr> vmcs_cache := c \<rparr>)" "vmcs_view (s \<lparr> vmcs_cache := c \<rparr>) = vmcs_view s"
      "vmcs_synced s \<longrightarrow> vmcs_synced (s \<lparr> vmcs_cache := c \<rparr>)"
    using vmcs_read_active [OF assms(1,2), of chk] by blast
  let ?w = "(vmcs_view s f AND NOT m) OR (v AND m)"
  obtain c' where c': "vmcs_write chk f ?w (s \<lparr> vmcs_cache := c \<rparr>) = Some (s \<lparr> vmcs_cache := c' \<rparr>)"
      "vmcs_active (s \<lparr> vmcs_cache := c' \<rparr>)" "vmcs_view (s \<lparr> vmcs_cache := c' \<rparr>) = (vmcs_view s)(f := ?w)"
      "cache_lookup c' f = Some ?w" "vmcs_synced (s \<lparr> vmcs_cache := c \<rparr>) \<longrightarrow> vmcs_synced (s \<lparr> vmcs_cache := c' \<rparr>)"
    using vmcs_write_active [OF c(2), of f chk ?w] assms(3) c(3) by auto
  show ?thesis
    using c(1,4) c' assms(2) by (intro exI [of _ c']) (simp add: vmcs_update_def)
qed

lemma vmcs_synced_agrees:
  assumes "vmcs_synced s" "vmcs_same s s'" "\<forall>f < VMCS_FIELD_COUNT. vmcs_agrees f (vmcs_hw s f) (vmcs_hw s' f)"
  shows "vmcs_synced s'"
  using assms vmcs_agrees_trans unfolding vmcs_synced_def vmcs_same_def by metis

lemma vmcs_view_agrees:
  assumes "vmcs_same s s'" "\<forall>f < VMCS_FIELD_COUNT. vmcs_agrees f (vmcs_hw s f) (vmcs_hw s' f)" "f < VMCS_FIELD_COUNT"
  shows "vmcs_agrees f (vmcs_view s f) (vmcs_view s' f)"
  using assms vmcs_same_lookup(1) [OF assms(1)] by (simp add: vmcs_view_def split: option.split)

lemma bitarray_bits_set: "set (bitarray_bits xs) = {i. bitarray_bit xs i}"
  by (auto simp: bitarray_bits_def dest: bitarray_bit_bound)

lemma not_dirty_cleared [simp]:
  "\<not> cache64_is_dirty (c \<lparr> cache_flags := cache_flags c AND NOT CACHE_DIRTY_FLAG \<rparr>)"
  by (simp add: cache64_is_dirty_def and.assoc)

lemma cache_flags_simps [simp]:
  "cache_lookup (c \<lparr> cache_flags := x \<rparr>) = cache_lookup c" "cache_marked (c \<lparr> cache_flags := x \<rparr>) = cache_marked c"
  "cache_ok (c \<lparr> cache_flags := x \<rparr>) = cache_ok c"
  by (simp_all add: cache_lookup_def cache_marked_def cache_ok_def fun_eq_iff)

lemma flush_dirty_fold:
  assumes "vmcs_active s" "c = (vmcs_cache s) \<lparr> cache_flags := cache_flags (vmcs_cache s) AND NOT CACHE_DIRTY_FLAG \<rparr>"
  shows "cache64_flush_dirty vmcs_cache (\<lambda>c x. x \<lparr> vmcs_cache := c \<rparr>) CACHE_ALL_ENTRIES
      (Some (vmcs_act_flush_field_to_cpu chk)) s
    = fold_opt (vmcs_act_flush_field_to_cpu chk) (bitarray_bits (dirty_bits (vmcs_cache s))) (s \<lparr> vmcs_cache := c \<rparr>)"
proof -
  let ?Q = "\<lambda>x. vmcs_active x \<and> vmcs_cache x = c"
  have inv: "?Q s''" if Q: "?Q s'" and st: "vmcs_act_flush_field_to_cpu chk i s' = Some s''" for i s' s''
  proof (cases "i < VMCS_FIELD_COUNT")
    case True
    obtain x where x: "vmcs_act_flush_field_to_cpu chk i s' = Some x" "field_flushed i s' x"
      using flush_field_spec [OF conjunct1 [OF Q] True, of chk] by blast
    with st have "field_flushed i s' s''" by simp
    then have "vmcs_active s''" "vmcs_same s' s''"
      using nmi_progressD(1) by (auto simp: field_flushed_def)
    then show ?thesis using Q vmcs_same_lookup(1) by blast
  next
    case False
    obtain x where x: "nmi_point chk s' = Some x" "nmi_progress s' x" "vmcs_active x"
      using nmi_point_agrees [OF conjunct1 [OF Q], of chk] by blast
    have "\<not> i < num_of_entries (vmcs_cache x)" "\<not> sw_shadow_disable x"
      using x(3) False by (auto simp: vmcs_active_def)
    then have "s'' = x"
      using st x(1)
      by (auto simp: vmcs_act_flush_field_to_cpu_def cache64_read_def vmm_assert_def split: if_splits)
    then show ?thesis using x Q vmcs_same_lookup(1) [OF nmi_progressD(1) [OF x(2)]] by simp
  qed
  have ok: "cache_ok (vmcs_cache s)" "num_of_entries (vmcs_cache s) = VMCS_FIELD_COUNT"
    using assms(1) by (auto simp: vmcs_active_def)
  have "vmcs_active (s \<lparr> vmcs_cache := c \<rparr>)" using vmcs_active_cache [OF assms(1)] assms(2) ok by simp
  then have "bitarray_enumerate_bits (\<lambda>x. dirty_bits (vmcs_cache x)) VMCS_FIELD_COUNT
      (vmcs_act_flush_field_to_cpu chk) 0 (s \<lparr> vmcs_cache := c \<rparr>)
    = fold_opt (vmcs_act_flush_field_to_cpu chk) (bitarray_bits (dirty_bits c)) (s \<lparr> vmcs_cache := c \<rparr>)"
    using ok assms(2)
    by (intro bitarray_enumerate_fold [where Q = ?Q]) (use inv in \<open>auto simp: cache_ok_def\<close>)
  then show ?thesis using ok assms(2) by (simp add: cache64_flush_dirty_def Let_def)
qed

text \<open>The part of the flush that writes the marked fields.\<close>

lemma flush_marked_spec:
  assumes "vmcs_active s" "vmcs_synced s" "cache64_is_dirty (vmcs_cache s)"
  shows "\<exists>s'. cache64_flush_dirty vmcs_cache (\<lambda>c x. x \<lparr> vmcs_cache := c \<rparr>) CACHE_ALL_ENTRIES
      (Some (vmcs_act_flush_field_to_cpu chk)) s = Some s' \<and> vmcs_active s' \<and> \<not> cache64_is_dirty (vmcs_cache s') \<and>
    cache_lookup (vmcs_cache s') = cache_lookup (vmcs_cache s) \<and>
    nmi_progress (s \<lparr> vmcs_cache := vmcs_cache s' \<rparr>) s' \<and>
    (\<forall>f v. field_hw_writeable s f \<and> cache_lookup (vmcs_cache s) f = Some v \<longrightarrow> vmcs_agrees f v (vmcs_hw s' f)) \<and>
    (\<forall>f < VMCS_FIELD_COUNT. cache_lookup (vmcs_cache s) f = None \<or> \<not> field_hw_writeable s f \<longrightarrow>
       vmcs_agrees f (vmcs_hw s f) (vmcs_hw s' f)) \<and>
    (cache_marked (vmcs_cache s) VMCS_CONTROL_VECTOR_PROCESSOR_EVENTS \<and>
       cache_lookup (vmcs_cache s) VMCS_CONTROL_VECTOR_PROCESSOR_EVENTS \<noteq> None \<or> window_shown s \<longrightarrow> window_shown s')"
proof -
  let ?E = VMCS_CONTROL_VECTOR_PROCESSOR_EVENTS
  let ?c = "(vmcs_cache s) \<lparr> cache_flags := cache_flags (vmcs_cache s) AND NOT CACHE_DIRTY_FLAG \<rparr>"
  let ?s = "s \<lparr> vmcs_cache := ?c \<rparr>"
  let ?fs = "bitarray_bits (dirty_bits (vmcs_cache s))"
  have ok: "cache_ok (vmcs_cache s)" "num_of_entries (vmcs_cache s) = VMCS_FIELD_COUNT"
    using assms(1) by (auto simp: vmcs_active_def)
  have act: "vmcs_active ?s" using vmcs_active_cache [OF assms(1)] ok by simp
  have mem: "f \<in> set ?fs \<longleftrightarrow> cache_marked (vmcs_cache s) f" for f by (simp add: bitarray_bits_set cache_marked_def)
  have "\<forall>f \<in> set ?fs. f < VMCS_FIELD_COUNT"
    using ok mem cache_marked_bound [OF ok(1)] by (auto simp: cache_ok_def bitarray_size_in_bytes_def)
  then obtain s' where s': "fold_opt (vmcs_act_flush_field_to_cpu chk) ?fs ?s = Some s'" "nmi_progress ?s s'" "vmcs_active s'"
      "\<forall>f v. f \<in> set ?fs \<and> cache_lookup (vmcs_cache s) f = Some v \<and> field_hw_writeable s f \<longrightarrow>
         vmcs_agrees f v (vmcs_hw s' f)"
      "\<forall>f < VMCS_FIELD_COUNT. f \<notin> set ?fs \<or> cache_lookup (vmcs_cache s) f = None \<or> \<not> field_hw_writeable s f \<longrightarrow>
         vmcs_agrees f (vmcs_hw s f) (vmcs_hw s' f)"
      "?E \<in> set ?fs \<and> cache_lookup (vmcs_cache s) ?E \<noteq> None \<or> window_shown ?s \<longrightarrow> window_shown s'"
    using flush_fields_spec [OF act, of ?fs chk] by auto
  have cache: "vmcs_cache s' = ?c" using vmcs_same_lookup(1) [OF nmi_progressD(1) [OF s'(2)]] by simp
  have shown: "window_shown ?s \<longleftrightarrow> window_shown s"
    by (simp add: window_shown_def nmi_window_is_requested_def nmi_is_nmi_occured_def)
  have agr: "vmcs_agrees f v (vmcs_hw s' f)"
    if "field_hw_writeable s f" "cache_lookup (vmcs_cache s) f = Some v" for f v
  proof (cases "f \<in> set ?fs")
    case True
    then show ?thesis using s'(4) that by blast
  next
    case False
    then have "vmcs_agrees f v (vmcs_hw s f)" using assms(2) that mem by (auto simp: vmcs_synced_def)
    moreover have "vmcs_agrees f (vmcs_hw s f) (vmcs_hw s' f)" using s'(5) that(1) False by blast
    ultimately show ?thesis by (rule vmcs_agrees_trans)
  qed
  have run: "cache64_flush_dirty vmcs_cache (\<lambda>c x. x \<lparr> vmcs_cache := c \<rparr>) CACHE_ALL_ENTRIES
      (Some (vmcs_act_flush_field_to_cpu chk)) s = Some s'"
    by (subst flush_dirty_fold [OF assms(1) refl]) (rule s'(1))
  have clean: "\<not> cache64_is_dirty (vmcs_cache s')" unfolding cache by (rule not_dirty_cleared)
  have lk: "cache_lookup (vmcs_cache s') = cache_lookup (vmcs_cache s)" unfolding cache by simp
  have pr: "nmi_progress (s \<lparr> vmcs_cache := vmcs_cache s' \<rparr>) s'" using s'(2) unfolding cache .
  have win: "window_shown s'"
    if "cache_marked (vmcs_cache s) ?E \<and> cache_lookup (vmcs_cache s) ?E \<noteq> None \<or> window_shown s"
    using s'(6) that unfolding shown mem by blast
  show ?thesis
    by (intro exI [of _ s'] conjI) (use run s'(3,5) clean lk pr agr win in blast)+
qed

lemma nmi_progress_cache:
  assumes "nmi_progress (s \<lparr> vmcs_cache := c \<rparr>) s'"
  shows "\<exists>taken. nmi_arrivals s = taken @ nmi_arrivals s' \<and>
      (True \<in> set taken \<or> nmi_window_is_requested s \<longrightarrow> nmi_window_is_requested s')"
    "\<forall>r. r \<noteq> vmcs_hpa s \<longrightarrow> vmcs_regions s' r = vmcs_regions s r" "vmcs_hpa s' = vmcs_hpa s"
    "field_data s' = field_data s" "skip_access_checking s' = skip_access_checking s"
  using assms by (auto simp: nmi_progress_def vmcs_same_def nmi_window_is_requested_def nmi_is_nmi_occured_def)

lemma window_update_bit: "(w AND NOT (push_bit n 1)) OR (- 1 AND push_bit n 1) = set_bit n w" for w :: "64 word"
  by (rule bit_word_eqI) (auto simp: bit_simps)

text \<open>The part of the flush that opens the window in the cached controls.\<close>

lemma flush_window_spec:
  assumes "vmcs_active s" "vmcs_synced s"
  shows "\<exists>c. (if nmi_window_is_requested s
        then vmcs_update chk VMCS_CONTROL_VECTOR_PROCESSOR_EVENTS (- 1) (push_bit NMI_WINDOW_BIT 1) s
        else Some s) = Some (s \<lparr> vmcs_cache := c \<rparr>) \<and>
      vmcs_active (s \<lparr> vmcs_cache := c \<rparr>) \<and> vmcs_synced (s \<lparr> vmcs_cache := c \<rparr>) \<and>
      (\<forall>f. vmcs_agrees f (vmcs_view s f) (vmcs_view (s \<lparr> vmcs_cache := c \<rparr>) f)) \<and>
      (window_shown (s \<lparr> vmcs_cache := c \<rparr>) \<or>
       cache_marked c VMCS_CONTROL_VECTOR_PROCESSOR_EVENTS \<and> cache64_is_dirty c \<and>
       cache_lookup c VMCS_CONTROL_VECTOR_PROCESSOR_EVENTS \<noteq> None)"
proof (cases "nmi_window_is_requested s")
  case False
  have id: "s \<lparr> vmcs_cache := vmcs_cache s \<rparr> = s" by simp
  show ?thesis using assms False by (intro exI [of _ "vmcs_cache s"]) (simp add: id window_shown_def)
next
  case True
  let ?E = VMCS_CONTROL_VECTOR_PROCESSOR_EVENTS and ?m = "push_bit NMI_WINDOW_BIT 1 :: 64 word"
  let ?w = "set_bit NMI_WINDOW_BIT (vmcs_view s ?E)"
  have acc: "access (field_data s ! ?E) = WRITABLE" by (rule active_proc_events(1) [OF assms(1)])
  obtain c where c: "vmcs_update chk ?E (- 1) ?m s = Some (s \<lparr> vmcs_cache := c \<rparr>)"
      "vmcs_active (s \<lparr> vmcs_cache := c \<rparr>)" "vmcs_view (s \<lparr> vmcs_cache := c \<rparr>) = (vmcs_view s)(?E := ?w)"
      "cache_lookup c ?E = Some ?w" "vmcs_synced (s \<lparr> vmcs_cache := c \<rparr>)"
    using vmcs_update_active [OF assms(1), of ?E chk "- 1" ?m] acc assms(2)
    unfolding window_update_bit by auto
  have "vmcs_agrees f (vmcs_view s f) (((vmcs_view s)(?E := ?w)) f)" for f by (simp add: vmcs_agrees_def)
  moreover have "window_shown (s \<lparr> vmcs_cache := c \<rparr>)" if "\<not> (cache_marked c ?E \<and> cache64_is_dirty c)"
  proof -
    have "vmcs_agrees ?E ?w (vmcs_hw (s \<lparr> vmcs_cache := c \<rparr>) ?E)"
      using c(4,5) that acc by (auto simp: vmcs_synced_def)
    then show ?thesis by (simp add: vmcs_agrees_def window_shown_def)
  qed
  ultimately show ?thesis using True c by (intro exI [of _ c]) auto
qed

text \<open>The part of the flush that writes the fields, if there is anything to write.\<close>

lemma flush_dirty_spec:
  assumes "vmcs_active s" "vmcs_synced s"
    "window_shown s \<or> cache_marked (vmcs_cache s) VMCS_CONTROL_VECTOR_PROCESSOR_EVENTS \<and>
       cache64_is_dirty (vmcs_cache s) \<and> cache_lookup (vmcs_cache s) VMCS_CONTROL_VECTOR_PROCESSOR_EVENTS \<noteq> None"
  shows "\<exists>s'. (if cache64_is_dirty (vmcs_cache s)
      then cache64_flush_dirty vmcs_cache (\<lambda>c x. x \<lparr> vmcs_cache := c \<rparr>) CACHE_ALL_ENTRIES
             (Some (vmcs_act_flush_field_to_cpu chk)) s
      else Some s) = Some s' \<and> vmcs_active s' \<and> vmcs_synced s' \<and> \<not> cache64_is_dirty (vmcs_cache s') \<and>
    nmi_progress (s \<lparr> vmcs_cache := vmcs_cache s' \<rparr>) s' \<and>
    (\<forall>f. field_hw_writeable s f \<longrightarrow> vmcs_agrees f (vmcs_view s f) (vmcs_hw s' f)) \<and>
    (\<forall>f < VMCS_FIELD_COUNT. \<not> field_hw_writeable s f \<longrightarrow> vmcs_agrees f (vmcs_hw s f) (vmcs_hw s' f)) \<and> window_shown s'"
proof (cases "cache64_is_dirty (vmcs_cache s)")
  case False
  have id: "s \<lparr> vmcs_cache := vmcs_cache s \<rparr> = s" by simp
  have "vmcs_agrees f (vmcs_view s f) (vmcs_hw s f)" if "field_hw_writeable s f" for f
    using assms(2) that False by (auto simp: vmcs_synced_def vmcs_view_def split: option.splits)
  then show ?thesis using assms False by (intro exI [of _ s]) (simp add: id)
next
  case True
  obtain s' where s': "cache64_flush_dirty vmcs_cache (\<lambda>c x. x \<lparr> vmcs_cache := c \<rparr>) CACHE_ALL_ENTRIES
      (Some (vmcs_act_flush_field_to_cpu chk)) s = Some s'" "vmcs_active s'" "\<not> cache64_is_dirty (vmcs_cache s')"
    "cache_lookup (vmcs_cache s') = cache_lookup (vmcs_cache s)" "nmi_progress (s \<lparr> vmcs_cache := vmcs_cache s' \<rparr>) s'"
    "\<forall>f v. field_hw_writeable s f \<and> cache_lookup (vmcs_cache s) f = Some v \<longrightarrow> vmcs_agrees f v (vmcs_hw s' f)"
    "\<forall>f < VMCS_FIELD_COUNT. cache_lookup (vmcs_cache s) f = None \<or> \<not> field_hw_writeable s f \<longrightarrow>
       vmcs_agrees f (vmcs_hw s f) (vmcs_hw s' f)"
    "cache_marked (vmcs_cache s) VMCS_CONTROL_VECTOR_PROCESSOR_EVENTS \<and>
       cache_lookup (vmcs_cache s) VMCS_CONTROL_VECTOR_PROCESSOR_EVENTS \<noteq> None \<or> window_shown s \<longrightarrow> window_shown s'"
    using flush_marked_spec [OF assms(1,2) True, of chk] by blast
  have fd: "field_data s' = field_data s" by (rule nmi_progress_cache(4) [OF s'(5)])
  have "vmcs_synced s'" using s'(4,6) fd by (simp add: vmcs_synced_def)
  moreover have "vmcs_agrees f (vmcs_view s f) (vmcs_hw s' f)" if "field_hw_writeable s f" for f
    using s'(6,7) that by (cases "cache_lookup (vmcs_cache s) f") (auto simp: vmcs_view_def)
  moreover have "window_shown s'" using s'(8) assms(3) by blast
  ultimately show ?thesis using True s'(1-3,5,7) by (intro exI [of _ s'] conjI) auto
qed

lemma nmi_progress_with_cache:
  "nmi_progress s s' \<Longrightarrow> nmi_progress (s \<lparr> vmcs_cache := c \<rparr>) (s' \<lparr> vmcs_cache := c \<rparr>)"
  by (auto simp: nmi_progress_def vmcs_same_def nmi_window_is_requested_def nmi_is_nmi_occured_def)

lemma vmcs_act_flush_to_cpu_spec:
  assumes "vmcs_active s" "vmcs_synced s"
  shows "\<exists>s'. vmcs_act_flush_to_cpu chk s = Some s' \<and> vmcs_active s' \<and> vmcs_synced s' \<and>
    \<not> cache64_is_dirty (vmcs_cache s') \<and> nmi_progress (s \<lparr> vmcs_cache := vmcs_cache s' \<rparr>) s' \<and>
    (\<forall>f. field_hw_writeable s f \<longrightarrow> vmcs_agrees f (vmcs_view s f) (vmcs_hw s' f)) \<and>
    (\<forall>f < VMCS_FIELD_COUNT. \<not> field_hw_writeable s f \<longrightarrow> vmcs_agrees f (vmcs_hw s f) (vmcs_hw s' f)) \<and> window_shown s'"
proof -
  obtain s0 where s0: "nmi_point chk s = Some s0" "nmi_progress s s0" "vmcs_active s0"
      "\<forall>f < VMCS_FIELD_COUNT. vmcs_agrees f (vmcs_hw s f) (vmcs_hw s0 f)"
    using nmi_point_agrees [OF assms(1), of chk] by blast
  note same0 = nmi_progressD(1) [OF s0(2)]
  have sync0: "vmcs_synced s0" by (rule vmcs_synced_agrees [OF assms(2) same0 s0(4)])
  obtain c where s1: "(if nmi_window_is_requested s0
        then vmcs_update chk VMCS_CONTROL_VECTOR_PROCESSOR_EVENTS (- 1) (push_bit NMI_WINDOW_BIT 1) s0
        else Some s0) = Some (s0 \<lparr> vmcs_cache := c \<rparr>)"
      "vmcs_active (s0 \<lparr> vmcs_cache := c \<rparr>)" "vmcs_synced (s0 \<lparr> vmcs_cache := c \<rparr>)"
      "\<forall>f. vmcs_agrees f (vmcs_view s0 f) (vmcs_view (s0 \<lparr> vmcs_cache := c \<rparr>) f)"
      "window_shown (s0 \<lparr> vmcs_cache := c \<rparr>) \<or>
       cache_marked c VMCS_CONTROL_VECTOR_PROCESSOR_EVENTS \<and> cache64_is_dirty c \<and>
       cache_lookup c VMCS_CONTROL_VECTOR_PROCESSOR_EVENTS \<noteq> None"
    using flush_window_spec [OF s0(3) sync0, of chk] by blast
  let ?s1 = "s0 \<lparr> vmcs_cache := c \<rparr>"
  obtain s2 where s2: "nmi_point chk ?s1 = Some s2" "nmi_progress ?s1 s2" "vmcs_active s2"
      "\<forall>f < VMCS_FIELD_COUNT. vmcs_agrees f (vmcs_hw ?s1 f) (vmcs_hw s2 f)" "window_shown ?s1 \<longrightarrow> window_shown s2"
    using nmi_point_agrees [OF s1(2), of chk] by blast
  note same2 = nmi_progressD(1) [OF s2(2)]
  have sync2: "vmcs_synced s2" by (rule vmcs_synced_agrees [OF s1(3) same2 s2(4)])
  have c2: "vmcs_cache s2 = c" using vmcs_same_lookup(1) [OF same2] by simp
  obtain s3 where s3: "(if cache64_is_dirty (vmcs_cache s2)
      then cache64_flush_dirty vmcs_cache (\<lambda>c x. x \<lparr> vmcs_cache := c \<rparr>) CACHE_ALL_ENTRIES
             (Some (vmcs_act_flush_field_to_cpu chk)) s2
      else Some s2) = Some s3" "vmcs_active s3" "vmcs_synced s3" "\<not> cache64_is_dirty (vmcs_cache s3)"
    "nmi_progress (s2 \<lparr> vmcs_cache := vmcs_cache s3 \<rparr>) s3"
    "\<forall>f. field_hw_writeable s2 f \<longrightarrow> vmcs_agrees f (vmcs_view s2 f) (vmcs_hw s3 f)"
    "\<forall>f < VMCS_FIELD_COUNT. \<not> field_hw_writeable s2 f \<longrightarrow> vmcs_agrees f (vmcs_hw s2 f) (vmcs_hw s3 f)" "window_shown s3"
    using flush_dirty_spec [OF s2(3) sync2, of chk] s1(5) s2(5) c2 by blast
  obtain s4 where s4: "nmi_point chk s3 = Some s4" "nmi_progress s3 s4" "vmcs_active s4"
      "\<forall>f < VMCS_FIELD_COUNT. vmcs_agrees f (vmcs_hw s3 f) (vmcs_hw s4 f)" "window_shown s3 \<longrightarrow> window_shown s4"
    using nmi_point_agrees [OF s3(2), of chk] by blast
  note same4 = nmi_progressD(1) [OF s4(2)]
  have fd: "field_data s0 = field_data s" "field_data s2 = field_data s" "vmcs_cache s4 = vmcs_cache s3"
    using vmcs_same_lookup [OF same0] vmcs_same_lookup [OF same2] vmcs_same_lookup [OF same4] by simp_all
  have run: "vmcs_act_flush_to_cpu chk s = Some s4"
    using s0(1) s1(1) s2(1) s3(1) s4(1) assms(1) by (simp add: vmcs_act_flush_to_cpu_def vmcs_active_def)
  have "vmcs_agrees f (vmcs_view s f) (vmcs_hw s4 f)" if "field_hw_writeable s f" for f
  proof -
    have f: "f < VMCS_FIELD_COUNT" using that by simp
    note A = vmcs_view_agrees [OF same0 s0(4) f] and B = vmcs_view_agrees [OF same2 s2(4) f]
    have "vmcs_agrees f (vmcs_view s2 f) (vmcs_hw s3 f)" using s3(6) that fd by simp
    then show ?thesis
      using A B s1(4) s4(4) f by (blast intro: vmcs_agrees_trans)
  qed
  moreover have "vmcs_agrees f (vmcs_hw s f) (vmcs_hw s4 f)" if "f < VMCS_FIELD_COUNT" "\<not> field_hw_writeable s f" for f
  proof -
    have "vmcs_agrees f (vmcs_hw s2 f) (vmcs_hw s3 f)" using s3(7) that fd by simp
    moreover have "vmcs_agrees f (vmcs_hw s0 f) (vmcs_hw s2 f)" using s2(4) that(1) by simp
    ultimately show ?thesis
      using s0(4) s4(4) that(1) by (blast intro: vmcs_agrees_trans)
  qed
  moreover have "nmi_progress (s \<lparr> vmcs_cache := vmcs_cache s4 \<rparr>) s4"
    using nmi_progress_with_cache [OF s0(2), of "vmcs_cache s4"] nmi_progress_with_cache [OF s2(2), of "vmcs_cache s4"]
      s3(5) s4(2) fd(3) by (auto intro: nmi_progress_trans)
  moreover have "vmcs_synced s4" by (rule vmcs_synced_agrees [OF s3(3) same4 s4(4)])
  ultimately show ?thesis
    using run s3(4,8) s4(3,5) fd(3) by (intro exI [of _ s4] conjI) auto
qed

section \<open>Properties\<close>

lemma vmcs_example_ok: "vmcs_active vmcs_example" "vmcs_synced vmcs_example"
proof -
  have "\<exists>c. enable_vmcs_2_0_fields vmcs_example_constraints g_field_data = enable_vmcs_2_0_fields c g_field_data"
    by blast
  then show "vmcs_active vmcs_example"
    by (simp add: vmcs_active_def vmcs_example_def cache_ok_def bitarray_size_in_bytes_def)
  show "vmcs_synced vmcs_example"
    by (simp add: vmcs_synced_def vmcs_example_def cache_lookup_def)
qed

lemma vmcs_example_access:
  "access (field_data vmcs_example ! VMCS_GUEST_RIP) = WRITABLE"
  "access (field_data vmcs_example ! VMCS_CONTROL_VECTOR_PROCESSOR_EVENTS) = WRITABLE"
  "encoding (field_data vmcs_example ! VMCS_GUEST_RIP) = 0x681E"
  "length (field_data vmcs_example) = Suc VMCS_FIELD_COUNT"
  by (simp_all add: vmcs_example_def enable_vmcs_2_0_fields_fixed enable_vmcs_2_0_fields_nth)
    (simp_all add: g_field_data_def field_entry_def)

text \<open>
  C29. Reads, writes and updates of an active VMCS through its cache are those of a plain table of
  fields: a read of a readable field gives the value of the field and changes no field; a write gives
  the field the new value and changes no other; an update changes the bits it is asked for; and none
  of them touches the VMCS regions in memory.  A read of a field that is not readable gives all ones
  and a write of a field that is not writeable does nothing, and both stop the build with checks.
\<close>

theorem vmcs_access_refines:
  assumes "vmcs_active s" "f < VMCS_FIELD_COUNT" "\<not> skip_access_checking s"
  shows "(field_readable s f \<longrightarrow> (\<exists>s'. vmcs_read chk f s = Some (s', vmcs_view s f) \<and> vmcs_active s' \<and>
           vmcs_view s' = vmcs_view s \<and> vmcs_regions s' = vmcs_regions s)) \<and>
    (field_writeable s f \<longrightarrow> (\<exists>s'. vmcs_write chk f v s = Some s' \<and> vmcs_active s' \<and>
           vmcs_view s' = (vmcs_view s)(f := v) \<and> vmcs_regions s' = vmcs_regions s)) \<and>
    (field_readable s f \<and> field_writeable s f \<longrightarrow> (\<exists>s'. vmcs_update chk f v m s = Some s' \<and> vmcs_active s' \<and>
           (\<forall>g i. bit (vmcs_view s' g) i = (if g = f \<and> bit m i then bit v i else bit (vmcs_view s g) i)) \<and>
           vmcs_regions s' = vmcs_regions s)) \<and>
    (\<not> field_readable s f \<longrightarrow> vmcs_read chk f s = (if chk then None else Some (s, - 1))) \<and>
    (\<not> field_writeable s f \<longrightarrow> vmcs_write chk f v s = (if chk then None else Some s))"
proof (intro conjI impI)
  assume "field_readable s f"
  then show "\<exists>s'. vmcs_read chk f s = Some (s', vmcs_view s f) \<and> vmcs_active s' \<and>
      vmcs_view s' = vmcs_view s \<and> vmcs_regions s' = vmcs_regions s"
    using vmcs_read_active [OF assms(1), of f chk] by auto
next
  assume "field_writeable s f"
  then show "\<exists>s'. vmcs_write chk f v s = Some s' \<and> vmcs_active s' \<and>
      vmcs_view s' = (vmcs_view s)(f := v) \<and> vmcs_regions s' = vmcs_regions s"
    using vmcs_write_active [OF assms(1), of f chk v] by auto
next
  assume rw: "field_readable s f \<and> field_writeable s f"
  obtain c where c: "vmcs_update chk f v m s = Some (s \<lparr> vmcs_cache := c \<rparr>)" "vmcs_active (s \<lparr> vmcs_cache := c \<rparr>)"
      "vmcs_view (s \<lparr> vmcs_cache := c \<rparr>) = (vmcs_view s)(f := (vmcs_view s f AND NOT m) OR (v AND m))"
    using vmcs_update_active [OF assms(1) conjunct1 [OF rw] conjunct2 [OF rw], of chk v m] by blast
  have "bit ((vmcs_view s f AND NOT m) OR (v AND m)) i = (if bit m i then bit v i else bit (vmcs_view s f) i)" for i
    by (auto simp: bit_simps dest: bit_imp_le_length)
  then show "\<exists>s'. vmcs_update chk f v m s = Some s' \<and> vmcs_active s' \<and>
      (\<forall>g i. bit (vmcs_view s' g) i = (if g = f \<and> bit m i then bit v i else bit (vmcs_view s g) i)) \<and>
      vmcs_regions s' = vmcs_regions s"
    using c by (intro exI [of _ "s \<lparr> vmcs_cache := c \<rparr>"]) auto
next
  assume "\<not> field_readable s f"
  then show "vmcs_read chk f s = (if chk then None else Some (s, - 1))"
    using assms by (simp add: vmcs_read_def field_is_readable_active vmm_assert_def)
next
  assume "\<not> field_writeable s f"
  then show "vmcs_write chk f v s = (if chk then None else Some s)"
    using assms by (simp add: vmcs_write_def field_is_writeable_active vmm_assert_def)
qed

theorem vmcs_access_refines_witness:
  "\<exists>s'. vmcs_write True VMCS_GUEST_RIP 0x7C00 vmcs_example = Some s' \<and>
     vmcs_view s' VMCS_GUEST_RIP = 0x7C00 \<and> vmcs_view s' VMCS_GUEST_RSP = vmcs_view vmcs_example VMCS_GUEST_RSP"
proof -
  have "\<not> skip_access_checking vmcs_example" by (simp add: vmcs_example_def)
  then show ?thesis
    using vmcs_access_refines [OF vmcs_example_ok(1), of VMCS_GUEST_RIP True "0x7C00" 0]
    by (fastforce simp: vmcs_example_access)
qed

text \<open>
  C30. Flushing the cache of an active VMCS to the processor writes every field that the processor can
  be given: afterwards the cache is clean and each such field of the processor has the value that a
  read of the object gave before, every field that cannot be written and every other VMCS region is as
  it was.  The one difference is the NMI window control, which is open whenever the cached value has it
  open, and may in addition be opened by an NMI.
\<close>

theorem vmcs_flush_writes_view:
  assumes "vmcs_active s" "vmcs_synced s"
  shows "\<exists>s'. vmcs_act_flush_to_cpu chk s = Some s' \<and> vmcs_active s' \<and> vmcs_synced s' \<and>
    \<not> vmcs_act_is_dirty s' \<and>
    (\<forall>f. field_hw_writeable s f \<longrightarrow> vmcs_agrees f (vmcs_view s f) (vmcs_hw s' f)) \<and>
    (\<forall>f < VMCS_FIELD_COUNT. \<not> field_hw_writeable s f \<longrightarrow> vmcs_hw s' f = vmcs_hw s f) \<and>
    (\<forall>r. r \<noteq> vmcs_hpa s \<longrightarrow> vmcs_regions s' r = vmcs_regions s r)"
proof -
  obtain s' where s': "vmcs_act_flush_to_cpu chk s = Some s'" "vmcs_active s'" "vmcs_synced s'"
      "\<not> cache64_is_dirty (vmcs_cache s')" "nmi_progress (s \<lparr> vmcs_cache := vmcs_cache s' \<rparr>) s'"
      "\<forall>f. field_hw_writeable s f \<longrightarrow> vmcs_agrees f (vmcs_view s f) (vmcs_hw s' f)"
      "\<forall>f < VMCS_FIELD_COUNT. \<not> field_hw_writeable s f \<longrightarrow> vmcs_agrees f (vmcs_hw s f) (vmcs_hw s' f)"
    using vmcs_act_flush_to_cpu_spec [OF assms, of chk] by blast
  have "vmcs_hw s' f = vmcs_hw s f" if "f < VMCS_FIELD_COUNT" "\<not> field_hw_writeable s f" for f
    using s'(7) that active_proc_events(1) [OF assms(1)] by (auto simp: vmcs_agrees_def split: if_splits)
  then show ?thesis
    using s' nmi_progress_cache(2) [OF s'(5)] by (auto simp: vmcs_act_is_dirty_def)
qed

theorem vmcs_flush_writes_view_witness:
  "\<exists>s'. vmcs_act_flush_to_cpu True vmcs_example = Some s' \<and> vmcs_hw s' VMCS_GUEST_RIP = 0 \<and>
     vmcs_regions s' 0x2000 = (\<lambda>_. 0)"
proof -
  have "vmcs_view vmcs_example VMCS_GUEST_RIP = 0" "vmcs_hpa vmcs_example = 0x1000" "vmcs_regions vmcs_example 0x2000 = (\<lambda>_. 0)"
    by (simp_all add: vmcs_view_def vmcs_example_def cache_lookup_def vmcs_hw_def)
  then show ?thesis
    using vmcs_flush_writes_view [OF vmcs_example_ok, of True] by (force simp: vmcs_example_access vmcs_agrees_def)
qed

lemma flush_opens_window:
  assumes "vmcs_active s" "vmcs_synced s"
  shows "\<exists>s' taken. vmcs_act_flush_to_cpu chk s = Some s' \<and> nmi_arrivals s = taken @ nmi_arrivals s' \<and>
    (True \<in> set taken \<or> nmi_window_is_requested s \<longrightarrow> nmi_window_is_requested s' \<and>
       bit (vmcs_regions s' (vmcs_hpa s) VM_X_CONTROL_VECTOR_PROCESSOR_EVENTS) NMI_WINDOW_BIT)"
proof -
  obtain s' where s': "vmcs_act_flush_to_cpu chk s = Some s'" "vmcs_active s'"
      "nmi_progress (s \<lparr> vmcs_cache := vmcs_cache s' \<rparr>) s'" "window_shown s'"
    using vmcs_act_flush_to_cpu_spec [OF assms, of chk] by blast
  note P = nmi_progress_cache [OF s'(3)]
  have "bit (vmcs_regions s' (vmcs_hpa s) VM_X_CONTROL_VECTOR_PROCESSOR_EVENTS) NMI_WINDOW_BIT"
    if "nmi_window_is_requested s'"
    using that s'(4) active_proc_events(2) [OF s'(2)] P(3) by (simp add: window_shown_def vmcs_hw_def)
  then show ?thesis using s'(1) P(1) by blast
qed

text \<open>
  C31. No NMI is lost while the VMCS is written to the processor.  Whatever the points at which NMIs
  arrive, the flush returns, and if an NMI arrived during it or was waiting before it, then the request
  is still recorded and the processor's NMI window is open when it returns, so that the guest is left
  as soon as an NMI can be delivered.
\<close>

theorem flush_keeps_nmi:
  assumes "vmcs_active s" "vmcs_synced s"
  shows "\<exists>s' taken. vmcs_act_flush_to_cpu chk s = Some s' \<and> nmi_arrivals s = taken @ nmi_arrivals s' \<and>
    (True \<in> set taken \<or> nmi_window_is_requested s \<longrightarrow> nmi_window_is_requested s' \<and>
       bit (vmcs_regions s' (vmcs_hpa s) VM_X_CONTROL_VECTOR_PROCESSOR_EVENTS) NMI_WINDOW_BIT)"
  by (rule flush_opens_window [OF assms])

theorem flush_keeps_nmi_witness:
  "\<exists>s'. vmcs_act_flush_to_cpu True (vmcs_example \<lparr> nmi_window := True \<rparr>) = Some s' \<and>
     bit (vmcs_regions s' 0x1000 VM_X_CONTROL_VECTOR_PROCESSOR_EVENTS) NMI_WINDOW_BIT"
proof -
  have "vmcs_active (vmcs_example \<lparr> nmi_window := True \<rparr>)" "vmcs_synced (vmcs_example \<lparr> nmi_window := True \<rparr>)"
    using vmcs_example_ok by (simp_all add: vmcs_active_def vmcs_synced_def vmcs_hw_def)
  from flush_keeps_nmi [OF this, of True] show ?thesis
    by (auto simp: nmi_window_is_requested_def vmcs_example_def)
qed



lemma activated_flags:
  fixes a :: "16 word"
  assumes "(a OR ACTIVATED_FLAG) AND NEVER_ACTIVATED_FLAG = 0"
  shows "a AND NEVER_ACTIVATED_FLAG = 0" "(a OR ACTIVATED_FLAG) AND NOT NEVER_ACTIVATED_FLAG = a OR ACTIVATED_FLAG"
proof -
  have "(b OR c) AND d = 0 \<Longrightarrow> b AND d = 0" for b c d :: "16 word"
    by (auto simp: bit_eq_iff [of "(b OR c) AND d"] bit_eq_iff [of "b AND d"] bit_simps)
  then show "a AND NEVER_ACTIVATED_FLAG = 0" using assms by blast
  have "b AND d = 0 \<Longrightarrow> b AND NOT d = b" for b d :: "16 word"
    by (auto simp: bit_eq_iff [of "b AND d"] bit_eq_iff [of "b AND NOT d"] bit_simps dest: bit_imp_le_length)
  then show "(a OR ACTIVATED_FLAG) AND NOT NEVER_ACTIVATED_FLAG = a OR ACTIVATED_FLAG" using assms by blast
qed

lemma vmcs_activate_used:
  assumes "vmcs_active (s \<lparr> current_vmcs := vmcs_hpa s, vmcs_flags := vmcs_flags s OR ACTIVATED_FLAG \<rparr>)"
    "region_ok s (vmcs_hpa s)" "vmcs_flags s AND ACTIVATED_FLAG = 0" "vmcs_hpa s \<noteq> 0"
  shows "vmcs_activate chk s = Some (s \<lparr> current_vmcs := vmcs_hpa s, vmcs_flags := vmcs_flags s OR ACTIVATED_FLAG \<rparr>)"
proof -
  have "(vmcs_flags s OR ACTIVATED_FLAG) AND NEVER_ACTIVATED_FLAG = 0" "owning_host_cpu s = this_cpu s"
    using assms(1) by (simp_all add: vmcs_active_def)
  note F = activated_flags [OF this(1)] and this(2)
  then show ?thesis
    using assms(2-4) unfolding vmcs_activate_def vmx_vmptrld_def
    by (cases s) (simp add: F)
qed

text \<open>
  C33. Moving a VMCS out of the processor keeps its contents.  For an object that this CPU used last and
  that is not active now, the operation activates it, writes the cache and clears it from the
  processor: afterwards the region in memory holds every value that the object showed and that can be
  written, the object belongs to no CPU, is not active and has to be entered with a launch, and no
  other region has changed.
\<close>

theorem vmcs_flush_to_memory_keeps:
  assumes "vmcs_active (s \<lparr> current_vmcs := vmcs_hpa s, vmcs_flags := vmcs_flags s OR ACTIVATED_FLAG \<rparr>)"
    "vmcs_synced s" "region_ok s (vmcs_hpa s)" "vmcs_flags s AND ACTIVATED_FLAG = 0"
    "if stack_cell s = HW_VMCS_IS_EMPTY then chk \<longrightarrow> temp_cell s = HW_VMCS_IS_EMPTY \<or> region_ok s (temp_cell s)
     else region_ok s (stack_cell s)" "vmcs_hpa s \<noteq> 0"
  shows "\<exists>s'. vmcs_act_flush_to_memory chk s = Some s' \<and>
    (\<forall>f. field_hw_writeable s f \<longrightarrow> vmcs_agrees f (vmcs_view s f) (vmcs_hw s' f)) \<and>
    (\<forall>r. r \<noteq> vmcs_hpa s \<longrightarrow> vmcs_regions s' r = vmcs_regions s r) \<and>
    owning_host_cpu s' = CPU_NEVER_USED \<and> vmcs_flags s' AND ACTIVATED_FLAG = 0 \<and> vmcs_launch_required s' \<and>
    \<not> vmcs_act_is_dirty s' \<and> current_vmcs s' = stack_cell s"
proof -
  let ?s = "s \<lparr> current_vmcs := vmcs_hpa s, vmcs_flags := vmcs_flags s OR ACTIVATED_FLAG \<rparr>"
  have hw: "vmcs_hw ?s = vmcs_hw s" by (simp add: vmcs_hw_def fun_eq_iff)
  have view: "vmcs_view ?s = vmcs_view s" by (auto simp: vmcs_view_def fun_eq_iff hw split: option.splits)
  have "vmcs_synced ?s" using assms(2) by (simp add: vmcs_synced_def hw)
  then obtain s2 where s2: "vmcs_act_flush_to_cpu chk ?s = Some s2" "vmcs_active s2" "\<not> cache64_is_dirty (vmcs_cache s2)"
      "nmi_progress (?s \<lparr> vmcs_cache := vmcs_cache s2 \<rparr>) s2"
      "\<forall>f. field_hw_writeable ?s f \<longrightarrow> vmcs_agrees f (vmcs_view ?s f) (vmcs_hw s2 f)"
    using vmcs_act_flush_to_cpu_spec [OF assms(1), of chk] by blast
  have same: "region_ok s2 = region_ok s" "stack_cell s2 = stack_cell s" "temp_cell s2 = temp_cell s" "vmcs_hpa s2 = vmcs_hpa s"
      "field_data s2 = field_data s"
    using s2(4) by (simp_all add: nmi_progress_def vmcs_same_def)
  have own: "owning_host_cpu s2 = this_cpu s2" "current_vmcs s2 = vmcs_hpa s2" "vmcs_hpa s2 \<noteq> HW_VMCS_IS_EMPTY"
    "owning_host_cpu s = this_cpu s" "this_cpu s \<noteq> CPU_NEVER_USED"
    using s2(2) assms(1) by (auto simp: vmcs_active_def)
  let ?s4 = "s2 \<lparr> current_vmcs := stack_cell s, vmcs_flags := (vmcs_flags s2 AND NOT ACTIVATED_FLAG) AND NOT LAUNCHED_FLAG,
    owning_host_cpu := CPU_NEVER_USED \<rparr>"
  have "vmcs_act_flush_to_memory chk s = Some ?s4"
    using s2(1) own same assms(3,5,6) vmcs_activate_used [OF assms(1,3,4,6), of chk]
    by (auto simp: vmcs_act_flush_to_memory_def vmcs_deactivate_def hw_vmx_flush_current_vmcs_def vmx_vmptrst_def
          restore_previous_vmcs_ptr_def vmx_vmptrld_def error_processing_def Let_def split: if_splits)
  moreover have "vmcs_flags ?s4 AND ACTIVATED_FLAG = 0" "vmcs_launch_required ?s4"
    by (simp_all add: vmcs_launch_required_def and.assoc)
  moreover have "vmcs_hw ?s4 = vmcs_hw s2" by (simp add: vmcs_hw_def fun_eq_iff)
  ultimately show ?thesis
    using s2(3,5) view nmi_progress_cache(2) [OF s2(4)] by (intro exI [of _ ?s4]) (simp add: vmcs_act_is_dirty_def)
qed

theorem vmcs_flush_to_memory_keeps_witness:
  "\<exists>s'. vmcs_act_flush_to_memory True (vmcs_example \<lparr> current_vmcs := 0x2000, vmcs_flags := 0 \<rparr>) = Some s' \<and>
     vmcs_hw s' VMCS_GUEST_RIP = 0 \<and> vmcs_launch_required s'"
proof -
  let ?s = "vmcs_example \<lparr> current_vmcs := 0x2000, vmcs_flags := 0 \<rparr>"
  have e: "vmcs_hpa ?s = 0x1000" "vmcs_flags ?s = 0" "region_ok ?s (vmcs_hpa ?s)" "region_ok ?s (stack_cell ?s)"
    "stack_cell ?s \<noteq> HW_VMCS_IS_EMPTY" "?s \<lparr> current_vmcs := 0x1000, vmcs_flags := ACTIVATED_FLAG \<rparr> = vmcs_example"
    by (simp_all add: vmcs_example_def)
  have v: "vmcs_view ?s VMCS_GUEST_RIP = 0"
    by (simp add: vmcs_view_def vmcs_example_def cache_lookup_def vmcs_hw_def)
  have y: "vmcs_synced ?s" using vmcs_example_ok(2) by (simp add: vmcs_synced_def vmcs_hw_def)
  have "vmcs_active (?s \<lparr> current_vmcs := vmcs_hpa ?s, vmcs_flags := vmcs_flags ?s OR ACTIVATED_FLAG \<rparr>)"
    using e(1,2,6) vmcs_example_ok(1) by simp
  from vmcs_flush_to_memory_keeps [OF this y e(3), of True] e v show ?thesis
    by (force simp: vmcs_example_access vmcs_agrees_def)
qed

end
