(* ===== verification/VmmVmxCaps.thy ===== *)
theory VmmVmxCaps
  imports VmmVmcsFields
begin

unbundle bit_operations_syntax

text \<open>
  What the processor allows in the VMX control fields: the bits of the control fields
  (\<^verbatim>\<open>vmm/include/hw/vmx_ctrl_msrs.h\<close>), the reading of the capability MSRs
  (\<^verbatim>\<open>fill_vmx_capabilities\<close> of \<^verbatim>\<open>vmm/host/hw/vmcs_init.c\<close>) and the functions that make a value
  compliant (\<^verbatim>\<open>vmm/include/hw/vmcs_init.h\<close>).  The MSRs are a function from indices to values.
\<close>

section \<open>Indices and bits\<close>

abbreviation (input) IA32_MSR_VMCS_REVISION_IDENTIFIER_INDEX :: nat where "IA32_MSR_VMCS_REVISION_IDENTIFIER_INDEX \<equiv> 0x480"
abbreviation (input) IA32_MSR_PIN_BASED_VM_EXECUTION_CONTROLS_INDEX :: nat where "IA32_MSR_PIN_BASED_VM_EXECUTION_CONTROLS_INDEX \<equiv> 0x481"
abbreviation (input) IA32_MSR_PROCESSOR_BASED_VM_EXECUTION_CONTROLS_INDEX :: nat where "IA32_MSR_PROCESSOR_BASED_VM_EXECUTION_CONTROLS_INDEX \<equiv> 0x482"
abbreviation (input) IA32_MSR_PROCESSOR_BASED_VM_EXECUTION_CONTROLS2_INDEX :: nat where "IA32_MSR_PROCESSOR_BASED_VM_EXECUTION_CONTROLS2_INDEX \<equiv> 0x48B"
abbreviation (input) IA32_MSR_VM_EXIT_CONTROLS_INDEX :: nat where "IA32_MSR_VM_EXIT_CONTROLS_INDEX \<equiv> 0x483"
abbreviation (input) IA32_MSR_VM_ENTRY_CONTROLS_INDEX :: nat where "IA32_MSR_VM_ENTRY_CONTROLS_INDEX \<equiv> 0x484"
abbreviation (input) IA32_MSR_MISCELLANEOUS_DATA_INDEX :: nat where "IA32_MSR_MISCELLANEOUS_DATA_INDEX \<equiv> 0x485"
abbreviation (input) IA32_MSR_CR0_ALLOWED_ZERO_INDEX :: nat where "IA32_MSR_CR0_ALLOWED_ZERO_INDEX \<equiv> 0x486"
abbreviation (input) IA32_MSR_CR0_ALLOWED_ONE_INDEX :: nat where "IA32_MSR_CR0_ALLOWED_ONE_INDEX \<equiv> 0x487"
abbreviation (input) IA32_MSR_CR4_ALLOWED_ZERO_INDEX :: nat where "IA32_MSR_CR4_ALLOWED_ZERO_INDEX \<equiv> 0x488"
abbreviation (input) IA32_MSR_CR4_ALLOWED_ONE_INDEX :: nat where "IA32_MSR_CR4_ALLOWED_ONE_INDEX \<equiv> 0x489"
abbreviation (input) IA32_MSR_EPT_VPID_CAP_INDEX :: nat where "IA32_MSR_EPT_VPID_CAP_INDEX \<equiv> 0x48C"

abbreviation (input) PIN_ExternalInterrupt :: nat where "PIN_ExternalInterrupt \<equiv> 0"
abbreviation (input) PIN_Nmi :: nat where "PIN_Nmi \<equiv> 3"
abbreviation (input) PIN_VirtualNmi :: nat where "PIN_VirtualNmi \<equiv> 5"
abbreviation (input) PIN_VmxTimer :: nat where "PIN_VmxTimer \<equiv> 6"

abbreviation (input) PROC_VirtualInterrupt :: nat where "PROC_VirtualInterrupt \<equiv> 2"
abbreviation (input) PROC_UseTscOffsetting :: nat where "PROC_UseTscOffsetting \<equiv> 3"
abbreviation (input) PROC_Hlt :: nat where "PROC_Hlt \<equiv> 7"
abbreviation (input) PROC_Invlpg :: nat where "PROC_Invlpg \<equiv> 9"
abbreviation (input) PROC_Mwait :: nat where "PROC_Mwait \<equiv> 10"
abbreviation (input) PROC_Rdpmc :: nat where "PROC_Rdpmc \<equiv> 11"
abbreviation (input) PROC_Rdtsc :: nat where "PROC_Rdtsc \<equiv> 12"
abbreviation (input) PROC_Cr3Load :: nat where "PROC_Cr3Load \<equiv> 15"
abbreviation (input) PROC_Cr3Store :: nat where "PROC_Cr3Store \<equiv> 16"
abbreviation (input) PROC_Cr8Load :: nat where "PROC_Cr8Load \<equiv> 19"
abbreviation (input) PROC_Cr8Store :: nat where "PROC_Cr8Store \<equiv> 20"
abbreviation (input) PROC_TprShadow :: nat where "PROC_TprShadow \<equiv> 21"
abbreviation (input) PROC_NmiWindow :: nat where "PROC_NmiWindow \<equiv> 22"
abbreviation (input) PROC_MovDr :: nat where "PROC_MovDr \<equiv> 23"
abbreviation (input) PROC_UnconditionalIo :: nat where "PROC_UnconditionalIo \<equiv> 24"
abbreviation (input) PROC_ActivateIoBitmaps :: nat where "PROC_ActivateIoBitmaps \<equiv> 25"
abbreviation (input) PROC_MonitorTrapFlag :: nat where "PROC_MonitorTrapFlag \<equiv> 27"
abbreviation (input) PROC_Monitor :: nat where "PROC_Monitor \<equiv> 29"
abbreviation (input) PROC_Pause :: nat where "PROC_Pause \<equiv> 30"
abbreviation (input) PROC_SecondaryControls :: nat where "PROC_SecondaryControls \<equiv> 31"

abbreviation (input) PROC2_EnableEPT :: nat where "PROC2_EnableEPT \<equiv> 1"
abbreviation (input) PROC2_EnableRDTSCP :: nat where "PROC2_EnableRDTSCP \<equiv> 3"
abbreviation (input) PROC2_EnableVPID :: nat where "PROC2_EnableVPID \<equiv> 5"
abbreviation (input) PROC2_UnrestrictedGuest :: nat where "PROC2_UnrestrictedGuest \<equiv> 7"
abbreviation (input) PROC2_EnableINVPCID :: nat where "PROC2_EnableINVPCID \<equiv> 12"
abbreviation (input) PROC2_VE :: nat where "PROC2_VE \<equiv> 18"

abbreviation (input) EXIT_SaveCr0AndCr4 :: nat where "EXIT_SaveCr0AndCr4 \<equiv> 0"
abbreviation (input) EXIT_SaveCr3 :: nat where "EXIT_SaveCr3 \<equiv> 1"
abbreviation (input) EXIT_SaveDebugControls :: nat where "EXIT_SaveDebugControls \<equiv> 2"
abbreviation (input) EXIT_SaveSegmentRegisters :: nat where "EXIT_SaveSegmentRegisters \<equiv> 3"
abbreviation (input) EXIT_SaveEspEipEflags :: nat where "EXIT_SaveEspEipEflags \<equiv> 4"
abbreviation (input) EXIT_SavePendingDebugExceptions :: nat where "EXIT_SavePendingDebugExceptions \<equiv> 5"
abbreviation (input) EXIT_SaveInterruptibilityInformation :: nat where "EXIT_SaveInterruptibilityInformation \<equiv> 6"
abbreviation (input) EXIT_SaveActivityState :: nat where "EXIT_SaveActivityState \<equiv> 7"
abbreviation (input) EXIT_SaveWorkingVmcsPointer :: nat where "EXIT_SaveWorkingVmcsPointer \<equiv> 8"
abbreviation (input) EXIT_LoadCr0AndCr4 :: nat where "EXIT_LoadCr0AndCr4 \<equiv> 10"
abbreviation (input) EXIT_LoadCr3 :: nat where "EXIT_LoadCr3 \<equiv> 11"
abbreviation (input) EXIT_Load_IA32_PERF_GLOBAL_CTRL :: nat where "EXIT_Load_IA32_PERF_GLOBAL_CTRL \<equiv> 12"
abbreviation (input) EXIT_LoadSegmentRegisters :: nat where "EXIT_LoadSegmentRegisters \<equiv> 13"
abbreviation (input) EXIT_LoadEspEip :: nat where "EXIT_LoadEspEip \<equiv> 14"
abbreviation (input) EXIT_AcknowledgeInterruptOnExit :: nat where "EXIT_AcknowledgeInterruptOnExit \<equiv> 15"
abbreviation (input) EXIT_SaveSysEnterMsrs :: nat where "EXIT_SaveSysEnterMsrs \<equiv> 16"
abbreviation (input) EXIT_LoadSysEnterMsrs :: nat where "EXIT_LoadSysEnterMsrs \<equiv> 17"
abbreviation (input) EXIT_SavePat :: nat where "EXIT_SavePat \<equiv> 18"
abbreviation (input) EXIT_LoadPat :: nat where "EXIT_LoadPat \<equiv> 19"
abbreviation (input) EXIT_SaveEfer :: nat where "EXIT_SaveEfer \<equiv> 20"
abbreviation (input) EXIT_LoadEfer :: nat where "EXIT_LoadEfer \<equiv> 21"

abbreviation (input) ENTRY_LoadCr0AndCr4 :: nat where "ENTRY_LoadCr0AndCr4 \<equiv> 0"
abbreviation (input) ENTRY_LoadCr3 :: nat where "ENTRY_LoadCr3 \<equiv> 1"
abbreviation (input) ENTRY_LoadDebugControls :: nat where "ENTRY_LoadDebugControls \<equiv> 2"
abbreviation (input) ENTRY_LoadSegmentRegisters :: nat where "ENTRY_LoadSegmentRegisters \<equiv> 3"
abbreviation (input) ENTRY_LoadEspEipEflags :: nat where "ENTRY_LoadEspEipEflags \<equiv> 4"
abbreviation (input) ENTRY_LoadPendingDebugExceptions :: nat where "ENTRY_LoadPendingDebugExceptions \<equiv> 5"
abbreviation (input) ENTRY_LoadInterruptibilityInformation :: nat where "ENTRY_LoadInterruptibilityInformation \<equiv> 6"
abbreviation (input) ENTRY_LoadActivityState :: nat where "ENTRY_LoadActivityState \<equiv> 7"
abbreviation (input) ENTRY_LoadWorkingVmcsPointer :: nat where "ENTRY_LoadWorkingVmcsPointer \<equiv> 8"
abbreviation (input) ENTRY_Ia32eModeGuest :: nat where "ENTRY_Ia32eModeGuest \<equiv> 9"
abbreviation (input) ENTRY_EntryToSmm :: nat where "ENTRY_EntryToSmm \<equiv> 10"
abbreviation (input) ENTRY_TearDownSmmMonitor :: nat where "ENTRY_TearDownSmmMonitor \<equiv> 11"
abbreviation (input) ENTRY_LoadSysEnterMsrs :: nat where "ENTRY_LoadSysEnterMsrs \<equiv> 12"
abbreviation (input) ENTRY_Load_IA32_PERF_GLOBAL_CTRL :: nat where "ENTRY_Load_IA32_PERF_GLOBAL_CTRL \<equiv> 13"
abbreviation (input) ENTRY_LoadPat :: nat where "ENTRY_LoadPat \<equiv> 14"
abbreviation (input) ENTRY_LoadEfer :: nat where "ENTRY_LoadEfer \<equiv> 15"
abbreviation (input) MASK_PE_PG_OFF_UNRESTRICTED_GUEST :: "64 word" where
  "MASK_PE_PG_OFF_UNRESTRICTED_GUEST \<equiv> 0xFFFFFFFF7FFFFFFE"
abbreviation (input) EM64T_CR8_VALID_BITS_MASK :: "64 word" where "EM64T_CR8_VALID_BITS_MASK \<equiv> 0x0F"

section \<open>Constraints\<close>

text \<open>
  \<^verbatim>\<open>VMCS_HW_CONSTRAINTS\<close>: the part that the table of VMCS fields looks at, and the rest.
\<close>

record vmx_constraints = vmcs_hw_constraints +
  may1_pin_based_exec_ctrl :: "32 word"
  may0_pin_based_exec_ctrl :: "32 word"
  may1_processor_based_exec_ctrl :: "32 word"
  may0_processor_based_exec_ctrl :: "32 word"
  may1_processor_based_exec_ctrl2 :: "32 word"
  may0_processor_based_exec_ctrl2 :: "32 word"
  may1_vm_exit_ctrl :: "32 word"
  may0_vm_exit_ctrl :: "32 word"
  may1_vm_entry_ctrl :: "32 word"
  may0_vm_entry_ctrl :: "32 word"
  may1_cr0 :: "64 word"
  may0_cr0 :: "64 word"
  may1_cr4 :: "64 word"
  may0_cr4 :: "64 word"
  number_of_cr3_target_values :: nat
  max_msr_lists_size_in_bytes :: nat
  vmx_timer_length :: nat
  vmcs_revision :: "32 word"
  mseg_revision_id :: "32 word"
  vm_entry_in_halt_state_supported :: bool
  vm_entry_in_shutdown_state_supported :: bool
  vm_entry_in_wait_for_sipi_state_supported :: bool
  processor_based_exec_ctrl2_supported :: bool
  unrestricted_guest_supported :: bool
  ept_vpid_capabilities :: "64 word"

record vmx_fixed =
  fixed_1_pin_based_exec_ctrl :: "32 word"
  fixed_0_pin_based_exec_ctrl :: "32 word"
  fixed_1_processor_based_exec_ctrl :: "32 word"
  fixed_0_processor_based_exec_ctrl :: "32 word"
  fixed_1_processor_based_exec_ctrl2 :: "32 word"
  fixed_0_processor_based_exec_ctrl2 :: "32 word"
  fixed_1_vm_exit_ctrl :: "32 word"
  fixed_0_vm_exit_ctrl :: "32 word"
  fixed_1_vm_entry_ctrl :: "32 word"
  fixed_0_vm_entry_ctrl :: "32 word"
  fixed_1_cr0 :: "64 word"
  fixed_0_cr0 :: "64 word"
  fixed_1_cr4 :: "64 word"
  fixed_0_cr4 :: "64 word"

text \<open>The halves of a capability MSR for a 32-bit control field.\<close>

definition MayBeSetToZero :: "64 word \<Rightarrow> 32 word" where
  "MayBeSetToZero r = ucast r"

definition MayBeSetToOne :: "64 word \<Rightarrow> 32 word" where
  "MayBeSetToOne r = ucast (drop_bit 32 r)"

definition fill_constraints :: "(nat \<Rightarrow> 64 word) \<Rightarrow> vmx_constraints" where
  "fill_constraints hw_read_msr = (
     let revision = hw_read_msr IA32_MSR_VMCS_REVISION_IDENTIFIER_INDEX;
       pin = hw_read_msr IA32_MSR_PIN_BASED_VM_EXECUTION_CONTROLS_INDEX;
       proc = hw_read_msr IA32_MSR_PROCESSOR_BASED_VM_EXECUTION_CONTROLS_INDEX;
       ctrl2 = bit (MayBeSetToOne proc) PROC_SecondaryControls;
       proc2 = (if ctrl2 then hw_read_msr IA32_MSR_PROCESSOR_BASED_VM_EXECUTION_CONTROLS2_INDEX else 0);
       may1_2 = MayBeSetToOne proc2;
       ept_vpid = (if ctrl2 \<and> (bit may1_2 PROC2_EnableEPT \<or> bit may1_2 PROC2_EnableVPID)
                   then hw_read_msr IA32_MSR_EPT_VPID_CAP_INDEX else 0);
       exit_ctrl = hw_read_msr IA32_MSR_VM_EXIT_CONTROLS_INDEX;
       entry_ctrl = hw_read_msr IA32_MSR_VM_ENTRY_CONTROLS_INDEX;
       misc = hw_read_msr IA32_MSR_MISCELLANEOUS_DATA_INDEX
     in \<lparr> ept_supported = ctrl2 \<and> bit may1_2 PROC2_EnableEPT,
          vpid_supported = ctrl2 \<and> bit may1_2 PROC2_EnableVPID,
          ve_supported = ctrl2 \<and> bit may1_2 PROC2_VE,
          entry_load_efer = bit (MayBeSetToOne entry_ctrl) ENTRY_LoadEfer,
          entry_load_pat = bit (MayBeSetToOne entry_ctrl) ENTRY_LoadPat,
          entry_load_perf_global_ctrl = bit (MayBeSetToOne entry_ctrl) ENTRY_Load_IA32_PERF_GLOBAL_CTRL,
          exit_save_efer = bit (MayBeSetToOne exit_ctrl) EXIT_SaveEfer,
          exit_save_pat = bit (MayBeSetToOne exit_ctrl) EXIT_SavePat,
          exit_load_efer = bit (MayBeSetToOne exit_ctrl) EXIT_LoadEfer,
          exit_load_pat = bit (MayBeSetToOne exit_ctrl) EXIT_LoadPat,
          exit_load_perf_global_ctrl = bit (MayBeSetToOne exit_ctrl) EXIT_Load_IA32_PERF_GLOBAL_CTRL,
          pin_vmx_timer = bit (MayBeSetToOne pin) PIN_VmxTimer,
          may1_pin_based_exec_ctrl = MayBeSetToOne pin,
          may0_pin_based_exec_ctrl = MayBeSetToZero pin,
          may1_processor_based_exec_ctrl = MayBeSetToOne proc,
          may0_processor_based_exec_ctrl = MayBeSetToZero proc,
          may1_processor_based_exec_ctrl2 = may1_2,
          may0_processor_based_exec_ctrl2 = MayBeSetToZero proc2,
          may1_vm_exit_ctrl = MayBeSetToOne exit_ctrl,
          may0_vm_exit_ctrl = MayBeSetToZero exit_ctrl,
          may1_vm_entry_ctrl = MayBeSetToOne entry_ctrl,
          may0_vm_entry_ctrl = MayBeSetToZero entry_ctrl,
          may1_cr0 = hw_read_msr IA32_MSR_CR0_ALLOWED_ONE_INDEX,
          may0_cr0 = hw_read_msr IA32_MSR_CR0_ALLOWED_ZERO_INDEX,
          may1_cr4 = hw_read_msr IA32_MSR_CR4_ALLOWED_ONE_INDEX,
          may0_cr4 = hw_read_msr IA32_MSR_CR4_ALLOWED_ZERO_INDEX,
          number_of_cr3_target_values = unat (take_bit 9 (drop_bit 16 misc)),
          max_msr_lists_size_in_bytes = (unat (take_bit 3 (drop_bit 25 misc)) + 1) * 512,
          vmx_timer_length = unat (take_bit 5 misc),
          vmcs_revision = ucast revision,
          mseg_revision_id = ucast (drop_bit 32 misc),
          vm_entry_in_halt_state_supported = bit misc 6,
          vm_entry_in_shutdown_state_supported = bit misc 7,
          vm_entry_in_wait_for_sipi_state_supported = bit misc 8,
          processor_based_exec_ctrl2_supported = ctrl2,
          unrestricted_guest_supported = ctrl2 \<and> bit may1_2 PROC2_UnrestrictedGuest,
          ept_vpid_capabilities = ept_vpid \<rparr>)"

definition determine_fixed_values :: "vmx_constraints \<Rightarrow> vmx_fixed" where
  "determine_fixed_values c =
     \<lparr> fixed_1_pin_based_exec_ctrl = may0_pin_based_exec_ctrl c AND may1_pin_based_exec_ctrl c,
       fixed_0_pin_based_exec_ctrl = may0_pin_based_exec_ctrl c OR may1_pin_based_exec_ctrl c,
       fixed_1_processor_based_exec_ctrl = may0_processor_based_exec_ctrl c AND may1_processor_based_exec_ctrl c,
       fixed_0_processor_based_exec_ctrl = may0_processor_based_exec_ctrl c OR may1_processor_based_exec_ctrl c,
       fixed_1_processor_based_exec_ctrl2 = may0_processor_based_exec_ctrl2 c AND may1_processor_based_exec_ctrl2 c,
       fixed_0_processor_based_exec_ctrl2 = may0_processor_based_exec_ctrl2 c OR may1_processor_based_exec_ctrl2 c,
       fixed_1_vm_exit_ctrl = may0_vm_exit_ctrl c AND may1_vm_exit_ctrl c,
       fixed_0_vm_exit_ctrl = may0_vm_exit_ctrl c OR may1_vm_exit_ctrl c,
       fixed_1_vm_entry_ctrl = may0_vm_entry_ctrl c AND may1_vm_entry_ctrl c,
       fixed_0_vm_entry_ctrl = may0_vm_entry_ctrl c OR may1_vm_entry_ctrl c,
       fixed_1_cr0 = (let fixed1 = may0_cr0 c AND may1_cr0 c
                      in if unrestricted_guest_supported c
                         then fixed1 AND MASK_PE_PG_OFF_UNRESTRICTED_GUEST else fixed1),
       fixed_0_cr0 = may0_cr0 c OR may1_cr0 c,
       fixed_1_cr4 = may0_cr4 c AND may1_cr4 c,
       fixed_0_cr4 = may0_cr4 c OR may1_cr4 c \<rparr>"

definition fill_vmx_capabilities :: "bool \<Rightarrow> (nat \<Rightarrow> 64 word) \<Rightarrow> (vmx_constraints \<times> vmx_fixed) option" where
  "fill_vmx_capabilities chk hw_read_msr = do {
     vmm_assert chk (hw_read_msr IA32_MSR_VMCS_REVISION_IDENTIFIER_INDEX AND 0x77777777 \<noteq> 0);
     let c = fill_constraints hw_read_msr;
     Some (c, determine_fixed_values c)
   }"

section \<open>Compliant values\<close>

definition vmcs_hw_make_compliant_pin_based_exec_ctrl :: "vmx_fixed \<Rightarrow> 32 word \<Rightarrow> 32 word" where
  "vmcs_hw_make_compliant_pin_based_exec_ctrl x v =
     (v AND fixed_0_pin_based_exec_ctrl x) OR fixed_1_pin_based_exec_ctrl x"

definition vmcs_hw_make_compliant_processor_based_exec_ctrl :: "vmx_fixed \<Rightarrow> 32 word \<Rightarrow> 32 word" where
  "vmcs_hw_make_compliant_processor_based_exec_ctrl x v =
     (v AND fixed_0_processor_based_exec_ctrl x) OR fixed_1_processor_based_exec_ctrl x"

definition vmcs_hw_make_compliant_processor_based_exec_ctrl2 :: "vmx_fixed \<Rightarrow> 32 word \<Rightarrow> 32 word" where
  "vmcs_hw_make_compliant_processor_based_exec_ctrl2 x v =
     (v AND fixed_0_processor_based_exec_ctrl2 x) OR fixed_1_processor_based_exec_ctrl2 x"

definition vmcs_hw_make_compliant_vm_exit_ctrl :: "vmx_fixed \<Rightarrow> 32 word \<Rightarrow> 32 word" where
  "vmcs_hw_make_compliant_vm_exit_ctrl x v = (v AND fixed_0_vm_exit_ctrl x) OR fixed_1_vm_exit_ctrl x"

definition vmcs_hw_make_compliant_vm_entry_ctrl :: "vmx_fixed \<Rightarrow> 32 word \<Rightarrow> 32 word" where
  "vmcs_hw_make_compliant_vm_entry_ctrl x v = (v AND fixed_0_vm_entry_ctrl x) OR fixed_1_vm_entry_ctrl x"

definition vmcs_hw_make_compliant_cr0 :: "vmx_fixed \<Rightarrow> 64 word \<Rightarrow> 64 word" where
  "vmcs_hw_make_compliant_cr0 x v = (v AND fixed_0_cr0 x) OR fixed_1_cr0 x"

definition vmcs_hw_make_compliant_cr4 :: "vmx_fixed \<Rightarrow> 64 word \<Rightarrow> 64 word" where
  "vmcs_hw_make_compliant_cr4 x v = (v AND fixed_0_cr4 x) OR fixed_1_cr4 x"

definition vmcs_hw_make_compliant_cr8 :: "64 word \<Rightarrow> 64 word" where
  "vmcs_hw_make_compliant_cr8 v = v AND EM64T_CR8_VALID_BITS_MASK"

section \<open>Specification\<close>

definition bits_below :: "'w::len word \<Rightarrow> 'w word \<Rightarrow> bool" where
  "bits_below a b \<longleftrightarrow> (\<forall>i. bit a i \<longrightarrow> bit b i)"

text \<open>A bit that is fixed to one is not fixed to zero.\<close>

definition vmx_fixed_ok :: "vmx_fixed \<Rightarrow> bool" where
  "vmx_fixed_ok x \<longleftrightarrow>
     bits_below (fixed_1_pin_based_exec_ctrl x) (fixed_0_pin_based_exec_ctrl x) \<and>
     bits_below (fixed_1_processor_based_exec_ctrl x) (fixed_0_processor_based_exec_ctrl x) \<and>
     bits_below (fixed_1_processor_based_exec_ctrl2 x) (fixed_0_processor_based_exec_ctrl2 x) \<and>
     bits_below (fixed_1_vm_exit_ctrl x) (fixed_0_vm_exit_ctrl x) \<and>
     bits_below (fixed_1_vm_entry_ctrl x) (fixed_0_vm_entry_ctrl x) \<and>
     bits_below (fixed_1_cr0 x) (fixed_0_cr0 x) \<and> bits_below (fixed_1_cr4 x) (fixed_0_cr4 x)"

lemma bits_below_refl [simp]: "bits_below a a"
  by (simp add: bits_below_def)

lemma bits_below_trans: "bits_below a b \<Longrightarrow> bits_below b c \<Longrightarrow> bits_below a c"
  by (simp add: bits_below_def)

text \<open>Whatever the MSRs say, no bit is fixed to both values.\<close>

lemma determine_fixed_values_ok: "vmx_fixed_ok (determine_fixed_values c)"
  by (simp add: vmx_fixed_ok_def bits_below_def determine_fixed_values_def Let_def bit_simps)

end
