(* ===== verification/VmmGuestControl.thy ===== *)
theory VmmGuestControl
  imports VmmVmcs VmmVmxCaps
begin

unbundle bit_operations_syntax

text \<open>
  The VM-exit controls of a guest CPU (\<^verbatim>\<open>vmm/guest/guest_cpu/guest_cpu_control.c\<close>): requests for exits
  are counted per control bit, an exit is enabled while at least one request is outstanding, and the
  value written to the VMCS is completed by what the processor and the VMM always need.  The guest CPU
  has one VMCS: code that adds a level-1 VMCS is not compiled, so that the levels of the
  \<^verbatim>\<open>..._layered\<close> functions are the same object.
\<close>

section \<open>State\<close>

abbreviation (input) CR0_CD :: "64 word" where "CR0_CD \<equiv> 0x40000000"
abbreviation (input) CR0_WP :: "64 word" where "CR0_WP \<equiv> 0x00010000"
abbreviation (input) CR4_PAE :: "64 word" where "CR4_PAE \<equiv> 0x00000020"
abbreviation (input) CR4_SMXE :: "64 word" where "CR4_SMXE \<equiv> 0x00004000"
abbreviation (input) CR4_OSXSAVE :: "64 word" where "CR4_OSXSAVE \<equiv> 0x00040000"
abbreviation (input) GCPU_CR0_VMM_CONTROLLED_BITS :: "64 word" where "GCPU_CR0_VMM_CONTROLLED_BITS \<equiv> 0"
abbreviation (input) GCPU_CR4_VMM_CONTROLLED_BITS :: "64 word" where
  "GCPU_CR4_VMM_CONTROLLED_BITS \<equiv> CR4_PAE OR CR4_SMXE"
abbreviation (input) EXCEPTION_BITMAP_PF :: nat where "EXCEPTION_BITMAP_PF \<equiv> 14"
abbreviation (input) IA32_MSR_SYSENTER_CS :: nat where "IA32_MSR_SYSENTER_CS \<equiv> 0x174"
abbreviation (input) IA32_MSR_SYSENTER_ESP :: nat where "IA32_MSR_SYSENTER_ESP \<equiv> 0x175"
abbreviation (input) IA32_MSR_SYSENTER_EIP :: nat where "IA32_MSR_SYSENTER_EIP \<equiv> 0x176"
abbreviation (input) IA32_MSR_PERF_GLOBAL_CTRL :: nat where "IA32_MSR_PERF_GLOBAL_CTRL \<equiv> 0x38F"

record field_counters =
  counters :: "8 word list"
  bit_field :: "64 word"
  minimal_1_settings :: "64 word"
  minimal_0_settings :: "64 word"

record vmexit_controls =
  cr0 :: field_counters
  cr4 :: field_counters
  pin_ctrls :: field_counters
  processor_ctrls :: field_counters
  processor_ctrls2 :: field_counters
  exceptions_ctrls :: field_counters
  vm_entry_ctrls :: field_counters
  vm_exit_ctrls :: field_counters
  setup_lock :: bool

text \<open>What the processor and the policies of the VMM are.\<close>

record platform =
  constraints :: vmx_constraints
  fixed :: vmx_fixed
  rdtscp_supported :: bool
  invpcid_supported :: bool
  cr4_osxsave_supported :: bool
  cache_dis_virtualized :: bool
  pg_policy_ept :: bool
  read_msr :: "nat \<Rightarrow> 64 word"

text \<open>
  A guest CPU with its VMCS.  The globals \<^verbatim>\<open>g_init_done\<close> and \<^verbatim>\<open>g_processor_ctrls2_supported\<close> of the
  file are part of the state.
\<close>

record guest_cpu = vmcs_object +
  plat :: platform
  g_init_done :: bool
  g_processor_ctrls2_supported :: bool
  save_area_gp :: "64 word list"
  state_flags :: "8 word"
  vmexit_setup :: vmexit_controls
  num_blocked_nmi_injections_to_guest :: "64 word"

datatype exceptions_policy_type = EXCEPTIONS_POLICY_CATCH_NOTHING | EXCEPTIONS_POLICY_CATCH_ALL

datatype gcpu_temp_exceptions =
    GCPU_TEMP_EXCEPTIONS_EXIT_ON_ALL | GCPU_TEMP_EXCEPTIONS_RESTORE_ALL
  | GCPU_TEMP_EXIT_ON_PF_AND_CR3 | GCPU_TEMP_RESTORE_PF_AND_CR3
  | GCPU_TEMP_CR0_NO_EXIT_ON_WP | GCPU_TEMP_CR0_RESTORE_WP
  | GCPU_TEMP_EXIT_ON_INTR_UNBLOCK | GCPU_TEMP_NO_EXIT_ON_INTR_UNBLOCK

section \<open>Minimal settings\<close>

definition GET_FIXED_MASK :: "('w::len word \<Rightarrow> 'w word) \<Rightarrow> 'w word" where
  "GET_FIXED_MASK func = func 0 OR NOT (func (- 1))"

definition MAY_BE_SET1 :: "32 word \<Rightarrow> 32 word \<Rightarrow> nat \<Rightarrow> bool" where
  "MAY_BE_SET1 fixed_mask ctrl b \<longleftrightarrow> \<not> bit fixed_mask b \<or> bit ctrl b"

text \<open>\<^verbatim>\<open>VMM_ASSERT(MAY_BE_SET1(...)); ctrl.Bits.b = 1;\<close> and \<^verbatim>\<open>if (MAY_BE_SET1(...)) ctrl.Bits.b = 1;\<close>\<close>

definition must_set :: "bool \<Rightarrow> 32 word \<Rightarrow> nat \<Rightarrow> 32 word \<Rightarrow> 32 word option" where
  "must_set chk fixed_mask b ctrl = do {
     vmm_assert chk (MAY_BE_SET1 fixed_mask ctrl b);
     Some (set_bit b ctrl)
   }"

definition try_set :: "32 word \<Rightarrow> nat \<Rightarrow> 32 word \<Rightarrow> 32 word" where
  "try_set fixed_mask b ctrl = (if MAY_BE_SET1 fixed_mask ctrl b then set_bit b ctrl else ctrl)"

definition set_minimal_cr0_reg_mask :: "platform \<Rightarrow> field_counters \<Rightarrow> field_counters" where
  "set_minimal_cr0_reg_mask p field = (
     let fixed_mask = GET_FIXED_MASK (vmcs_hw_make_compliant_cr0 (fixed p));
         min1 = fixed_mask OR GCPU_CR0_VMM_CONTROLLED_BITS
     in field \<lparr> minimal_1_settings := (if cache_dis_virtualized p then min1 OR CR0_CD else min1),
                minimal_0_settings := - 1 \<rparr>)"

definition set_minimal_cr4_reg_mask :: "platform \<Rightarrow> field_counters \<Rightarrow> field_counters" where
  "set_minimal_cr4_reg_mask p field = (
     let fixed_mask = GET_FIXED_MASK (vmcs_hw_make_compliant_cr4 (fixed p));
         min1 = (if unrestricted_guest_supported (constraints p) then fixed_mask OR CR4_SMXE
                 else fixed_mask OR GCPU_CR4_VMM_CONTROLLED_BITS)
     in field \<lparr> minimal_1_settings := (if cr4_osxsave_supported p then min1 OR CR4_OSXSAVE else min1),
                minimal_0_settings := - 1 \<rparr>)"

definition set_minimal_pin_ctrls :: "bool \<Rightarrow> platform \<Rightarrow> field_counters \<Rightarrow> field_counters option" where
  "set_minimal_pin_ctrls chk p field = do {
     let func = vmcs_hw_make_compliant_pin_based_exec_ctrl (fixed p);
     let pin_ctrl_fixed = GET_FIXED_MASK func;
     let pin_ctrl = func 0;
     vmm_assert chk (\<not> bit pin_ctrl PIN_ExternalInterrupt);
     pin_ctrl \<leftarrow> must_set chk pin_ctrl_fixed PIN_Nmi pin_ctrl;
     pin_ctrl \<leftarrow> must_set chk pin_ctrl_fixed PIN_VirtualNmi pin_ctrl;
     Some (field \<lparr> minimal_1_settings := ucast pin_ctrl, minimal_0_settings := ucast (func (- 1)) \<rparr>)
   }"

text \<open>The controls that have to be off by default.\<close>

definition proc_ctrls_off :: "nat list" where
  "proc_ctrls_off =
     [PROC_UseTscOffsetting, PROC_Hlt, PROC_Invlpg, PROC_Mwait, PROC_Rdpmc, PROC_Rdtsc, PROC_Cr8Load,
      PROC_Cr8Store, PROC_TprShadow, PROC_MovDr, PROC_UnconditionalIo, PROC_ActivateIoBitmaps,
      PROC_Monitor, PROC_Pause]"

definition set_minimal_processor_ctrls ::
    "bool \<Rightarrow> bool \<Rightarrow> platform \<Rightarrow> field_counters \<Rightarrow> field_counters option" where
  "set_minimal_processor_ctrls chk ctrls2_supported p field = do {
     let func = vmcs_hw_make_compliant_processor_based_exec_ctrl (fixed p);
     let proc_ctrl_fixed = GET_FIXED_MASK func;
     let proc_ctrl = func 0;
     vmm_assert chk (list_all (\<lambda>b. \<not> bit proc_ctrl b) proc_ctrls_off);
     let proc_ctrl = (if pg_policy_ept p then unset_bit PROC_Cr3Store (unset_bit PROC_Cr3Load proc_ctrl)
                      else proc_ctrl);
     vmm_assert chk (ctrls2_supported = MAY_BE_SET1 proc_ctrl_fixed proc_ctrl PROC_SecondaryControls);
     let proc_ctrl = (if ctrls2_supported then set_bit PROC_SecondaryControls proc_ctrl else proc_ctrl);
     Some (field \<lparr> minimal_1_settings := ucast proc_ctrl, minimal_0_settings := ucast (func (- 1)) \<rparr>)
   }"

definition set_minimal_processor_ctrls2 :: "bool \<Rightarrow> platform \<Rightarrow> field_counters \<Rightarrow> field_counters" where
  "set_minimal_processor_ctrls2 ctrls2_supported p field =
     (if \<not> ctrls2_supported then field
      else let func = vmcs_hw_make_compliant_processor_based_exec_ctrl2 (fixed p);
             proc_ctrl2 = func 0;
             proc_ctrl2 = (if \<not> bit proc_ctrl2 PROC2_EnableRDTSCP \<and> rdtscp_supported p
                           then set_bit PROC2_EnableRDTSCP proc_ctrl2 else proc_ctrl2);
             proc_ctrl2 = (if \<not> bit proc_ctrl2 PROC2_EnableINVPCID \<and> invpcid_supported p
                           then set_bit PROC2_EnableINVPCID proc_ctrl2 else proc_ctrl2)
           in field \<lparr> minimal_1_settings := ucast proc_ctrl2, minimal_0_settings := ucast (func (- 1)) \<rparr>)"

definition set_minimal_exceptions_map :: "field_counters \<Rightarrow> field_counters" where
  "set_minimal_exceptions_map field = field \<lparr> minimal_1_settings := 0, minimal_0_settings := - 1 \<rparr>"

definition set_minimal_exit_ctrls :: "bool \<Rightarrow> platform \<Rightarrow> field_counters \<Rightarrow> field_counters option" where
  "set_minimal_exit_ctrls chk p field = do {
     let func = vmcs_hw_make_compliant_vm_exit_ctrl (fixed p);
     let ctrl_fixed = GET_FIXED_MASK func;
     let ctrl = func 0;
     vmm_assert chk (\<not> bit ctrl EXIT_AcknowledgeInterruptOnExit);
     ctrl \<leftarrow> must_set chk ctrl_fixed EXIT_SaveCr0AndCr4 ctrl;
     ctrl \<leftarrow> must_set chk ctrl_fixed EXIT_SaveCr3 ctrl;
     let ctrl = try_set ctrl_fixed EXIT_SaveDebugControls ctrl;
     ctrl \<leftarrow> must_set chk ctrl_fixed EXIT_SaveSegmentRegisters ctrl;
     ctrl \<leftarrow> must_set chk ctrl_fixed EXIT_SaveEspEipEflags ctrl;
     ctrl \<leftarrow> must_set chk ctrl_fixed EXIT_SavePendingDebugExceptions ctrl;
     ctrl \<leftarrow> must_set chk ctrl_fixed EXIT_SaveInterruptibilityInformation ctrl;
     ctrl \<leftarrow> must_set chk ctrl_fixed EXIT_SaveActivityState ctrl;
     ctrl \<leftarrow> must_set chk ctrl_fixed EXIT_SaveWorkingVmcsPointer ctrl;
     ctrl \<leftarrow> must_set chk ctrl_fixed EXIT_LoadCr0AndCr4 ctrl;
     ctrl \<leftarrow> must_set chk ctrl_fixed EXIT_LoadCr3 ctrl;
     ctrl \<leftarrow> must_set chk ctrl_fixed EXIT_LoadSegmentRegisters ctrl;
     ctrl \<leftarrow> must_set chk ctrl_fixed EXIT_LoadEspEip ctrl;
     ctrl \<leftarrow> must_set chk ctrl_fixed EXIT_LoadEspEip ctrl;
     vmm_assert chk (MAY_BE_SET1 ctrl_fixed ctrl EXIT_SaveSysEnterMsrs);
     vmm_assert chk (MAY_BE_SET1 ctrl_fixed ctrl EXIT_LoadSysEnterMsrs);
     let ctrl = try_set ctrl_fixed EXIT_SaveEfer ctrl;
     let ctrl = try_set ctrl_fixed EXIT_LoadEfer ctrl;
     let ctrl = try_set ctrl_fixed EXIT_Load_IA32_PERF_GLOBAL_CTRL ctrl;
     let ctrl = try_set ctrl_fixed EXIT_SavePat ctrl;
     let ctrl = try_set ctrl_fixed EXIT_LoadPat ctrl;
     Some (field \<lparr> minimal_1_settings := ucast ctrl, minimal_0_settings := ucast (func (- 1)) \<rparr>)
   }"

definition set_minimal_entry_ctrls :: "bool \<Rightarrow> platform \<Rightarrow> field_counters \<Rightarrow> field_counters option" where
  "set_minimal_entry_ctrls chk p field = do {
     let func = vmcs_hw_make_compliant_vm_entry_ctrl (fixed p);
     let ctrl_fixed = GET_FIXED_MASK func;
     let ctrl = func 0;
     vmm_assert chk (\<not> bit ctrl ENTRY_EntryToSmm);
     vmm_assert chk (\<not> bit ctrl ENTRY_TearDownSmmMonitor);
     ctrl \<leftarrow> must_set chk ctrl_fixed ENTRY_LoadCr0AndCr4 ctrl;
     ctrl \<leftarrow> must_set chk ctrl_fixed ENTRY_LoadCr3 ctrl;
     let ctrl = try_set ctrl_fixed ENTRY_LoadDebugControls ctrl;
     ctrl \<leftarrow> must_set chk ctrl_fixed ENTRY_LoadSegmentRegisters ctrl;
     ctrl \<leftarrow> must_set chk ctrl_fixed ENTRY_LoadEspEipEflags ctrl;
     ctrl \<leftarrow> must_set chk ctrl_fixed ENTRY_LoadPendingDebugExceptions ctrl;
     ctrl \<leftarrow> must_set chk ctrl_fixed ENTRY_LoadInterruptibilityInformation ctrl;
     ctrl \<leftarrow> must_set chk ctrl_fixed ENTRY_LoadActivityState ctrl;
     ctrl \<leftarrow> must_set chk ctrl_fixed ENTRY_LoadWorkingVmcsPointer ctrl;
     vmm_assert chk (MAY_BE_SET1 ctrl_fixed ctrl ENTRY_LoadSysEnterMsrs);
     let ctrl = try_set ctrl_fixed ENTRY_LoadEfer ctrl;
     let ctrl = try_set ctrl_fixed ENTRY_LoadPat ctrl;
     Some (field \<lparr> minimal_1_settings := ucast ctrl, minimal_0_settings := ucast (func (- 1)) \<rparr>)
   }"

definition init_minimal_controls :: "bool \<Rightarrow> 'a guest_cpu_scheme \<Rightarrow> 'a guest_cpu_scheme option" where
  "init_minimal_controls chk s = do {
     let s = (if \<not> g_init_done s
              then s \<lparr> g_init_done := True,
                       g_processor_ctrls2_supported := processor_based_exec_ctrl2_supported (constraints (plat s)) \<rparr>
              else s);
     let v = vmexit_setup s;
     let ctrls2 = g_processor_ctrls2_supported s;
     pin \<leftarrow> set_minimal_pin_ctrls chk (plat s) (pin_ctrls v);
     proc \<leftarrow> set_minimal_processor_ctrls chk ctrls2 (plat s) (processor_ctrls v);
     entry \<leftarrow> set_minimal_entry_ctrls chk (plat s) (vm_entry_ctrls v);
     exit \<leftarrow> set_minimal_exit_ctrls chk (plat s) (vm_exit_ctrls v);
     Some (s \<lparr> vmexit_setup := v
       \<lparr> cr0 := set_minimal_cr0_reg_mask (plat s) (cr0 v),
         cr4 := set_minimal_cr4_reg_mask (plat s) (cr4 v),
         pin_ctrls := pin,
         processor_ctrls := proc,
         processor_ctrls2 := set_minimal_processor_ctrls2 ctrls2 (plat s) (processor_ctrls2 v),
         exceptions_ctrls := set_minimal_exceptions_map (exceptions_ctrls v),
         vm_entry_ctrls := entry,
         vm_exit_ctrls := exit \<rparr> \<rparr>)
   }"

section \<open>Counting requests\<close>

definition GET_FINAL_SETTINGS :: "field_counters \<Rightarrow> 64 word \<Rightarrow> 64 word" where
  "GET_FINAL_SETTINGS c final_mask = (final_mask OR minimal_1_settings c) AND minimal_0_settings c"

text \<open>The body of the loop: one request for bit \<open>idx\<close> is entered or taken back.\<close>

definition gcpu_count_bit :: "bool \<Rightarrow> 64 word \<Rightarrow> nat \<Rightarrow> field_counters \<Rightarrow> field_counters option" where
  "gcpu_count_bit chk flags idx c = do {
     vmm_assert chk (idx < 64);
     n \<leftarrow> arr_get (counters c) idx;
     if bit flags idx
     then do {
       let c = (if n = 0 then c \<lparr> bit_field := set_bit idx (bit_field c) \<rparr> else c);
       vmm_assert chk (n < 255);
       cs \<leftarrow> arr_set (counters c) idx (n + 1);
       Some (c \<lparr> counters := cs \<rparr>)
     }
     else do {
       vmm_assert chk (0 < n);
       cs \<leftarrow> arr_set (counters c) idx (n - 1);
       let c = c \<lparr> counters := cs \<rparr>;
       Some (if n - 1 = 0 then c \<lparr> bit_field := unset_bit idx (bit_field c) \<rparr> else c)
     }
   }"

definition gcpu_update_control_counters ::
    "bool \<Rightarrow> 64 word \<Rightarrow> 64 word \<Rightarrow> field_counters \<Rightarrow> (field_counters \<times> 64 word) option" where
  "gcpu_update_control_counters chk flags bits c = do {
     c' \<leftarrow> bitarray_scan (gcpu_count_bit chk flags) 0 bits c;
     Some (c', bit_field c')
   }"

text \<open>The common shape of the \<^verbatim>\<open>calculate_...\<close> functions, for 64-bit and for 32-bit fields.\<close>

definition calculate_64 ::
    "(vmexit_controls \<Rightarrow> field_counters) \<Rightarrow> ((field_counters \<Rightarrow> field_counters) \<Rightarrow> vmexit_controls \<Rightarrow> vmexit_controls) \<Rightarrow>
     bool \<Rightarrow> 64 word \<Rightarrow> 64 word \<Rightarrow> 'a guest_cpu_scheme \<Rightarrow> ('a guest_cpu_scheme \<times> 64 word) option" where
  "calculate_64 get put chk request bitmask s = do {
     (c, final_mask) \<leftarrow> gcpu_update_control_counters chk request bitmask (get (vmexit_setup s));
     Some (s \<lparr> vmexit_setup := put (\<lambda>_. c) (vmexit_setup s) \<rparr>, GET_FINAL_SETTINGS c final_mask)
   }"

definition calculate_32 ::
    "(vmexit_controls \<Rightarrow> field_counters) \<Rightarrow> ((field_counters \<Rightarrow> field_counters) \<Rightarrow> vmexit_controls \<Rightarrow> vmexit_controls) \<Rightarrow>
     bool \<Rightarrow> 32 word \<Rightarrow> 32 word \<Rightarrow> 'a guest_cpu_scheme \<Rightarrow> ('a guest_cpu_scheme \<times> 32 word) option" where
  "calculate_32 get put chk request bitmask s = do {
     (c, bits) \<leftarrow> gcpu_update_control_counters chk (ucast request) (ucast bitmask) (get (vmexit_setup s));
     let final_mask = (ucast bits :: 32 word);
     Some (s \<lparr> vmexit_setup := put (\<lambda>_. c) (vmexit_setup s) \<rparr>, ucast (GET_FINAL_SETTINGS c (ucast final_mask)))
   }"

definition calculate_cr0_reg_mask ::
    "bool \<Rightarrow> 64 word \<Rightarrow> 64 word \<Rightarrow> 'a guest_cpu_scheme \<Rightarrow> ('a guest_cpu_scheme \<times> 64 word) option" where
  "calculate_cr0_reg_mask = calculate_64 cr0 cr0_update"

definition calculate_cr4_reg_mask ::
    "bool \<Rightarrow> 64 word \<Rightarrow> 64 word \<Rightarrow> 'a guest_cpu_scheme \<Rightarrow> ('a guest_cpu_scheme \<times> 64 word) option" where
  "calculate_cr4_reg_mask = calculate_64 cr4 cr4_update"

definition calculate_pin_ctrls ::
    "bool \<Rightarrow> 32 word \<Rightarrow> 32 word \<Rightarrow> 'a guest_cpu_scheme \<Rightarrow> ('a guest_cpu_scheme \<times> 32 word) option" where
  "calculate_pin_ctrls = calculate_32 pin_ctrls pin_ctrls_update"

definition calculate_processor_ctrls ::
    "bool \<Rightarrow> 32 word \<Rightarrow> 32 word \<Rightarrow> 'a guest_cpu_scheme \<Rightarrow> ('a guest_cpu_scheme \<times> 32 word) option" where
  "calculate_processor_ctrls = calculate_32 processor_ctrls processor_ctrls_update"

definition calculate_processor_ctrls2 ::
    "bool \<Rightarrow> 32 word \<Rightarrow> 32 word \<Rightarrow> 'a guest_cpu_scheme \<Rightarrow> ('a guest_cpu_scheme \<times> 32 word) option" where
  "calculate_processor_ctrls2 chk request bitmask s = do {
     vmm_assert chk (g_processor_ctrls2_supported s);
     calculate_32 processor_ctrls2 processor_ctrls2_update chk request bitmask s
   }"

definition calculate_exceptions_map ::
    "bool \<Rightarrow> 32 word \<Rightarrow> 32 word \<Rightarrow> 'a guest_cpu_scheme \<Rightarrow>
     ('a guest_cpu_scheme \<times> 32 word \<times> exceptions_policy_type) option" where
  "calculate_exceptions_map chk request bitmask s = do {
     (s', v) \<leftarrow> calculate_32 exceptions_ctrls exceptions_ctrls_update chk request bitmask s;
     let exceptions = (ucast (bit_field (exceptions_ctrls (vmexit_setup s'))) :: 32 word);
     Some (s', v, if bit exceptions EXCEPTION_BITMAP_PF then EXCEPTIONS_POLICY_CATCH_ALL
                  else EXCEPTIONS_POLICY_CATCH_NOTHING)
   }"

definition calculate_exit_ctrls ::
    "bool \<Rightarrow> 32 word \<Rightarrow> 32 word \<Rightarrow> 'a guest_cpu_scheme \<Rightarrow> ('a guest_cpu_scheme \<times> 32 word) option" where
  "calculate_exit_ctrls = calculate_32 vm_exit_ctrls vm_exit_ctrls_update"

definition calculate_enter_ctrls ::
    "bool \<Rightarrow> 32 word \<Rightarrow> 32 word \<Rightarrow> 'a guest_cpu_scheme \<Rightarrow> ('a guest_cpu_scheme \<times> 32 word) option" where
  "calculate_enter_ctrls = calculate_32 vm_entry_ctrls vm_entry_ctrls_update"

section \<open>Writing the controls\<close>

text \<open>The common shape of the setters: the field is written if it has another value.\<close>

definition write_if_changed ::
    "bool \<Rightarrow> nat \<Rightarrow> 64 word \<Rightarrow> 'a guest_cpu_scheme \<Rightarrow> 'a guest_cpu_scheme option" where
  "write_if_changed chk f val s = do {
     (s', old) \<leftarrow> vmcs_read chk f s;
     if old \<noteq> val then vmcs_write chk f val s' else Some s'
   }"

definition gcpu_set_cr0_reg_mask_layered :: "bool \<Rightarrow> 64 word \<Rightarrow> 'a guest_cpu_scheme \<Rightarrow> 'a guest_cpu_scheme option" where
  "gcpu_set_cr0_reg_mask_layered chk = write_if_changed chk VMCS_CR0_MASK"

definition gcpu_get_cr0_reg_mask_layered ::
    "bool \<Rightarrow> 'a guest_cpu_scheme \<Rightarrow> ('a guest_cpu_scheme \<times> 64 word) option" where
  "gcpu_get_cr0_reg_mask_layered chk = vmcs_read chk VMCS_CR0_MASK"

definition gcpu_set_cr4_reg_mask_layered :: "bool \<Rightarrow> 64 word \<Rightarrow> 'a guest_cpu_scheme \<Rightarrow> 'a guest_cpu_scheme option" where
  "gcpu_set_cr4_reg_mask_layered chk = write_if_changed chk VMCS_CR4_MASK"

definition gcpu_get_cr4_reg_mask_layered ::
    "bool \<Rightarrow> 'a guest_cpu_scheme \<Rightarrow> ('a guest_cpu_scheme \<times> 64 word) option" where
  "gcpu_get_cr4_reg_mask_layered chk = vmcs_read chk VMCS_CR4_MASK"

definition gcpu_set_pin_ctrls_layered :: "bool \<Rightarrow> 64 word \<Rightarrow> 'a guest_cpu_scheme \<Rightarrow> 'a guest_cpu_scheme option" where
  "gcpu_set_pin_ctrls_layered chk = write_if_changed chk VMCS_CONTROL_VECTOR_PIN_EVENTS"

definition gcpu_get_pin_ctrls_layered ::
    "bool \<Rightarrow> 'a guest_cpu_scheme \<Rightarrow> ('a guest_cpu_scheme \<times> 64 word) option" where
  "gcpu_get_pin_ctrls_layered chk = vmcs_read chk VMCS_CONTROL_VECTOR_PIN_EVENTS"

definition gcpu_set_processor_ctrls_layered ::
    "bool \<Rightarrow> 64 word \<Rightarrow> 'a guest_cpu_scheme \<Rightarrow> 'a guest_cpu_scheme option" where
  "gcpu_set_processor_ctrls_layered chk val s = do {
     (s', proc_control_temp) \<leftarrow> vmcs_read chk VMCS_CONTROL_VECTOR_PROCESSOR_EVENTS s;
     if proc_control_temp \<noteq> val
     then vmcs_write chk VMCS_CONTROL_VECTOR_PROCESSOR_EVENTS
            ((val AND NOT 0x8000000) OR (proc_control_temp AND 0x8000000)) s'
     else Some s'
   }"

definition gcpu_get_processor_ctrls_layered ::
    "bool \<Rightarrow> 'a guest_cpu_scheme \<Rightarrow> ('a guest_cpu_scheme \<times> 64 word) option" where
  "gcpu_get_processor_ctrls_layered chk = vmcs_read chk VMCS_CONTROL_VECTOR_PROCESSOR_EVENTS"

definition gcpu_set_processor_ctrls2_layered ::
    "bool \<Rightarrow> 64 word \<Rightarrow> 'a guest_cpu_scheme \<Rightarrow> 'a guest_cpu_scheme option" where
  "gcpu_set_processor_ctrls2_layered chk val s = do {
     vmm_assert chk (g_processor_ctrls2_supported s);
     write_if_changed chk VMCS_CONTROL2_VECTOR_PROCESSOR_EVENTS val s
   }"

definition gcpu_get_processor_ctrls2_layered ::
    "bool \<Rightarrow> 'a guest_cpu_scheme \<Rightarrow> ('a guest_cpu_scheme \<times> 64 word) option" where
  "gcpu_get_processor_ctrls2_layered chk s = do {
     vmm_assert chk (g_processor_ctrls2_supported s);
     vmcs_read chk VMCS_CONTROL2_VECTOR_PROCESSOR_EVENTS s
   }"

definition gcpu_set_exceptions_map_layered :: "bool \<Rightarrow> 64 word \<Rightarrow> 'a guest_cpu_scheme \<Rightarrow> 'a guest_cpu_scheme option" where
  "gcpu_set_exceptions_map_layered chk = write_if_changed chk VMCS_EXCEPTION_BITMAP"

definition gcpu_get_exceptions_map_layered ::
    "bool \<Rightarrow> 'a guest_cpu_scheme \<Rightarrow> ('a guest_cpu_scheme \<times> 64 word) option" where
  "gcpu_get_exceptions_map_layered chk = vmcs_read chk VMCS_EXCEPTION_BITMAP"

definition gcpu_get_pf_error_code_mask_and_match_layered ::
    "bool \<Rightarrow> 'a guest_cpu_scheme \<Rightarrow> ('a guest_cpu_scheme \<times> 32 word \<times> 32 word) option" where
  "gcpu_get_pf_error_code_mask_and_match_layered chk s = do {
     (s1, pf_mask) \<leftarrow> vmcs_read chk VMCS_PAGE_FAULT_ERROR_CODE_MASK s;
     (s2, pf_match) \<leftarrow> vmcs_read chk VMCS_PAGE_FAULT_ERROR_CODE_MATCH s1;
     Some (s2, ucast pf_mask, ucast pf_match)
   }"

definition gcpu_set_pf_error_code_mask_and_match_layered ::
    "bool \<Rightarrow> 32 word \<Rightarrow> 32 word \<Rightarrow> 'a guest_cpu_scheme \<Rightarrow> 'a guest_cpu_scheme option" where
  "gcpu_set_pf_error_code_mask_and_match_layered chk pf_mask pf_match s = do {
     s1 \<leftarrow> vmcs_write chk VMCS_PAGE_FAULT_ERROR_CODE_MASK (ucast pf_mask) s;
     vmcs_write chk VMCS_PAGE_FAULT_ERROR_CODE_MATCH (ucast pf_match) s1
   }"

definition gcpu_set_exit_ctrls_layered :: "bool \<Rightarrow> 32 word \<Rightarrow> 'a guest_cpu_scheme \<Rightarrow> 'a guest_cpu_scheme option" where
  "gcpu_set_exit_ctrls_layered chk val = write_if_changed chk VMCS_EXIT_CONTROL_VECTOR (ucast val)"

definition gcpu_get_exit_ctrls_layered ::
    "bool \<Rightarrow> 'a guest_cpu_scheme \<Rightarrow> ('a guest_cpu_scheme \<times> 32 word) option" where
  "gcpu_get_exit_ctrls_layered chk s = do {
     (s', v) \<leftarrow> vmcs_read chk VMCS_EXIT_CONTROL_VECTOR s;
     Some (s', ucast v)
   }"

definition gcpu_set_enter_ctrls_layered :: "bool \<Rightarrow> 32 word \<Rightarrow> 'a guest_cpu_scheme \<Rightarrow> 'a guest_cpu_scheme option" where
  "gcpu_set_enter_ctrls_layered chk val = write_if_changed chk VMCS_ENTER_CONTROL_VECTOR (ucast val)"

text \<open>The complement of the untouched bits is a 32-bit value.\<close>

definition gcpu_set_enter_ctrls_for_addons ::
    "bool \<Rightarrow> 32 word \<Rightarrow> 32 word \<Rightarrow> 'a guest_cpu_scheme \<Rightarrow> 'a guest_cpu_scheme option" where
  "gcpu_set_enter_ctrls_for_addons chk val bits_untouched =
     vmcs_update chk VMCS_ENTER_CONTROL_VECTOR (ucast val) (ucast (NOT bits_untouched))"

definition gcpu_get_enter_ctrls_layered ::
    "bool \<Rightarrow> 'a guest_cpu_scheme \<Rightarrow> ('a guest_cpu_scheme \<times> 32 word) option" where
  "gcpu_get_enter_ctrls_layered chk s = do {
     (s', v) \<leftarrow> vmcs_read chk VMCS_ENTER_CONTROL_VECTOR s;
     Some (s', ucast v)
   }"

section \<open>Requests\<close>

definition request_vmexit_on_cr0 :: "bool \<Rightarrow> 64 word \<Rightarrow> 64 word \<Rightarrow> 'a guest_cpu_scheme \<Rightarrow> 'a guest_cpu_scheme option" where
  "request_vmexit_on_cr0 chk bit_request bit_mask s = do {
     (s, cr0_mask) \<leftarrow> calculate_cr0_reg_mask chk bit_request bit_mask s;
     s \<leftarrow> gcpu_set_cr0_reg_mask_layered chk cr0_mask s;
     (s, cr0_value) \<leftarrow> vmcs_read chk VMCS_GUEST_CR0 s;
     (s, cr0_read_shadow_value) \<leftarrow> vmcs_read chk VMCS_CR0_READ_SHADOW s;
     let cr0_mask = cr0_mask AND NOT (minimal_1_settings (cr0 (vmexit_setup s)));
     vmcs_write chk VMCS_CR0_READ_SHADOW ((cr0_read_shadow_value AND NOT cr0_mask) OR (cr0_value AND cr0_mask)) s
   }"

definition request_vmexit_on_cr4 :: "bool \<Rightarrow> 64 word \<Rightarrow> 64 word \<Rightarrow> 'a guest_cpu_scheme \<Rightarrow> 'a guest_cpu_scheme option" where
  "request_vmexit_on_cr4 chk bit_request bit_mask s = do {
     (s, cr4_mask) \<leftarrow> calculate_cr4_reg_mask chk bit_request bit_mask s;
     s \<leftarrow> gcpu_set_cr4_reg_mask_layered chk cr4_mask s;
     (s, cr4_value) \<leftarrow> vmcs_read chk VMCS_GUEST_CR4 s;
     (s, cr4_read_shadow_value) \<leftarrow> vmcs_read chk VMCS_CR4_READ_SHADOW s;
     let cr4_mask = cr4_mask AND NOT (minimal_1_settings (cr4 (vmexit_setup s)));
     vmcs_write chk VMCS_CR4_READ_SHADOW ((cr4_read_shadow_value AND NOT cr4_mask) OR (cr4_value AND cr4_mask)) s
   }"

definition update_pfs_setup :: "bool \<Rightarrow> exceptions_policy_type \<Rightarrow> 'a guest_cpu_scheme \<Rightarrow> 'a guest_cpu_scheme option" where
  "update_pfs_setup chk policy s = do {
     (s, v) \<leftarrow> gcpu_get_exceptions_map_layered chk s;
     let exceptions = (ucast v :: 32 word);
     case policy of
       EXCEPTIONS_POLICY_CATCH_NOTHING \<Rightarrow> gcpu_set_pf_error_code_mask_and_match_layered chk 0
         (if bit exceptions EXCEPTION_BITMAP_PF then - 1 else 0) s
     | EXCEPTIONS_POLICY_CATCH_ALL \<Rightarrow> gcpu_set_pf_error_code_mask_and_match_layered chk 0
         (if bit exceptions EXCEPTION_BITMAP_PF then 0 else - 1) s
   }"

definition request_vmexit_on_exceptions :: "bool \<Rightarrow> 32 word \<Rightarrow> 32 word \<Rightarrow> 'a guest_cpu_scheme \<Rightarrow> 'a guest_cpu_scheme option" where
  "request_vmexit_on_exceptions chk bit_request bit_mask s = do {
     (s, except_map, pf_policy) \<leftarrow> calculate_exceptions_map chk bit_request bit_mask s;
     s \<leftarrow> gcpu_set_exceptions_map_layered chk (ucast except_map) s;
     update_pfs_setup chk pf_policy s
   }"

definition request_vmexit_on_pin_ctrls :: "bool \<Rightarrow> 32 word \<Rightarrow> 32 word \<Rightarrow> 'a guest_cpu_scheme \<Rightarrow> 'a guest_cpu_scheme option" where
  "request_vmexit_on_pin_ctrls chk bit_request bit_mask s = do {
     (s, pin) \<leftarrow> calculate_pin_ctrls chk bit_request bit_mask s;
     gcpu_set_pin_ctrls_layered chk (ucast pin) s
   }"

definition request_vmexit_on_proc_ctrls :: "bool \<Rightarrow> 32 word \<Rightarrow> 32 word \<Rightarrow> 'a guest_cpu_scheme \<Rightarrow> 'a guest_cpu_scheme option" where
  "request_vmexit_on_proc_ctrls chk bit_request bit_mask s = do {
     (s, proc_ctrls) \<leftarrow> calculate_processor_ctrls chk bit_request bit_mask s;
     gcpu_set_processor_ctrls_layered chk (ucast proc_ctrls) s
   }"

definition request_vmexit_on_proc_ctrls2 :: "bool \<Rightarrow> 32 word \<Rightarrow> 32 word \<Rightarrow> 'a guest_cpu_scheme \<Rightarrow> 'a guest_cpu_scheme option" where
  "request_vmexit_on_proc_ctrls2 chk bit_request bit_mask s =
     (if g_processor_ctrls2_supported s
      then do {
        (s, proc_ctrls2) \<leftarrow> calculate_processor_ctrls2 chk bit_request bit_mask s;
        gcpu_set_processor_ctrls2_layered chk (ucast proc_ctrls2) s
      }
      else Some s)"

definition request_vmexit_on_vm_enter_ctrls :: "bool \<Rightarrow> 32 word \<Rightarrow> 32 word \<Rightarrow> 'a guest_cpu_scheme \<Rightarrow> 'a guest_cpu_scheme option" where
  "request_vmexit_on_vm_enter_ctrls chk bit_request bit_mask s = do {
     let dont_touch = set_bit ENTRY_Ia32eModeGuest 0;
     (s, vm_enter_ctrls) \<leftarrow> calculate_enter_ctrls chk bit_request bit_mask s;
     gcpu_set_enter_ctrls_for_addons chk vm_enter_ctrls dont_touch s
   }"

definition request_vmexit_on_vm_exit_ctrls :: "bool \<Rightarrow> 32 word \<Rightarrow> 32 word \<Rightarrow> 'a guest_cpu_scheme \<Rightarrow> 'a guest_cpu_scheme option" where
  "request_vmexit_on_vm_exit_ctrls chk bit_request bit_mask s = do {
     (s, exit_ctrls) \<leftarrow> calculate_exit_ctrls chk bit_request bit_mask s;
     gcpu_set_exit_ctrls_layered chk exit_ctrls s
   }"

definition gcpu_apply_ctrols2 :: "bool \<Rightarrow> 'a guest_cpu_scheme \<Rightarrow> 'a guest_cpu_scheme option" where
  "gcpu_apply_ctrols2 chk = request_vmexit_on_proc_ctrls2 chk 0 0"

definition gcpu_apply_all :: "bool \<Rightarrow> 'a guest_cpu_scheme \<Rightarrow> 'a guest_cpu_scheme option" where
  "gcpu_apply_all chk s = do {
     s \<leftarrow> request_vmexit_on_pin_ctrls chk 0 0 s;
     s \<leftarrow> request_vmexit_on_proc_ctrls chk 0 0 s;
     s \<leftarrow> request_vmexit_on_proc_ctrls2 chk 0 0 s;
     s \<leftarrow> request_vmexit_on_exceptions chk 0 0 s;
     s \<leftarrow> request_vmexit_on_vm_exit_ctrls chk 0 0 s;
     s \<leftarrow> request_vmexit_on_vm_enter_ctrls chk 0 0 s;
     s \<leftarrow> request_vmexit_on_cr0 chk 0 0 s;
     request_vmexit_on_cr4 chk 0 0 s
   }"

text \<open>The loop that disables the CR3 target values.\<close>

primrec write_cr3_targets :: "bool \<Rightarrow> nat \<Rightarrow> nat \<Rightarrow> 'a guest_cpu_scheme \<Rightarrow> 'a guest_cpu_scheme option" where
  "write_cr3_targets chk idx 0 s = Some s"
| "write_cr3_targets chk idx (Suc left) s = do {
     s \<leftarrow> vmcs_write chk (VMCS_CR3_TARGET_VALUE_0 + idx) (- 1) s;
     write_cr3_targets chk (Suc idx) left s
   }"

definition gcpu_minimal_controls :: "bool \<Rightarrow> 'a guest_cpu_scheme \<Rightarrow> 'a guest_cpu_scheme option" where
  "gcpu_minimal_controls chk s = do {
     s \<leftarrow> init_minimal_controls chk s;
     s \<leftarrow> gcpu_apply_all chk s;
     s \<leftarrow> vmcs_write chk VMCS_CR3_TARGET_COUNT 0 s;
     s \<leftarrow> write_cr3_targets chk 0 (number_of_cr3_target_values (constraints (plat s))) s;
     s \<leftarrow> vmcs_write chk VMCS_GUEST_WORKING_VMCS_PTR (- 1) s;
     s \<leftarrow> vmcs_write chk VMCS_GUEST_SYSENTER_CS (read_msr (plat s) IA32_MSR_SYSENTER_CS) s;
     s \<leftarrow> vmcs_write chk VMCS_GUEST_SYSENTER_ESP (read_msr (plat s) IA32_MSR_SYSENTER_ESP) s;
     s \<leftarrow> vmcs_write chk VMCS_GUEST_SYSENTER_EIP (read_msr (plat s) IA32_MSR_SYSENTER_EIP) s;
     vmcs_write chk VMCS_GUEST_IA32_PERF_GLOBAL_CTRL (read_msr (plat s) IA32_MSR_PERF_GLOBAL_CTRL) s
   }"

text \<open>The prepared value \<^verbatim>\<open>proc_ctrl\<close> is not used by the code.\<close>

definition gcpu_temp_exceptions_setup ::
    "bool \<Rightarrow> gcpu_temp_exceptions \<Rightarrow> 'a guest_cpu_scheme \<Rightarrow> 'a guest_cpu_scheme option" where
  "gcpu_temp_exceptions_setup chk action s = do {
     vmm_assert chk False;
     case action of
       GCPU_TEMP_EXIT_ON_INTR_UNBLOCK \<Rightarrow> request_vmexit_on_proc_ctrls chk 0 0 s
     | GCPU_TEMP_NO_EXIT_ON_INTR_UNBLOCK \<Rightarrow> request_vmexit_on_proc_ctrls chk 0 0 s
     | _ \<Rightarrow> do { vmm_deadloop chk; Some s }
   }"

section \<open>Requests for several fields\<close>

record vmexit_control_field =
  bit_request :: "64 word"
  bit_mask :: "64 word"

record vmexit_control =
  req_cr0 :: vmexit_control_field
  req_cr4 :: vmexit_control_field
  req_exceptions :: vmexit_control_field
  req_pin_ctrls :: vmexit_control_field
  req_proc_ctrls :: vmexit_control_field
  req_proc_ctrls2 :: vmexit_control_field
  req_vm_enter_ctrls :: vmexit_control_field
  req_vm_exit_ctrls :: vmexit_control_field

definition setup_field :: "bool \<Rightarrow> vmexit_control_field \<Rightarrow> field_counters \<Rightarrow> field_counters option" where
  "setup_field chk r c =
     (if bit_mask r \<noteq> 0
      then do {
        (c', _) \<leftarrow> gcpu_update_control_counters chk (bit_request r) (bit_mask r) c;
        Some c'
      }
      else Some c)"

definition gcpu_control_setup_only :: "bool \<Rightarrow> vmexit_control \<Rightarrow> 'a guest_cpu_scheme \<Rightarrow> 'a guest_cpu_scheme option" where
  "gcpu_control_setup_only chk request s = do {
     let v = vmexit_setup s;
     l \<leftarrow> lock_acquire (setup_lock v);
     c0 \<leftarrow> setup_field chk (req_cr0 request) (cr0 v);
     c4 \<leftarrow> setup_field chk (req_cr4 request) (cr4 v);
     ex \<leftarrow> setup_field chk (req_exceptions request) (exceptions_ctrls v);
     pin \<leftarrow> setup_field chk (req_pin_ctrls request) (pin_ctrls v);
     proc \<leftarrow> setup_field chk (req_proc_ctrls request) (processor_ctrls v);
     vmm_assert chk (bit_mask (req_proc_ctrls2 request) \<noteq> 0 \<longrightarrow> g_processor_ctrls2_supported s);
     proc2 \<leftarrow> setup_field chk (req_proc_ctrls2 request) (processor_ctrls2 v);
     entry \<leftarrow> setup_field chk (req_vm_enter_ctrls request) (vm_entry_ctrls v);
     exit \<leftarrow> setup_field chk (req_vm_exit_ctrls request) (vm_exit_ctrls v);
     Some (s \<lparr> vmexit_setup := v \<lparr> cr0 := c0, cr4 := c4, exceptions_ctrls := ex, pin_ctrls := pin,
       processor_ctrls := proc, processor_ctrls2 := proc2, vm_entry_ctrls := entry, vm_exit_ctrls := exit,
       setup_lock := lock_release l \<rparr> \<rparr>)
   }"

text \<open>An operation under the lock of the controls.\<close>

definition with_setup_lock ::
    "('a guest_cpu_scheme \<Rightarrow> 'a guest_cpu_scheme option) \<Rightarrow> 'a guest_cpu_scheme \<Rightarrow> 'a guest_cpu_scheme option" where
  "with_setup_lock f s = do {
     l \<leftarrow> lock_acquire (setup_lock (vmexit_setup s));
     s' \<leftarrow> f (s \<lparr> vmexit_setup := (vmexit_setup s) \<lparr> setup_lock := l \<rparr> \<rparr>);
     Some (s' \<lparr> vmexit_setup := (vmexit_setup s') \<lparr> setup_lock := lock_release (setup_lock (vmexit_setup s')) \<rparr> \<rparr>)
   }"

definition gcpu_control_apply_only :: "bool \<Rightarrow> 'a guest_cpu_scheme \<Rightarrow> 'a guest_cpu_scheme option" where
  "gcpu_control_apply_only chk = with_setup_lock (gcpu_apply_all chk)"

definition gcpu_control2_apply_only :: "bool \<Rightarrow> 'a guest_cpu_scheme \<Rightarrow> 'a guest_cpu_scheme option" where
  "gcpu_control2_apply_only chk = with_setup_lock (gcpu_apply_ctrols2 chk)"

definition gcpu_cr3_virtualized :: "'a guest_cpu_scheme \<Rightarrow> bool" where
  "gcpu_cr3_virtualized s \<longleftrightarrow> (let proc_ctrl = (ucast (bit_field (processor_ctrls (vmexit_setup s))) :: 32 word)
     in bit proc_ctrl PROC_Cr3Store \<and> bit proc_ctrl PROC_Cr3Load)"

section \<open>Settings enforced for a while\<close>

definition APPLY_ZEROES_AND_ONES :: "'w::len word \<Rightarrow> 'w word \<Rightarrow> 'w word \<Rightarrow> 'w word" where
  "APPLY_ZEROES_AND_ONES v zeroes ones = (v OR ones) AND zeroes"

definition pf_policy :: "32 word \<Rightarrow> exceptions_policy_type" where
  "pf_policy exceptions = (if bit exceptions EXCEPTION_BITMAP_PF then EXCEPTIONS_POLICY_CATCH_ALL
                           else EXCEPTIONS_POLICY_CATCH_NOTHING)"

definition gcpu_exceptions_settings_enforce_on_hw ::
    "bool \<Rightarrow> 32 word \<Rightarrow> 32 word \<Rightarrow> 'a guest_cpu_scheme \<Rightarrow> 'a guest_cpu_scheme option" where
  "gcpu_exceptions_settings_enforce_on_hw chk zeroes ones s = do {
     (s, v) \<leftarrow> gcpu_get_exceptions_map_layered chk s;
     let exceptions = APPLY_ZEROES_AND_ONES (ucast v) zeroes ones;
     let exceptions = (ucast (GET_FINAL_SETTINGS (exceptions_ctrls (vmexit_setup s)) (ucast exceptions)) :: 32 word);
     s \<leftarrow> gcpu_set_exceptions_map_layered chk (ucast exceptions) s;
     update_pfs_setup chk (pf_policy exceptions) s
   }"

text \<open>There is no level-1 VMCS, so the settings are restored.\<close>

definition gcpu_exceptions_settings_restore_on_hw :: "bool \<Rightarrow> 'a guest_cpu_scheme \<Rightarrow> 'a guest_cpu_scheme option" where
  "gcpu_exceptions_settings_restore_on_hw chk s = do {
     let c = exceptions_ctrls (vmexit_setup s);
     let exceptions = (ucast (GET_FINAL_SETTINGS c (ucast (ucast (bit_field c) :: 32 word))) :: 32 word);
     s \<leftarrow> gcpu_set_exceptions_map_layered chk (ucast exceptions) s;
     update_pfs_setup chk (pf_policy exceptions) s
   }"

definition gcpu_proc_ctrls_enforce_on_hw ::
    "bool \<Rightarrow> 32 word \<Rightarrow> 32 word \<Rightarrow> 'a guest_cpu_scheme \<Rightarrow> 'a guest_cpu_scheme option" where
  "gcpu_proc_ctrls_enforce_on_hw chk zeroes ones s = do {
     (s, v) \<leftarrow> gcpu_get_processor_ctrls_layered chk s;
     let proc_ctrls = APPLY_ZEROES_AND_ONES (ucast v) zeroes ones;
     let proc_ctrls = (ucast (GET_FINAL_SETTINGS (processor_ctrls (vmexit_setup s)) (ucast proc_ctrls)) :: 32 word);
     gcpu_set_processor_ctrls_layered chk (ucast proc_ctrls) s
   }"

definition gcpu_proc_ctrls_restore_on_hw :: "bool \<Rightarrow> 'a guest_cpu_scheme \<Rightarrow> 'a guest_cpu_scheme option" where
  "gcpu_proc_ctrls_restore_on_hw chk s = do {
     let c = processor_ctrls (vmexit_setup s);
     let proc_ctrls = (ucast (GET_FINAL_SETTINGS c (ucast (ucast (bit_field c) :: 32 word))) :: 32 word);
     gcpu_set_processor_ctrls_layered chk (ucast proc_ctrls) s
   }"

definition gcpu_cr0_mask_enforce_on_hw ::
    "bool \<Rightarrow> 64 word \<Rightarrow> 64 word \<Rightarrow> 'a guest_cpu_scheme \<Rightarrow> 'a guest_cpu_scheme option" where
  "gcpu_cr0_mask_enforce_on_hw chk zeroes ones s = do {
     (s, cr0_mask) \<leftarrow> gcpu_get_cr0_reg_mask_layered chk s;
     let cr0_mask = APPLY_ZEROES_AND_ONES cr0_mask zeroes ones;
     gcpu_set_cr0_reg_mask_layered chk (GET_FINAL_SETTINGS (cr0 (vmexit_setup s)) cr0_mask) s
   }"

text \<open>\<^verbatim>\<open>~CR0_WP\<close> is a 32-bit value in the code: the upper half of the zeroes is sign-extended.\<close>

definition gcpu_enforce_settings_on_hardware ::
    "bool \<Rightarrow> gcpu_temp_exceptions \<Rightarrow> 'a guest_cpu_scheme \<Rightarrow> 'a guest_cpu_scheme option" where
  "gcpu_enforce_settings_on_hardware chk action s = (case action of
       GCPU_TEMP_EXCEPTIONS_EXIT_ON_ALL \<Rightarrow> gcpu_exceptions_settings_enforce_on_hw chk (- 1) (- 1) s
     | GCPU_TEMP_EXIT_ON_PF_AND_CR3 \<Rightarrow> do {
         s \<leftarrow> gcpu_exceptions_settings_enforce_on_hw chk (- 1) (set_bit EXCEPTION_BITMAP_PF 0) s;
         gcpu_proc_ctrls_enforce_on_hw chk (- 1) (set_bit PROC_Cr3Store (set_bit PROC_Cr3Load 0)) s
       }
     | GCPU_TEMP_EXCEPTIONS_RESTORE_ALL \<Rightarrow> gcpu_exceptions_settings_restore_on_hw chk s
     | GCPU_TEMP_RESTORE_PF_AND_CR3 \<Rightarrow> do {
         s \<leftarrow> gcpu_exceptions_settings_restore_on_hw chk s;
         gcpu_proc_ctrls_restore_on_hw chk s
       }
     | GCPU_TEMP_CR0_NO_EXIT_ON_WP \<Rightarrow> gcpu_cr0_mask_enforce_on_hw chk (NOT CR0_WP) 0 s
     | GCPU_TEMP_CR0_RESTORE_WP \<Rightarrow> gcpu_cr0_mask_enforce_on_hw chk (- 1) CR0_WP s
     | _ \<Rightarrow> do { vmm_deadloop chk; Some s })"

section \<open>Specification\<close>

text \<open>The bit field has a bit for each counter that is not zero.\<close>

definition field_ok :: "field_counters \<Rightarrow> bool" where
  "field_ok c \<longleftrightarrow> length (counters c) = 64 \<and> (\<forall>i < 64. bit (bit_field c) i \<longleftrightarrow> counters c ! i \<noteq> 0)"

text \<open>A request can be counted, and what the counter is then.\<close>

definition can_count :: "64 word \<Rightarrow> field_counters \<Rightarrow> nat \<Rightarrow> bool" where
  "can_count flags c i \<longleftrightarrow> (if bit flags i then counters c ! i \<noteq> 255 else counters c ! i \<noteq> 0)"

definition counted :: "64 word \<Rightarrow> field_counters \<Rightarrow> nat \<Rightarrow> 8 word" where
  "counted flags c i = (if bit flags i then counters c ! i + 1 else counters c ! i - 1)"

text \<open>Several requests, one after the other, and how many are outstanding for a bit.\<close>

primrec count_requests ::
    "bool \<Rightarrow> (64 word \<times> 64 word) list \<Rightarrow> field_counters \<Rightarrow> field_counters option" where
  "count_requests chk [] c = Some c"
| "count_requests chk (r # rs) c = do {
     (c', _) \<leftarrow> gcpu_update_control_counters chk (fst r) (snd r) c;
     count_requests chk rs c'
   }"

definition outstanding :: "nat \<Rightarrow> (64 word \<times> 64 word) list \<Rightarrow> int" where
  "outstanding i rs =
     (\<Sum>(flags, bits) \<leftarrow> rs. if bit bits i then if bit flags i then 1 else - 1 else 0)"

definition counters_are :: "(nat \<Rightarrow> int) \<Rightarrow> field_counters \<Rightarrow> bool" where
  "counters_are b c \<longleftrightarrow> field_ok c \<and> (\<forall>i < 64. uint (counters c ! i) = b i)"

definition in_range :: "int \<Rightarrow> bool" where
  "in_range n \<longleftrightarrow> 0 \<le> n \<and> n \<le> 255"

text \<open>
  A state whose VMCS is active and that differs from \<open>s\<close> in the cache of the VMCS only, with fields \<open>V\<close>.
\<close>

definition vmcs_becomes :: "'a guest_cpu_scheme \<Rightarrow> (nat \<Rightarrow> 64 word) \<Rightarrow> 'a guest_cpu_scheme \<Rightarrow> bool" where
  "vmcs_becomes s V s' \<longleftrightarrow> (\<exists>c. s' = s \<lparr> vmcs_cache := c \<rparr>) \<and> vmcs_active s' \<and> vmcs_view s' = V \<and>
     (vmcs_synced s \<longrightarrow> vmcs_synced s')"

text \<open>What holds of the result if there is one, and what the processor accepts in a field.\<close>

definition ensures :: "'x option \<Rightarrow> ('x \<Rightarrow> bool) \<Rightarrow> bool" where
  "ensures m P \<longleftrightarrow> (\<forall>r. m = Some r \<longrightarrow> P r)"

definition compliant :: "nat set \<Rightarrow> 32 word \<Rightarrow> 32 word \<Rightarrow> 32 word \<Rightarrow> bool" where
  "compliant E fixed_1 fixed_0 v \<longleftrightarrow> (\<forall>i. bit fixed_1 i \<and> i \<notin> E \<longrightarrow> bit v i) \<and> bits_below v fixed_0"

text \<open>The minimal settings of a field that \<open>func\<close> makes compliant, apart from the bits in \<open>E\<close>.\<close>

definition minimal_for :: "nat set \<Rightarrow> (32 word \<Rightarrow> 32 word) \<Rightarrow> field_counters \<Rightarrow> bool" where
  "minimal_for E func c \<longleftrightarrow> (\<exists>v :: 32 word. minimal_1_settings c = ucast v \<and>
     minimal_0_settings c = ucast (func (- 1)) \<and> (\<forall>i. bit (func 0) i \<and> i \<notin> E \<longrightarrow> bit v i))"

text \<open>A page fault with error code \<open>err\<close> leaves the guest, as the processor decides it.\<close>

definition page_fault_exits :: "'a vmcs_object_scheme \<Rightarrow> 64 word \<Rightarrow> bool" where
  "page_fault_exits s err \<longleftrightarrow>
     (bit (vmcs_view s VMCS_EXCEPTION_BITMAP) EXCEPTION_BITMAP_PF
      \<longleftrightarrow> err AND vmcs_view s VMCS_PAGE_FAULT_ERROR_CODE_MASK = vmcs_view s VMCS_PAGE_FAULT_ERROR_CODE_MATCH)"

text \<open>The bits of \<^verbatim>\<open>CR0\<close> and \<^verbatim>\<open>CR4\<close> that the guest reads.\<close>

definition guest_sees_cr0 :: "'a vmcs_object_scheme \<Rightarrow> nat \<Rightarrow> bool" where
  "guest_sees_cr0 s i \<longleftrightarrow> (if bit (vmcs_view s VMCS_CR0_MASK) i then bit (vmcs_view s VMCS_CR0_READ_SHADOW) i
                          else bit (vmcs_view s VMCS_GUEST_CR0) i)"

definition guest_sees_cr4 :: "'a vmcs_object_scheme \<Rightarrow> nat \<Rightarrow> bool" where
  "guest_sees_cr4 s i \<longleftrightarrow> (if bit (vmcs_view s VMCS_CR4_MASK) i then bit (vmcs_view s VMCS_CR4_READ_SHADOW) i
                          else bit (vmcs_view s VMCS_GUEST_CR4) i)"

text \<open>A control of a field is on: a request is outstanding or the VMM needs it, and it is allowed.\<close>

definition control_on :: "field_counters \<Rightarrow> (nat \<Rightarrow> int) \<Rightarrow> nat \<Rightarrow> bool" where
  "control_on c b i \<longleftrightarrow> (0 < b i \<or> bit (minimal_1_settings c) i) \<and> bit (minimal_0_settings c) i"

text \<open>Only the cache of the VMCS and the setup of the controls differ.\<close>

definition controls_frame :: "'a guest_cpu_scheme \<Rightarrow> 'a guest_cpu_scheme \<Rightarrow> bool" where
  "controls_frame s s' \<longleftrightarrow> (\<exists>c v. s' = s \<lparr> vmexit_setup := v, vmcs_cache := c \<rparr>)"

text \<open>A guest CPU without requests on a processor with common capabilities.\<close>

definition msr_example :: "nat \<Rightarrow> 64 word" where
  "msr_example i =
     (if i = IA32_MSR_VMCS_REVISION_IDENTIFIER_INDEX then 0x00DA040000000012
      else if i = IA32_MSR_PIN_BASED_VM_EXECUTION_CONTROLS_INDEX then 0x0000007F00000016
      else if i = IA32_MSR_PROCESSOR_BASED_VM_EXECUTION_CONTROLS_INDEX then 0xFFF9FFFE0401E172
      else if i = IA32_MSR_PROCESSOR_BASED_VM_EXECUTION_CONTROLS2_INDEX then 0x000010FF00000000
      else if i = IA32_MSR_VM_EXIT_CONTROLS_INDEX then 0x007FFFFF00036DFF
      else if i = IA32_MSR_VM_ENTRY_CONTROLS_INDEX then 0x0000FFFF000011FF
      else if i = IA32_MSR_CR0_ALLOWED_ZERO_INDEX then 0x80000021
      else if i = IA32_MSR_CR0_ALLOWED_ONE_INDEX then 0xFFFFFFFF
      else if i = IA32_MSR_CR4_ALLOWED_ZERO_INDEX then 0x2000
      else if i = IA32_MSR_CR4_ALLOWED_ONE_INDEX then 0x000627FF
      else 0)"

definition no_requests :: field_counters where
  "no_requests = \<lparr> counters = replicate 64 0, bit_field = 0, minimal_1_settings = 0, minimal_0_settings = - 1 \<rparr>"

definition gcpu_example :: guest_cpu where
  "gcpu_example = vmcs_object.extend vmcs_example (guest_cpu.fields
     \<lparr> constraints = fill_constraints msr_example, fixed = determine_fixed_values (fill_constraints msr_example),
       rdtscp_supported = True, invpcid_supported = True, cr4_osxsave_supported = True,
       cache_dis_virtualized = False, pg_policy_ept = True, read_msr = msr_example \<rparr>
     False False (replicate 18 0) 0
     \<lparr> cr0 = no_requests, cr4 = no_requests, pin_ctrls = no_requests, processor_ctrls = no_requests,
       processor_ctrls2 = no_requests, exceptions_ctrls = no_requests, vm_entry_ctrls = no_requests,
       vm_exit_ctrls = no_requests, setup_lock = False \<rparr> 0)"

section \<open>Counting\<close>

lemma gcpu_count_bit_ok:
  assumes "field_ok c" "i < 64" "can_count flags c i"
  shows "\<exists>c'. gcpu_count_bit chk flags i c = Some c' \<and> field_ok c' \<and>
    counters c' = (counters c)[i := counted flags c i] \<and>
    minimal_1_settings c' = minimal_1_settings c \<and> minimal_0_settings c' = minimal_0_settings c"
proof -
  have m: "(255 :: 8 word) = - 1" by simp
  have n: "(n :: 8 word) < 255 \<longleftrightarrow> n \<noteq> 255" for n
    using word_order.not_eq_extremum [of n] unfolding m by simp
  have p: "(0 :: 8 word) < n \<longleftrightarrow> n \<noteq> 0" for n by (rule word_neq_0_conv [symmetric])
  have z: "n + 1 \<noteq> 0 \<longleftrightarrow> n \<noteq> 255" for n :: "8 word"
    unfolding m by (simp add: add_eq_0_iff2)
  show ?thesis
    using assms
    by (auto simp: gcpu_count_bit_def field_ok_def can_count_def counted_def n p z nth_list_update bit_simps
          Let_def)
qed

lemma gcpu_count_bit_refused:
  assumes "field_ok c" "i < 64" "\<not> can_count flags c i"
  shows "gcpu_count_bit True flags i c = None"
  using assms by (auto simp: gcpu_count_bit_def field_ok_def can_count_def Let_def split: if_splits)

lemma fold_count_ok:
  "field_ok c \<Longrightarrow> distinct is \<Longrightarrow> \<forall>i \<in> set is. i < 64 \<and> can_count flags c i \<Longrightarrow>
   \<exists>c'. fold_opt (gcpu_count_bit chk flags) is c = Some c' \<and> field_ok c' \<and>
     (\<forall>i < 64. counters c' ! i = (if i \<in> set is then counted flags c i else counters c ! i)) \<and>
     minimal_1_settings c' = minimal_1_settings c \<and> minimal_0_settings c' = minimal_0_settings c"
proof (induction "is" arbitrary: c)
  case Nil
  then show ?case by simp
next
  case (Cons j js)
  obtain c1 where c1: "gcpu_count_bit chk flags j c = Some c1" "field_ok c1"
      "counters c1 = (counters c)[j := counted flags c j]"
      "minimal_1_settings c1 = minimal_1_settings c" "minimal_0_settings c1 = minimal_0_settings c"
    using gcpu_count_bit_ok [OF Cons.prems(1), of j flags chk] Cons.prems(3) by auto
  have other: "counters c1 ! i = counters c ! i" "counted flags c1 i = counted flags c i" if "i \<noteq> j" for i
    using that c1(3) by (simp_all add: counted_def)
  have "\<forall>i \<in> set js. i < 64 \<and> can_count flags c1 i"
    using Cons.prems(2,3) other(1) by (fastforce simp: can_count_def)
  from Cons.IH [OF c1(2) _ this] Cons.prems(2) obtain c2 where c2:
      "fold_opt (gcpu_count_bit chk flags) js c1 = Some c2" "field_ok c2"
      "\<forall>i < 64. counters c2 ! i = (if i \<in> set js then counted flags c1 i else counters c1 ! i)"
      "minimal_1_settings c2 = minimal_1_settings c1" "minimal_0_settings c2 = minimal_0_settings c1"
    by auto
  have len: "length (counters c) = 64" using Cons.prems(1) by (simp add: field_ok_def)
  have "counters c2 ! i = (if i \<in> set (j # js) then counted flags c i else counters c ! i)" if "i < 64" for i
    using c2(3) that other [of i] c1(3) len Cons.prems(2) by (cases "i = j") auto
  then show ?case using c1(1,4,5) c2(1,2,4,5) by auto
qed

lemma fold_count_refused:
  "field_ok c \<Longrightarrow> distinct is \<Longrightarrow> \<forall>i \<in> set is. i < 64 \<Longrightarrow> \<exists>i \<in> set is. \<not> can_count flags c i \<Longrightarrow>
   fold_opt (gcpu_count_bit True flags) is c = None"
proof (induction "is" arbitrary: c)
  case Nil
  then show ?case by simp
next
  case (Cons j js)
  show ?case
  proof (cases "can_count flags c j")
    case False
    then show ?thesis using gcpu_count_bit_refused [OF Cons.prems(1)] Cons.prems(3) by simp
  next
    case True
    obtain c1 where c1: "gcpu_count_bit True flags j c = Some c1" "field_ok c1"
        "counters c1 = (counters c)[j := counted flags c j]"
      using gcpu_count_bit_ok [OF Cons.prems(1) _ True, of True] Cons.prems(3) by auto
    have "can_count flags c1 i = can_count flags c i" if "i \<noteq> j" for i
      using that c1(3) by (simp add: can_count_def)
    moreover obtain i where "i \<in> set js" "\<not> can_count flags c i" using Cons.prems(4) True by auto
    ultimately have "\<exists>i \<in> set js. \<not> can_count flags c1 i" using Cons.prems(2) by (metis distinct.simps(2))
    then show ?thesis using Cons.IH [OF c1(2)] Cons.prems(2,3) c1(1) by simp
  qed
qed

lemma gcpu_update_control_counters_fold:
  "gcpu_update_control_counters chk flags bits c = do {
     c' \<leftarrow> fold_opt (gcpu_count_bit chk flags) (filter (bit bits) [0..<64]) c;
     Some (c', bit_field c')
   }"
  by (simp add: gcpu_update_control_counters_def bitarray_scan_fold map_idI)

lemma gcpu_update_control_counters_ok:
  assumes "field_ok c" "\<forall>i < 64. bit bits i \<longrightarrow> can_count flags c i"
  shows "\<exists>c'. gcpu_update_control_counters chk flags bits c = Some (c', bit_field c') \<and> field_ok c' \<and>
    (\<forall>i < 64. counters c' ! i = (if bit bits i then counted flags c i else counters c ! i)) \<and>
    minimal_1_settings c' = minimal_1_settings c \<and> minimal_0_settings c' = minimal_0_settings c"
proof -
  have "\<forall>i \<in> set (filter (bit bits) [0..<64]). i < 64 \<and> can_count flags c i" using assms(2) by simp
  from fold_count_ok [OF assms(1) _ this, of chk] show ?thesis
    by (auto simp: gcpu_update_control_counters_fold)
qed

lemma gcpu_update_control_counters_refused:
  assumes "field_ok c" "i < 64" "bit bits i" "\<not> can_count flags c i"
  shows "gcpu_update_control_counters True flags bits c = None"
proof -
  have "\<exists>i \<in> set (filter (bit bits) [0..<64]). \<not> can_count flags c i" using assms by auto
  moreover have "\<forall>i \<in> set (filter (bit bits) [0..<64]). i < 64" "distinct (filter (bit bits) [0..<64])" by simp_all
  ultimately have "fold_opt (gcpu_count_bit True flags) (filter (bit bits) [0..<64]) c = None"
    by (intro fold_count_refused assms(1))
  then show ?thesis by (simp only: gcpu_update_control_counters_fold Option.bind.simps)
qed

lemma gcpu_update_control_counters_none [simp]: "gcpu_update_control_counters chk flags 0 c = Some (c, bit_field c)"
  by (simp add: gcpu_update_control_counters_fold del: upt_rec_numeral)

lemma outstanding_simps [simp]:
  "outstanding i [] = 0"
  "outstanding i (r # rs) = (if bit (snd r) i then if bit (fst r) i then 1 else - 1 else 0) + outstanding i rs"
  by (simp_all add: outstanding_def split_beta)

lemma uint_byte: "0 \<le> uint n" "uint n < 256" for n :: "8 word"
proof -
  have "uint n < 2 ^ LENGTH(8)" by (rule unsigned_less)
  then show "uint n < 256" by simp
qed simp

lemma counters_range: "counters_are b c \<Longrightarrow> i < 64 \<Longrightarrow> in_range (b i)"
  using uint_byte [of "counters c ! i"] by (auto simp: counters_are_def in_range_def)

lemma can_count_iff:
  assumes "counters_are b c" "i < 64"
  shows "can_count flags c i \<longleftrightarrow> in_range (b i + (if bit flags i then 1 else - 1))"
    "can_count flags c i \<Longrightarrow> uint (counted flags c i) = b i + (if bit flags i then 1 else - 1)"
proof -
  let ?n = "counters c ! i"
  have b: "uint ?n = b i" using assms by (simp add: counters_are_def)
  have top: "?n = 255 \<longleftrightarrow> b i = 255" using b word_uint_eq_iff [of ?n 255] by auto
  have bot: "?n = 0 \<longleftrightarrow> b i = 0" using b word_uint_eq_iff [of ?n 0] by auto
  show "can_count flags c i \<longleftrightarrow> in_range (b i + (if bit flags i then 1 else - 1))"
    using top bot counters_range [OF assms] by (auto simp: can_count_def in_range_def)
  show "uint (counted flags c i) = b i + (if bit flags i then 1 else - 1)" if "can_count flags c i"
    using that top bot counters_range [OF assms]
    by (auto simp: can_count_def counted_def uint_word_ariths b in_range_def split: if_splits)
qed

lemma update_counters_are:
  assumes "counters_are b c" "\<forall>i < 64. in_range (b i + outstanding i [(flags, bits)])"
  shows "\<exists>c'. gcpu_update_control_counters chk flags bits c = Some (c', bit_field c') \<and>
    counters_are (\<lambda>i. b i + outstanding i [(flags, bits)]) c' \<and>
    minimal_1_settings c' = minimal_1_settings c \<and> minimal_0_settings c' = minimal_0_settings c"
proof -
  have "\<forall>i < 64. bit bits i \<longrightarrow> can_count flags c i"
    using assms(2) can_count_iff(1) [OF assms(1)] by (auto split: if_splits)
  moreover obtain c' where "gcpu_update_control_counters chk flags bits c = Some (c', bit_field c')" "field_ok c'"
      "\<forall>i < 64. counters c' ! i = (if bit bits i then counted flags c i else counters c ! i)"
      "minimal_1_settings c' = minimal_1_settings c" "minimal_0_settings c' = minimal_0_settings c"
    using gcpu_update_control_counters_ok [of c bits flags chk] calculation assms(1) by (auto simp: counters_are_def)
  ultimately show ?thesis
    using can_count_iff(2) [OF assms(1)] assms(1) by (auto simp: counters_are_def)
qed

lemma count_requests_ok:
  "counters_are b c \<Longrightarrow> \<forall>n. \<forall>i < 64. in_range (b i + outstanding i (take n rs)) \<Longrightarrow>
   \<exists>c'. count_requests chk rs c = Some c' \<and> counters_are (\<lambda>i. b i + outstanding i rs) c'"
proof (induction rs arbitrary: b c)
  case Nil
  then show ?case by simp
next
  case (Cons r rs)
  let ?b = "\<lambda>i. b i + outstanding i [r]"
  have "\<forall>i < 64. in_range (b i + outstanding i [(fst r, snd r)])"
    using Cons.prems(2) [THEN spec, of 1] by simp
  then obtain c1 where c1: "gcpu_update_control_counters chk (fst r) (snd r) c = Some (c1, bit_field c1)"
      "counters_are ?b c1"
    using update_counters_are [OF Cons.prems(1), of "fst r" "snd r" chk] by auto
  have "\<forall>n. \<forall>i < 64. in_range (?b i + outstanding i (take n rs))"
    using Cons.prems(2) [THEN spec, of "Suc _"] by (simp add: algebra_simps)
  from Cons.IH [OF c1(2) this] show ?case using c1(1) by (auto simp: algebra_simps)
qed

lemma count_requests_refused:
  "counters_are b c \<Longrightarrow> i < 64 \<Longrightarrow> \<not> in_range (b i + outstanding i (take n rs)) \<Longrightarrow> count_requests True rs c = None"
proof (induction rs arbitrary: b c n)
  case Nil
  then show ?case using counters_range [OF Nil(1,2)] by simp
next
  case (Cons r rs)
  obtain m where n: "n = Suc m" using Cons.prems counters_range [OF Cons.prems(1,2)] by (cases n) auto
  show ?case
  proof (cases "\<forall>i < 64. in_range (b i + outstanding i [(fst r, snd r)])")
    case True
    then obtain c1 where c1: "gcpu_update_control_counters True (fst r) (snd r) c = Some (c1, bit_field c1)"
        "counters_are (\<lambda>i. b i + outstanding i [(fst r, snd r)]) c1"
      using update_counters_are [OF Cons.prems(1)] by blast
    have "\<not> in_range (b i + outstanding i [(fst r, snd r)] + outstanding i (take m rs))"
      using Cons.prems(3) n by (simp add: algebra_simps)
    from Cons.IH [OF c1(2) Cons.prems(2) this] show ?thesis using c1(1) by simp
  next
    case False
    then obtain j where j: "j < 64" "\<not> in_range (b j + outstanding j [(fst r, snd r)])" by blast
    then have "bit (snd r) j" "\<not> can_count (fst r) c j"
      using can_count_iff(1) [OF Cons.prems(1) j(1), of "fst r"] counters_range [OF Cons.prems(1) j(1)]
      by (auto split: if_splits)
    with Cons.prems(1) j(1) show ?thesis
      using gcpu_update_control_counters_refused [of c j "snd r" "fst r"] by (simp add: counters_are_def)
  qed
qed

section \<open>Fields of an active VMCS\<close>

lemma active_access:
  assumes "vmcs_active s" "f < VMCS_FIELD_COUNT"
    "f \<notin> {VMCS_VPID, VMCS_EPTP_INDEX, VMCS_EXIT_INFO_GUEST_PHYSICAL_ADDRESS, VMCS_EPTP_ADDRESS,
          VMCS_PREEMPTION_TIMER, VMCS_GUEST_PAT, VMCS_GUEST_EFER, VMCS_GUEST_IA32_PERF_GLOBAL_CTRL,
          VMCS_GUEST_PDPTR0, VMCS_GUEST_PDPTR1, VMCS_GUEST_PDPTR2, VMCS_GUEST_PDPTR3, VMCS_HOST_PAT,
          VMCS_HOST_EFER, VMCS_HOST_IA32_PERF_GLOBAL_CTRL, VMCS_VE_INFO_ADDRESS}"
  shows "access (field_data s ! f) = access (g_field_data ! f)"
proof -
  obtain c where "field_data s = enable_vmcs_2_0_fields c g_field_data"
    using assms(1) by (auto simp: vmcs_active_def)
  then show ?thesis using enable_vmcs_2_0_fields_fixed [of f g_field_data c] assms(2,3) by simp
qed

lemma g_field_data_accesses:
  "map access g_field_data =
     [NO_EXIST, NO_EXIST] @ replicate 27 WRITABLE @ [NO_EXIST] @ replicate 4 READONLY @ [WRITABLE_IN_CACHE] @
     replicate 9 READONLY @ replicate 3 WRITABLE @ [NO_EXIST, NO_EXIST] @ replicate 52 WRITABLE @
     [NO_EXIST, WRITABLE] @ replicate 5 NO_EXIST @ replicate 20 WRITABLE @
     [NO_EXIST, WRITABLE, NO_EXIST] @ replicate 4 WRITABLE @ [NO_EXIST, NO_EXIST]"
proof -
  have "replicate (numeral k) x = x # replicate (pred_numeral k) x" for k and x :: nat
    by (simp add: numeral_eq_Suc)
  then show ?thesis by (simp add: g_field_data_def field_entry_def)
qed

lemma active_writable:
  assumes "vmcs_active s" "f \<in> {2..28} \<union> {44..46} \<union> {49..100} \<union> {108..127} \<union> {131..134}"
  shows "access (field_data s ! f) = WRITABLE"
proof -
  have f: "f < length g_field_data" using assms(2) by (auto simp: g_field_data_def)
  have "access (field_data s ! f) = map access g_field_data ! f"
    using assms f by (subst active_access [OF assms(1)]) auto
  also have "\<dots> = WRITABLE"
    using assms(2) unfolding g_field_data_accesses by (auto simp: nth_append)
  finally show ?thesis .
qed

lemma active_readonly:
  assumes "vmcs_active s" "f \<in> {30..33} \<union> {35..42}"
  shows "access (field_data s ! f) = READONLY"
proof -
  have f: "f < length g_field_data" using assms(2) by (auto simp: g_field_data_def)
  have "access (field_data s ! f) = map access g_field_data ! f"
    using assms f by (subst active_access [OF assms(1)]) auto
  also have "\<dots> = READONLY"
    using assms(2) unfolding g_field_data_accesses by (auto simp: nth_append)
  finally show ?thesis .
qed

section \<open>Accesses of a guest CPU\<close>

lemma guest_cpu_vmcs [simp]:
  "vmcs_active (s \<lparr> vmexit_setup := v \<rparr>) \<longleftrightarrow> vmcs_active s" "vmcs_active (s \<lparr> save_area_gp := g \<rparr>) \<longleftrightarrow> vmcs_active s"
  "vmcs_active (s \<lparr> state_flags := w \<rparr>) \<longleftrightarrow> vmcs_active s"
  "vmcs_active (s \<lparr> num_blocked_nmi_injections_to_guest := n \<rparr>) \<longleftrightarrow> vmcs_active s"
  "vmcs_hw (s \<lparr> vmexit_setup := v \<rparr>) f = vmcs_hw s f" "vmcs_hw (s \<lparr> save_area_gp := g \<rparr>) f = vmcs_hw s f"
  "vmcs_hw (s \<lparr> state_flags := w \<rparr>) f = vmcs_hw s f"
  "vmcs_hw (s \<lparr> num_blocked_nmi_injections_to_guest := n \<rparr>) f = vmcs_hw s f"
  for s :: "'a guest_cpu_scheme"
  by (simp_all add: vmcs_active_def vmcs_hw_def)

lemma guest_cpu_view [simp]:
  "vmcs_view (s \<lparr> vmexit_setup := v \<rparr>) = vmcs_view s" "vmcs_view (s \<lparr> save_area_gp := g \<rparr>) = vmcs_view s"
  "vmcs_view (s \<lparr> state_flags := w \<rparr>) = vmcs_view s"
  "vmcs_view (s \<lparr> num_blocked_nmi_injections_to_guest := n \<rparr>) = vmcs_view s"
  "vmcs_synced (s \<lparr> vmexit_setup := v \<rparr>) \<longleftrightarrow> vmcs_synced s" "vmcs_synced (s \<lparr> save_area_gp := g \<rparr>) \<longleftrightarrow> vmcs_synced s"
  "vmcs_synced (s \<lparr> state_flags := w \<rparr>) \<longleftrightarrow> vmcs_synced s"
  "vmcs_synced (s \<lparr> num_blocked_nmi_injections_to_guest := n \<rparr>) \<longleftrightarrow> vmcs_synced s"
  for s :: "'a guest_cpu_scheme"
  by (auto simp: vmcs_view_def vmcs_synced_def fun_eq_iff split: option.splits)

lemma vmcs_becomesD:
  assumes "vmcs_becomes s V s'"
  shows "vmcs_active s'" "vmcs_view s' = V" "vmcs_synced s \<Longrightarrow> vmcs_synced s'" "vmexit_setup s' = vmexit_setup s"
    "plat s' = plat s" "save_area_gp s' = save_area_gp s" "state_flags s' = state_flags s"
    "g_processor_ctrls2_supported s' = g_processor_ctrls2_supported s" "field_data s' = field_data s"
    "num_blocked_nmi_injections_to_guest s' = num_blocked_nmi_injections_to_guest s"
    "nmi_window s' = nmi_window s" "fs_selector s' = fs_selector s" "vmcs_hpa s' = vmcs_hpa s"
    "vmcs_regions s' = vmcs_regions s" "skip_access_checking s' = skip_access_checking s"
  using assms by (auto simp: vmcs_becomes_def)

lemma vmcs_becomes_refl: "vmcs_active s \<Longrightarrow> vmcs_becomes s (vmcs_view s) s"
  by (auto simp: vmcs_becomes_def intro: exI [of _ "vmcs_cache s"])

lemma vmcs_becomes_trans: "vmcs_becomes s V s' \<Longrightarrow> vmcs_becomes s' V' s'' \<Longrightarrow> vmcs_becomes s V' s''"
  by (auto simp: vmcs_becomes_def)

lemma setup_becomes_frame: "vmcs_becomes (s \<lparr> vmexit_setup := v \<rparr>) V s' \<Longrightarrow> controls_frame s s'"
  by (auto simp: vmcs_becomes_def controls_frame_def)

lemma read_becomes:
  assumes "vmcs_active s" "field_readable s f"
  shows "\<exists>s'. vmcs_read chk f s = Some (s', vmcs_view s f) \<and> vmcs_becomes s (vmcs_view s) s'"
  using vmcs_read_active [OF assms, of chk] by (auto simp: vmcs_becomes_def)

lemma write_becomes:
  assumes "vmcs_active s" "field_writeable s f"
  shows "\<exists>s'. vmcs_write chk f v s = Some s' \<and> vmcs_becomes s ((vmcs_view s)(f := v)) s'"
  using vmcs_write_active [OF assms, of chk v] by (auto simp: vmcs_becomes_def)

lemma update_becomes:
  assumes "vmcs_active s" "field_readable s f" "field_writeable s f"
  shows "\<exists>s'. vmcs_update chk f v m s = Some s' \<and>
    vmcs_becomes s ((vmcs_view s)(f := (vmcs_view s f AND NOT m) OR (v AND m))) s'"
  using vmcs_update_active [OF assms, of chk v m] by (auto simp: vmcs_becomes_def)

lemma write_if_changed_becomes:
  assumes "vmcs_active s" "f < VMCS_FIELD_COUNT" "access (field_data s ! f) = WRITABLE"
  shows "\<exists>s'. write_if_changed chk f v s = Some s' \<and> vmcs_becomes s ((vmcs_view s)(f := v)) s'"
proof -
  obtain s1 where s1: "vmcs_read chk f s = Some (s1, vmcs_view s f)" "vmcs_becomes s (vmcs_view s) s1"
    using read_becomes [OF assms(1), of f chk] assms by auto
  note D = vmcs_becomesD [OF s1(2)]
  show ?thesis
  proof (cases "vmcs_view s f = v")
    case True
    then have "(vmcs_view s)(f := v) = vmcs_view s" by auto
    then show ?thesis using s1 True by (auto simp: write_if_changed_def)
  next
    case False
    obtain s2 where "vmcs_write chk f v s1 = Some s2" "vmcs_becomes s1 ((vmcs_view s)(f := v)) s2"
      using write_becomes [OF D(1), of f chk v] assms D(2,9) by auto
    then show ?thesis using s1 False vmcs_becomes_trans [OF s1(2)] by (auto simp: write_if_changed_def)
  qed
qed

lemma set_processor_ctrls_becomes:
  assumes "vmcs_active s"
  shows "\<exists>s'. gcpu_set_processor_ctrls_layered chk v s = Some s' \<and>
    vmcs_becomes s ((vmcs_view s)(VMCS_CONTROL_VECTOR_PROCESSOR_EVENTS :=
      (v AND NOT 0x8000000) OR (vmcs_view s VMCS_CONTROL_VECTOR_PROCESSOR_EVENTS AND 0x8000000))) s'"
proof -
  let ?f = VMCS_CONTROL_VECTOR_PROCESSOR_EVENTS
  have acc: "access (field_data s ! ?f) = WRITABLE" by (rule active_writable [OF assms]) simp
  obtain s1 where s1: "vmcs_read chk ?f s = Some (s1, vmcs_view s ?f)" "vmcs_becomes s (vmcs_view s) s1"
    using read_becomes [OF assms, of ?f chk] acc by auto
  note D = vmcs_becomesD [OF s1(2)]
  show ?thesis
  proof (cases "vmcs_view s ?f = v")
    case True
    have "(v AND NOT m) OR (v AND m) = v" for m
      by (rule bit_word_eqI) (auto simp: bit_simps)
    then have e: "(v AND NOT 0x8000000) OR (v AND 0x8000000) = v" by blast
    have "gcpu_set_processor_ctrls_layered chk v s = Some s1"
      using s1(1) True by (simp add: gcpu_set_processor_ctrls_layered_def)
    moreover have "(vmcs_view s)(?f := v) = vmcs_view s" using True by auto
    ultimately show ?thesis unfolding True e using s1(2) by simp
  next
    case False
    obtain s2 where "vmcs_write chk ?f ((v AND NOT 0x8000000) OR (vmcs_view s ?f AND 0x8000000)) s1 = Some s2"
        "vmcs_becomes s1 ((vmcs_view s)(?f := (v AND NOT 0x8000000) OR (vmcs_view s ?f AND 0x8000000))) s2"
      using write_becomes [OF D(1), of ?f chk] acc D(2,9) by auto
    then show ?thesis using s1 False vmcs_becomes_trans [OF s1(2)] by (auto simp: gcpu_set_processor_ctrls_layered_def)
  qed
qed

section \<open>A control field\<close>

text \<open>
  Each control field is a component of the setup that can be read and replaced.  What a request does
  is proved for any of them.
\<close>

lemma bit_field_positive:
  assumes "counters_are b c" "i < 64"
  shows "bit (bit_field c) i \<longleftrightarrow> 0 < b i"
  using assms counters_range [OF assms] word_uint_eq_iff [of "counters c ! i" 0]
  by (auto simp: counters_are_def field_ok_def in_range_def)

locale control_field =
  fixes get :: "vmexit_controls \<Rightarrow> field_counters"
    and put :: "(field_counters \<Rightarrow> field_counters) \<Rightarrow> vmexit_controls \<Rightarrow> vmexit_controls"
  assumes get_put: "get (put f v) = f (get v)"
    and put_get: "put (\<lambda>_. get v) v = v"
begin

lemma calculate_64_counts:
  assumes "counters_are b (get (vmexit_setup s))" "\<forall>i < 64. in_range (b i + outstanding i [(r, m)])"
  shows "\<exists>c v. calculate_64 get put chk r m s = Some (s \<lparr> vmexit_setup := put (\<lambda>_. c) (vmexit_setup s) \<rparr>, v) \<and>
    counters_are (\<lambda>i. b i + outstanding i [(r, m)]) c \<and>
    minimal_1_settings c = minimal_1_settings (get (vmexit_setup s)) \<and>
    minimal_0_settings c = minimal_0_settings (get (vmexit_setup s)) \<and>
    (\<forall>i < 64. bit v i \<longleftrightarrow> (0 < b i + outstanding i [(r, m)] \<or> bit (minimal_1_settings c) i) \<and>
       bit (minimal_0_settings c) i)"
proof -
  obtain c where c: "gcpu_update_control_counters chk r m (get (vmexit_setup s)) = Some (c, bit_field c)"
      "counters_are (\<lambda>i. b i + outstanding i [(r, m)]) c"
      "minimal_1_settings c = minimal_1_settings (get (vmexit_setup s))"
      "minimal_0_settings c = minimal_0_settings (get (vmexit_setup s))"
    using update_counters_are [OF assms, of chk] by blast
  have "\<forall>i < 64. bit (GET_FINAL_SETTINGS c (bit_field c)) i \<longleftrightarrow>
      (0 < b i + outstanding i [(r, m)] \<or> bit (minimal_1_settings c) i) \<and> bit (minimal_0_settings c) i"
    using bit_field_positive [OF c(2)] by (simp add: GET_FINAL_SETTINGS_def bit_simps)
  then show ?thesis using c by (auto simp: calculate_64_def simp del: outstanding_simps)
qed

lemma calculate_32_counts:
  assumes "counters_are b (get (vmexit_setup s))" "\<forall>i < 64. in_range (b i + outstanding i [(ucast r, ucast m)])"
  shows "\<exists>c v. calculate_32 get put chk r m s = Some (s \<lparr> vmexit_setup := put (\<lambda>_. c) (vmexit_setup s) \<rparr>, v) \<and>
    counters_are (\<lambda>i. b i + outstanding i [(ucast r, ucast m)]) c \<and>
    minimal_1_settings c = minimal_1_settings (get (vmexit_setup s)) \<and>
    minimal_0_settings c = minimal_0_settings (get (vmexit_setup s)) \<and>
    v = ucast (GET_FINAL_SETTINGS c (bit_field c)) \<and>
    (\<forall>i < 32. bit v i \<longleftrightarrow> (0 < b i + outstanding i [(ucast r, ucast m)] \<or> bit (minimal_1_settings c) i) \<and>
       bit (minimal_0_settings c) i)"
proof -
  obtain c where c: "gcpu_update_control_counters chk (ucast r) (ucast m) (get (vmexit_setup s)) = Some (c, bit_field c)"
      "counters_are (\<lambda>i. b i + outstanding i [(ucast r, ucast m)]) c"
      "minimal_1_settings c = minimal_1_settings (get (vmexit_setup s))"
      "minimal_0_settings c = minimal_0_settings (get (vmexit_setup s))"
    using update_counters_are [OF assms, of chk] by blast
  have v: "(ucast (GET_FINAL_SETTINGS c (ucast (ucast (bit_field c) :: 32 word))) :: 32 word)
      = ucast (GET_FINAL_SETTINGS c (bit_field c))"
    by (rule bit_word_eqI) (simp add: GET_FINAL_SETTINGS_def bit_simps)
  have "\<forall>i < 32. bit (ucast (GET_FINAL_SETTINGS c (bit_field c)) :: 32 word) i \<longleftrightarrow>
      (0 < b i + outstanding i [(ucast r, ucast m)] \<or> bit (minimal_1_settings c) i) \<and> bit (minimal_0_settings c) i"
    using bit_field_positive [OF c(2)] by (simp add: GET_FINAL_SETTINGS_def bit_simps)
  then show ?thesis using c v by (auto simp: calculate_32_def simp del: outstanding_simps)
qed

text \<open>The effect of a request on the VMCS field \<open>f\<close> that shows the control field.\<close>

lemma request_32:
  assumes "vmcs_active s" "f < VMCS_FIELD_COUNT" "access (field_data s ! f) = WRITABLE"
    "counters_are b (get (vmexit_setup s))" "\<forall>i < 64. in_range (b i + outstanding i [(ucast r, ucast m)])"
  shows "\<exists>s'. Option.bind (calculate_32 get put chk r m s) (\<lambda>(s1, v). write_if_changed chk f (ucast v) s1) = Some s' \<and>
    vmcs_active s' \<and> (vmcs_synced s \<longrightarrow> vmcs_synced s') \<and> controls_frame s s' \<and>
    counters_are (\<lambda>i. b i + outstanding i [(ucast r, ucast m)]) (get (vmexit_setup s')) \<and>
    (\<forall>g. g \<noteq> f \<longrightarrow> vmcs_view s' g = vmcs_view s g) \<and>
    (\<forall>i < 32. bit (vmcs_view s' f) i \<longleftrightarrow>
       control_on (get (vmexit_setup s)) (\<lambda>i. b i + outstanding i [(ucast r, ucast m)]) i)"
proof -
  obtain c v where c: "calculate_32 get put chk r m s = Some (s \<lparr> vmexit_setup := put (\<lambda>_. c) (vmexit_setup s) \<rparr>, v)"
      "counters_are (\<lambda>i. b i + outstanding i [(ucast r, ucast m)]) c"
      "minimal_1_settings c = minimal_1_settings (get (vmexit_setup s))"
      "minimal_0_settings c = minimal_0_settings (get (vmexit_setup s))"
      "\<forall>i < 32. bit v i \<longleftrightarrow> (0 < b i + outstanding i [(ucast r, ucast m)] \<or> bit (minimal_1_settings c) i) \<and>
         bit (minimal_0_settings c) i"
    using calculate_32_counts [OF assms(4,5), of chk] by blast
  let ?s = "s \<lparr> vmexit_setup := put (\<lambda>_. c) (vmexit_setup s) \<rparr>"
  obtain s' where s': "write_if_changed chk f (ucast v) ?s = Some s'"
      "vmcs_becomes ?s ((vmcs_view s)(f := ucast v)) s'"
    using write_if_changed_becomes [of ?s f chk "ucast v"] assms(1-3) by auto
  note D = vmcs_becomesD [OF s'(2)]
  have "get (vmexit_setup s') = c" using D(4) get_put by simp
  moreover have "\<forall>i < 32. bit (vmcs_view s' f) i \<longleftrightarrow> bit v i" using D(2) by (simp add: bit_simps)
  moreover have "controls_frame s s'" by (rule setup_becomes_frame [OF s'(2)])
  ultimately show ?thesis
    using c s' D(1-3) by (intro exI [of _ s']) (simp add: control_on_def del: outstanding_simps)
qed

end

interpretation cr0_field: control_field cr0 cr0_update by unfold_locales simp_all
interpretation cr4_field: control_field cr4 cr4_update by unfold_locales simp_all
interpretation pin_field: control_field pin_ctrls pin_ctrls_update by unfold_locales simp_all
interpretation proc_field: control_field processor_ctrls processor_ctrls_update by unfold_locales simp_all
interpretation proc2_field: control_field processor_ctrls2 processor_ctrls2_update by unfold_locales simp_all
interpretation exceptions_field: control_field exceptions_ctrls exceptions_ctrls_update by unfold_locales simp_all
interpretation entry_field: control_field vm_entry_ctrls vm_entry_ctrls_update by unfold_locales simp_all
interpretation exit_field: control_field vm_exit_ctrls vm_exit_ctrls_update by unfold_locales simp_all

section \<open>Minimal settings are allowed by the processor\<close>

lemma ensures_must:
  assumes "bits_below a c" "\<And>c'. bits_below a c' \<Longrightarrow> ensures (k c') P"
  shows "ensures (Option.bind (must_set chk x b c) k) P"
proof -
  have "bits_below a (set_bit b c)" using assms(1) by (auto simp: bits_below_def bit_simps)
  from assms(2) [OF this] show ?thesis by (auto simp: ensures_def must_set_def bind_eq_Some_conv)
qed

lemma ensures_assert: "ensures (k ()) P \<Longrightarrow> ensures (Option.bind (vmm_assert chk q) k) P"
  by (auto simp: ensures_def bind_eq_Some_conv)

lemma ensures_Some: "P r \<Longrightarrow> ensures (Some r) P"
  by (simp add: ensures_def)

lemma ensuresD: "ensures m P \<Longrightarrow> m = Some r \<Longrightarrow> P r"
  by (simp add: ensures_def)

lemma below_try_set: "bits_below a c \<Longrightarrow> bits_below a (try_set x b c)"
  by (auto simp: try_set_def bits_below_def bit_simps)

lemma must_set_release [simp]: "must_set False x b c = Some (set_bit b c)"
  by (simp add: must_set_def)

lemma minimal_forI:
  fixes v :: "32 word"
  shows "(\<And>i. bit (func 0) i \<Longrightarrow> i \<notin> E \<Longrightarrow> bit v i) \<Longrightarrow>
     minimal_for E func (c \<lparr> minimal_1_settings := ucast v, minimal_0_settings := ucast (func (- 1)) \<rparr>)"
  by (auto simp: minimal_for_def)

lemma minimal_for_below:
  "bits_below (func 0) v \<Longrightarrow>
     minimal_for {} func (c \<lparr> minimal_1_settings := ucast v, minimal_0_settings := ucast (func (- 1)) \<rparr>)"
  by (rule minimal_forI) (simp add: bits_below_def)

lemma set_minimal_pin_ctrls_for:
  "ensures (set_minimal_pin_ctrls chk p c) (minimal_for {} (vmcs_hw_make_compliant_pin_based_exec_ctrl (fixed p)))"
  unfolding set_minimal_pin_ctrls_def Let_def
  by (intro ensures_must [where a = "vmcs_hw_make_compliant_pin_based_exec_ctrl (fixed p) 0"] ensures_assert ensures_Some
        minimal_for_below bits_below_refl below_try_set; assumption?)

lemma set_minimal_exit_ctrls_for:
  "ensures (set_minimal_exit_ctrls chk p c) (minimal_for {} (vmcs_hw_make_compliant_vm_exit_ctrl (fixed p)))"
  unfolding set_minimal_exit_ctrls_def Let_def
  by (intro ensures_must [where a = "vmcs_hw_make_compliant_vm_exit_ctrl (fixed p) 0"] ensures_assert ensures_Some
        minimal_for_below bits_below_refl below_try_set; assumption?)

lemma set_minimal_entry_ctrls_for:
  "ensures (set_minimal_entry_ctrls chk p c) (minimal_for {} (vmcs_hw_make_compliant_vm_entry_ctrl (fixed p)))"
  unfolding set_minimal_entry_ctrls_def Let_def
  by (intro ensures_must [where a = "vmcs_hw_make_compliant_vm_entry_ctrl (fixed p) 0"] ensures_assert ensures_Some
        minimal_for_below bits_below_refl below_try_set; assumption?)

lemma set_minimal_processor_ctrls_for:
  "ensures (set_minimal_processor_ctrls chk b p c)
     (minimal_for (if pg_policy_ept p then {PROC_Cr3Load, PROC_Cr3Store} else {})
        (vmcs_hw_make_compliant_processor_based_exec_ctrl (fixed p)))"
  unfolding set_minimal_processor_ctrls_def Let_def
  by (intro ensures_assert ensures_Some minimal_forI) (auto simp: bit_simps)

lemma set_minimal_processor_ctrls2_for:
  "minimal_for {} (vmcs_hw_make_compliant_processor_based_exec_ctrl2 (fixed p)) (set_minimal_processor_ctrls2 True p c)"
  unfolding set_minimal_processor_ctrls2_def Let_def not_True_eq_False if_False
  by (rule minimal_for_below) (auto simp: bits_below_def bit_simps)

lemma final_compliant:
  assumes "bits_below x1 x0" "minimal_for E (\<lambda>v. (v AND x0) OR x1) c"
  shows "compliant E x1 x0 (ucast (GET_FINAL_SETTINGS c m))"
proof -
  have l: "bit w i \<Longrightarrow> i < 64" for w :: "32 word" and i using bit_imp_le_length [of w i] by simp
  show ?thesis
    using assms
    by (auto simp: compliant_def minimal_for_def GET_FINAL_SETTINGS_def bits_below_def bit_simps dest: bit_imp_le_length l)
qed

lemma fixed_mask_bit:
  fixes x0 x1 :: "'w::len word"
  assumes "bit x1 i \<or> \<not> bit x0 i" "i < LENGTH('w)"
  shows "bit (GET_FIXED_MASK (\<lambda>v. (v AND x0) OR x1)) i"
  using assms by (auto simp: GET_FIXED_MASK_def bit_simps)

text \<open>The settings that the initialisation leaves for each field.\<close>

lemma init_minimal_controls_fields:
  assumes "init_minimal_controls chk s = Some s'"
  shows "plat s' = plat s"
    "minimal_for {} (vmcs_hw_make_compliant_pin_based_exec_ctrl (fixed (plat s))) (pin_ctrls (vmexit_setup s'))"
    "minimal_for {} (vmcs_hw_make_compliant_vm_exit_ctrl (fixed (plat s))) (vm_exit_ctrls (vmexit_setup s'))"
    "minimal_for {} (vmcs_hw_make_compliant_vm_entry_ctrl (fixed (plat s))) (vm_entry_ctrls (vmexit_setup s'))"
    "minimal_for (if pg_policy_ept (plat s) then {PROC_Cr3Load, PROC_Cr3Store} else {})
       (vmcs_hw_make_compliant_processor_based_exec_ctrl (fixed (plat s))) (processor_ctrls (vmexit_setup s'))"
    "g_processor_ctrls2_supported s' \<Longrightarrow>
       minimal_for {} (vmcs_hw_make_compliant_processor_based_exec_ctrl2 (fixed (plat s))) (processor_ctrls2 (vmexit_setup s'))"
    "cr0 (vmexit_setup s') = set_minimal_cr0_reg_mask (plat s) (cr0 (vmexit_setup s))"
    "cr4 (vmexit_setup s') = set_minimal_cr4_reg_mask (plat s) (cr4 (vmexit_setup s))"
proof -
  let ?v = "vmexit_setup s"
  obtain g pin proc entry exit where r:
    "set_minimal_pin_ctrls chk (plat s) (pin_ctrls ?v) = Some pin"
    "set_minimal_processor_ctrls chk g (plat s) (processor_ctrls ?v) = Some proc"
    "set_minimal_entry_ctrls chk (plat s) (vm_entry_ctrls ?v) = Some entry"
    "set_minimal_exit_ctrls chk (plat s) (vm_exit_ctrls ?v) = Some exit"
    "vmexit_setup s' = ?v \<lparr> cr0 := set_minimal_cr0_reg_mask (plat s) (cr0 ?v),
       cr4 := set_minimal_cr4_reg_mask (plat s) (cr4 ?v), pin_ctrls := pin, processor_ctrls := proc,
       processor_ctrls2 := set_minimal_processor_ctrls2 g (plat s) (processor_ctrls2 ?v),
       exceptions_ctrls := set_minimal_exceptions_map (exceptions_ctrls ?v),
       vm_entry_ctrls := entry, vm_exit_ctrls := exit \<rparr>"
    "plat s' = plat s" "g_processor_ctrls2_supported s' = g"
    using assms by (auto simp: init_minimal_controls_def Let_def bind_eq_Some_conv split: if_splits)
  note M = ensuresD [OF set_minimal_pin_ctrls_for r(1)] ensuresD [OF set_minimal_exit_ctrls_for r(4)]
    ensuresD [OF set_minimal_entry_ctrls_for r(3)] ensuresD [OF set_minimal_processor_ctrls_for r(2)]
    set_minimal_processor_ctrls2_for [of "plat s" "processor_ctrls2 ?v"]
  show "plat s' = plat s" by (rule r(6))
  show "minimal_for {} (vmcs_hw_make_compliant_pin_based_exec_ctrl (fixed (plat s))) (pin_ctrls (vmexit_setup s'))"
    "minimal_for {} (vmcs_hw_make_compliant_vm_exit_ctrl (fixed (plat s))) (vm_exit_ctrls (vmexit_setup s'))"
    "minimal_for {} (vmcs_hw_make_compliant_vm_entry_ctrl (fixed (plat s))) (vm_entry_ctrls (vmexit_setup s'))"
    "minimal_for (if pg_policy_ept (plat s) then {PROC_Cr3Load, PROC_Cr3Store} else {})
       (vmcs_hw_make_compliant_processor_based_exec_ctrl (fixed (plat s))) (processor_ctrls (vmexit_setup s'))"
    "cr0 (vmexit_setup s') = set_minimal_cr0_reg_mask (plat s) (cr0 (vmexit_setup s))"
    "cr4 (vmexit_setup s') = set_minimal_cr4_reg_mask (plat s) (cr4 (vmexit_setup s))"
    using M(1-4) r(5) by simp_all
  show "minimal_for {} (vmcs_hw_make_compliant_processor_based_exec_ctrl2 (fixed (plat s))) (processor_ctrls2 (vmexit_setup s'))"
    if "g_processor_ctrls2_supported s'" using M(5) r(5,7) that by simp
qed

section \<open>Requests\<close>

lemma controls_frame_refl [simp]: "controls_frame s s"
proof -
  have "s = s \<lparr> vmexit_setup := vmexit_setup s, vmcs_cache := vmcs_cache s \<rparr>" by simp
  then show ?thesis unfolding controls_frame_def by blast
qed

lemma controls_frame_trans: "controls_frame s s' \<Longrightarrow> controls_frame s' s'' \<Longrightarrow> controls_frame s s''"
proof -
  have swap: "s \<lparr> vmexit_setup := v, vmcs_cache := c, vmexit_setup := v', vmcs_cache := c' \<rparr>
      = s \<lparr> vmexit_setup := v', vmcs_cache := c' \<rparr>" for s :: "'a guest_cpu_scheme" and v v' c c'
    by (cases s) simp
  show "controls_frame s s' \<Longrightarrow> controls_frame s' s'' \<Longrightarrow> controls_frame s s''"
    unfolding controls_frame_def by (metis swap)
qed

lemma becomes_frame: "vmcs_becomes s V s' \<Longrightarrow> controls_frame s s'"
proof -
  have "s \<lparr> vmcs_cache := c \<rparr> = s \<lparr> vmexit_setup := vmexit_setup s, vmcs_cache := c \<rparr>"
    for s :: "'a guest_cpu_scheme" and c by simp
  then show "vmcs_becomes s V s' \<Longrightarrow> controls_frame s s'"
    unfolding vmcs_becomes_def controls_frame_def by metis
qed

lemma controls_frameD:
  assumes "controls_frame s s'"
  shows "nmi_window s' = nmi_window s" "fs_selector s' = fs_selector s" "vmcs_hpa s' = vmcs_hpa s"
    "nmi_arrivals s' = nmi_arrivals s" "field_data s' = field_data s" "plat s' = plat s"
    "skip_access_checking s' = skip_access_checking s" "state_flags s' = state_flags s"
    "save_area_gp s' = save_area_gp s" "vmcs_regions s' = vmcs_regions s"
    "num_blocked_nmi_injections_to_guest s' = num_blocked_nmi_injections_to_guest s"
    "g_processor_ctrls2_supported s' = g_processor_ctrls2_supported s"
  using assms by (auto simp: controls_frame_def)

lemma request_proc_spec:
  assumes "vmcs_active s" "counters_are b (processor_ctrls (vmexit_setup s))"
    "\<forall>i < 64. in_range (b i + outstanding i [(ucast r, ucast m)])"
  shows "\<exists>s'. request_vmexit_on_proc_ctrls chk r m s = Some s' \<and>
    vmcs_active s' \<and> (vmcs_synced s \<longrightarrow> vmcs_synced s') \<and> controls_frame s s' \<and>
    counters_are (\<lambda>i. b i + outstanding i [(ucast r, ucast m)]) (processor_ctrls (vmexit_setup s')) \<and>
    (\<forall>g. g \<noteq> VMCS_CONTROL_VECTOR_PROCESSOR_EVENTS \<longrightarrow> vmcs_view s' g = vmcs_view s g) \<and>
    (\<forall>i < 32. bit (vmcs_view s' VMCS_CONTROL_VECTOR_PROCESSOR_EVENTS) i \<longleftrightarrow>
       (if i = PROC_MonitorTrapFlag then bit (vmcs_view s VMCS_CONTROL_VECTOR_PROCESSOR_EVENTS) i
        else control_on (processor_ctrls (vmexit_setup s)) (\<lambda>i. b i + outstanding i [(ucast r, ucast m)]) i))"
proof -
  let ?f = VMCS_CONTROL_VECTOR_PROCESSOR_EVENTS
  obtain c v where c: "calculate_processor_ctrls chk r m s
        = Some (s \<lparr> vmexit_setup := (vmexit_setup s) \<lparr> processor_ctrls := c \<rparr> \<rparr>, v)"
      "counters_are (\<lambda>i. b i + outstanding i [(ucast r, ucast m)]) c"
      "minimal_1_settings c = minimal_1_settings (processor_ctrls (vmexit_setup s))"
      "minimal_0_settings c = minimal_0_settings (processor_ctrls (vmexit_setup s))"
      "\<forall>i < 32. bit v i \<longleftrightarrow> (0 < b i + outstanding i [(ucast r, ucast m)] \<or> bit (minimal_1_settings c) i) \<and>
         bit (minimal_0_settings c) i"
    unfolding calculate_processor_ctrls_def using proc_field.calculate_32_counts [OF assms(2,3), of chk] by blast
  let ?s = "s \<lparr> vmexit_setup := (vmexit_setup s) \<lparr> processor_ctrls := c \<rparr> \<rparr>"
  let ?w = "(ucast v AND NOT 0x8000000) OR (vmcs_view s ?f AND 0x8000000)"
  obtain s' where s': "gcpu_set_processor_ctrls_layered chk (ucast v) ?s = Some s'"
      "vmcs_becomes ?s ((vmcs_view s)(?f := ?w)) s'"
    using set_processor_ctrls_becomes [of ?s chk "ucast v"] assms(1) by auto
  note D = vmcs_becomesD [OF s'(2)]
  have m27: "(0x8000000 :: 64 word) = push_bit 27 1" by simp
  have "bit ?w i \<longleftrightarrow> (if i = PROC_MonitorTrapFlag then bit (vmcs_view s ?f) i else bit v i)" if "i < 32" for i
    using that unfolding m27 by (auto simp: bit_simps simp del: push_bit_numeral push_bit_of_1)
  then have "\<forall>i < 32. bit (vmcs_view s' ?f) i \<longleftrightarrow> (if i = PROC_MonitorTrapFlag then bit (vmcs_view s ?f) i else bit v i)"
    using D(2) by simp
  moreover have "controls_frame s s'" by (rule setup_becomes_frame [OF s'(2)])
  moreover have "processor_ctrls (vmexit_setup s') = c" using D(4) by simp
  ultimately show ?thesis
    using c s' D(1-3) unfolding request_vmexit_on_proc_ctrls_def
    by (intro exI [of _ s']) (simp add: control_on_def del: outstanding_simps)
qed

lemma set_pf_becomes:
  assumes "vmcs_active s"
  shows "\<exists>s'. gcpu_set_pf_error_code_mask_and_match_layered chk x y s = Some s' \<and>
    vmcs_becomes s ((vmcs_view s)(VMCS_PAGE_FAULT_ERROR_CODE_MASK := ucast x, VMCS_PAGE_FAULT_ERROR_CODE_MATCH := ucast y)) s'"
proof -
  let ?f = VMCS_PAGE_FAULT_ERROR_CODE_MASK and ?g = VMCS_PAGE_FAULT_ERROR_CODE_MATCH
  have a: "access (field_data s ! ?f) = WRITABLE" by (rule active_writable [OF assms]) simp
  obtain s1 where s1: "vmcs_write chk ?f (ucast x) s = Some s1" "vmcs_becomes s ((vmcs_view s)(?f := ucast x)) s1"
    using write_becomes [OF assms, of ?f chk "ucast x"] a by auto
  note D = vmcs_becomesD [OF s1(2)]
  have a': "access (field_data s1 ! ?g) = WRITABLE" by (rule active_writable [OF D(1)]) simp
  obtain s2 where s2: "vmcs_write chk ?g (ucast y) s1 = Some s2"
      "vmcs_becomes s1 ((vmcs_view s)(?f := ucast x, ?g := ucast y)) s2"
    using write_becomes [OF D(1), of ?g chk "ucast y"] a' D(2) by auto
  show ?thesis
    using s1(1) s2(1) vmcs_becomes_trans [OF s1(2) s2(2)]
    by (simp add: gcpu_set_pf_error_code_mask_and_match_layered_def)
qed

lemma update_pfs_becomes:
  assumes "vmcs_active s"
  shows "\<exists>s'. update_pfs_setup chk policy s = Some s' \<and> vmcs_active s' \<and> (vmcs_synced s \<longrightarrow> vmcs_synced s') \<and>
    controls_frame s s' \<and> vmexit_setup s' = vmexit_setup s \<and>
    (\<forall>g. g \<notin> {VMCS_PAGE_FAULT_ERROR_CODE_MASK, VMCS_PAGE_FAULT_ERROR_CODE_MATCH} \<longrightarrow> vmcs_view s' g = vmcs_view s g) \<and>
    (\<forall>err. page_fault_exits s' err \<longleftrightarrow> policy = EXCEPTIONS_POLICY_CATCH_ALL)"
proof -
  let ?e = VMCS_EXCEPTION_BITMAP
  have a: "access (field_data s ! ?e) = WRITABLE" by (rule active_writable [OF assms]) simp
  obtain s1 where s1: "gcpu_get_exceptions_map_layered chk s = Some (s1, vmcs_view s ?e)" "vmcs_becomes s (vmcs_view s) s1"
    using read_becomes [OF assms, of ?e chk] a by (auto simp: gcpu_get_exceptions_map_layered_def)
  note D = vmcs_becomesD [OF s1(2)]
  define y :: "32 word" where "y = (if (policy = EXCEPTIONS_POLICY_CATCH_ALL) = bit (ucast (vmcs_view s ?e) :: 32 word)
    EXCEPTION_BITMAP_PF then 0 else - 1)"
  obtain s2 where s2: "gcpu_set_pf_error_code_mask_and_match_layered chk 0 y s1 = Some s2"
      "vmcs_becomes s1 ((vmcs_view s)(VMCS_PAGE_FAULT_ERROR_CODE_MASK := 0, VMCS_PAGE_FAULT_ERROR_CODE_MATCH := ucast y)) s2"
    using set_pf_becomes [OF D(1), of chk 0 y] D(2) by auto
  note D2 = vmcs_becomesD [OF s2(2)]
  have run: "update_pfs_setup chk policy s = Some s2"
    using s1(1) s2(1) by (cases policy) (auto simp: update_pfs_setup_def y_def Let_def)
  have "bit (ucast (- 1 :: 32 word) :: 64 word) 0" by (simp add: bit_simps)
  then have "(0 :: 64 word) \<noteq> ucast (- 1 :: 32 word)" by (metis bit_0_eq bot_apply bot_bool_def)
  then have "page_fault_exits s2 err \<longleftrightarrow> policy = EXCEPTIONS_POLICY_CATCH_ALL" for err
    unfolding page_fault_exits_def D2(2) by (auto simp: y_def bit_simps)
  then show ?thesis
    using run D(1-4) D2(1-4) becomes_frame [OF vmcs_becomes_trans [OF s1(2) s2(2)]] by (intro exI [of _ s2]) simp
qed

lemma request_exceptions_spec:
  assumes "vmcs_active s" "counters_are b (exceptions_ctrls (vmexit_setup s))"
    "\<forall>i < 64. in_range (b i + outstanding i [(ucast r, ucast m)])"
  shows "\<exists>s'. request_vmexit_on_exceptions chk r m s = Some s' \<and>
    vmcs_active s' \<and> (vmcs_synced s \<longrightarrow> vmcs_synced s') \<and> controls_frame s s' \<and>
    counters_are (\<lambda>i. b i + outstanding i [(ucast r, ucast m)]) (exceptions_ctrls (vmexit_setup s')) \<and>
    (\<forall>i < 32. bit (vmcs_view s' VMCS_EXCEPTION_BITMAP) i \<longleftrightarrow>
       control_on (exceptions_ctrls (vmexit_setup s)) (\<lambda>i. b i + outstanding i [(ucast r, ucast m)]) i) \<and>
    (\<forall>err. page_fault_exits s' err \<longleftrightarrow>
       0 < b EXCEPTION_BITMAP_PF + outstanding EXCEPTION_BITMAP_PF [(ucast r, ucast m)])"
proof -
  let ?f = VMCS_EXCEPTION_BITMAP and ?b = "\<lambda>i. b i + outstanding i [(ucast r, ucast m)]"
  obtain c v where c: "calculate_32 exceptions_ctrls exceptions_ctrls_update chk r m s
        = Some (s \<lparr> vmexit_setup := (vmexit_setup s) \<lparr> exceptions_ctrls := c \<rparr> \<rparr>, v)"
      "counters_are ?b c" "minimal_1_settings c = minimal_1_settings (exceptions_ctrls (vmexit_setup s))"
      "minimal_0_settings c = minimal_0_settings (exceptions_ctrls (vmexit_setup s))"
      "\<forall>i < 32. bit v i \<longleftrightarrow> (0 < ?b i \<or> bit (minimal_1_settings c) i) \<and> bit (minimal_0_settings c) i"
    using exceptions_field.calculate_32_counts [OF assms(2,3), of chk] by blast
  let ?s = "s \<lparr> vmexit_setup := (vmexit_setup s) \<lparr> exceptions_ctrls := c \<rparr> \<rparr>"
  define p where "p = (if bit (ucast (bit_field c) :: 32 word) EXCEPTION_BITMAP_PF then EXCEPTIONS_POLICY_CATCH_ALL
    else EXCEPTIONS_POLICY_CATCH_NOTHING)"
  have a: "access (field_data s ! ?f) = WRITABLE" by (rule active_writable [OF assms(1)]) simp
  obtain s1 where s1: "gcpu_set_exceptions_map_layered chk (ucast v) ?s = Some s1"
      "vmcs_becomes ?s ((vmcs_view s)(?f := ucast v)) s1"
    using write_if_changed_becomes [of ?s ?f chk "ucast v"] assms(1) a by (auto simp: gcpu_set_exceptions_map_layered_def)
  note D = vmcs_becomesD [OF s1(2)]
  obtain s2 where s2: "update_pfs_setup chk p s1 = Some s2" "vmcs_active s2" "vmcs_synced s1 \<longrightarrow> vmcs_synced s2"
      "controls_frame s1 s2" "vmexit_setup s2 = vmexit_setup s1"
      "\<forall>g. g \<notin> {VMCS_PAGE_FAULT_ERROR_CODE_MASK, VMCS_PAGE_FAULT_ERROR_CODE_MATCH} \<longrightarrow> vmcs_view s2 g = vmcs_view s1 g"
      "\<forall>err. page_fault_exits s2 err \<longleftrightarrow> p = EXCEPTIONS_POLICY_CATCH_ALL"
    using update_pfs_becomes [OF D(1), of chk p] by blast
  have run: "request_vmexit_on_exceptions chk r m s = Some s2"
    using c(1) s1(1) s2(1) by (simp add: request_vmexit_on_exceptions_def calculate_exceptions_map_def p_def)
  have fr: "controls_frame s s2" by (rule controls_frame_trans [OF setup_becomes_frame [OF s1(2)] s2(4)])
  have pf: "p = EXCEPTIONS_POLICY_CATCH_ALL \<longleftrightarrow> 0 < ?b EXCEPTION_BITMAP_PF"
    using bit_field_positive [OF c(2), of EXCEPTION_BITMAP_PF] by (simp add: p_def bit_simps del: outstanding_simps)
  have "\<forall>i < 32. bit (vmcs_view s2 ?f) i \<longleftrightarrow> control_on (exceptions_ctrls (vmexit_setup s)) ?b i"
    using s2(6) D(2) c(3-5) by (simp add: control_on_def bit_simps del: outstanding_simps)
  then show ?thesis
    using run fr s2(2,3,5,7) D(3,4) c(2) pf by (intro exI [of _ s2]) (simp del: outstanding_simps)
qed

text \<open>The steps after the mask of a control register was computed.\<close>

lemma shadow_becomes:
  assumes "vmcs_active s" "mf \<in> {VMCS_CR0_MASK, VMCS_CR4_MASK}" "vf \<in> {VMCS_GUEST_CR0, VMCS_GUEST_CR4}"
    "sf \<in> {VMCS_CR0_READ_SHADOW, VMCS_CR4_READ_SHADOW}"
  shows "\<exists>s'. do { s1 \<leftarrow> write_if_changed chk mf w s; (s2, v) \<leftarrow> vmcs_read chk vf s1; (s3, sh) \<leftarrow> vmcs_read chk sf s2;
       let w' = w AND NOT (minimal_1_settings (g (vmexit_setup s3)));
       vmcs_write chk sf ((sh AND NOT w') OR (v AND w')) s3 } = Some s' \<and>
    vmcs_becomes s ((vmcs_view s)(mf := w, sf :=
      (vmcs_view s sf AND NOT (w AND NOT (minimal_1_settings (g (vmexit_setup s))))) OR
      (vmcs_view s vf AND (w AND NOT (minimal_1_settings (g (vmexit_setup s))))))) s'"
proof -
  have acc: "access (field_data t ! f) = WRITABLE" if "vmcs_active t" "f \<in> {mf, vf, sf}" for t :: "'a guest_cpu_scheme" and f
    by (rule active_writable [OF that(1)]) (use that(2) assms(2-4) in auto)
  have ne: "mf \<noteq> vf" "mf \<noteq> sf" "sf \<noteq> vf" "mf < VMCS_FIELD_COUNT" "vf < VMCS_FIELD_COUNT" "sf < VMCS_FIELD_COUNT"
    using assms(2-4) by auto
  obtain s1 where s1: "write_if_changed chk mf w s = Some s1" "vmcs_becomes s ((vmcs_view s)(mf := w)) s1"
    using write_if_changed_becomes [OF assms(1) ne(4), of chk w] acc [OF assms(1), of mf] by auto
  note D1 = vmcs_becomesD [OF s1(2)]
  obtain s2 where s2: "vmcs_read chk vf s1 = Some (s2, vmcs_view s vf)" "vmcs_becomes s1 ((vmcs_view s)(mf := w)) s2"
    using read_becomes [OF D1(1), of vf chk] acc [OF D1(1), of vf] ne D1(2) by auto
  note D2 = vmcs_becomesD [OF s2(2)]
  obtain s3 where s3: "vmcs_read chk sf s2 = Some (s3, vmcs_view s sf)" "vmcs_becomes s2 ((vmcs_view s)(mf := w)) s3"
    using read_becomes [OF D2(1), of sf chk] acc [OF D2(1), of sf] ne D2(2) by auto
  note D3 = vmcs_becomesD [OF s3(2)]
  let ?w = "w AND NOT (minimal_1_settings (g (vmexit_setup s)))"
  have g: "vmexit_setup s3 = vmexit_setup s" using D1(4) D2(4) D3(4) by simp
  obtain s4 where s4: "vmcs_write chk sf ((vmcs_view s sf AND NOT ?w) OR (vmcs_view s vf AND ?w)) s3 = Some s4"
      "vmcs_becomes s3 ((vmcs_view s)(mf := w, sf := (vmcs_view s sf AND NOT ?w) OR (vmcs_view s vf AND ?w))) s4"
    using write_becomes [OF D3(1), of sf chk] acc [OF D3(1), of sf] ne D3(2) by auto
  show ?thesis
    using s1(1) s2(1) s3(1) s4(1) g vmcs_becomes_trans [OF vmcs_becomes_trans [OF vmcs_becomes_trans [OF s1(2) s2(2)] s3(2)] s4(2)]
    by (intro exI [of _ s4]) simp
qed

lemma request_cr0_spec:
  assumes "vmcs_active s" "counters_are b (cr0 (vmexit_setup s))" "\<forall>i < 64. in_range (b i + outstanding i [(r, m)])"
  shows "\<exists>s'. request_vmexit_on_cr0 chk r m s = Some s' \<and> vmcs_active s' \<and> (vmcs_synced s \<longrightarrow> vmcs_synced s') \<and>
    controls_frame s s' \<and> counters_are (\<lambda>i. b i + outstanding i [(r, m)]) (cr0 (vmexit_setup s')) \<and>
    vmcs_view s' VMCS_GUEST_CR0 = vmcs_view s VMCS_GUEST_CR0 \<and>
    (\<forall>i < 64. (bit (vmcs_view s' VMCS_CR0_MASK) i \<longleftrightarrow>
        control_on (cr0 (vmexit_setup s)) (\<lambda>i. b i + outstanding i [(r, m)]) i) \<and>
      (\<not> bit (minimal_1_settings (cr0 (vmexit_setup s))) i \<longrightarrow>
        guest_sees_cr0 s' i = bit (vmcs_view s VMCS_GUEST_CR0) i))"
proof -
  obtain c w where c: "calculate_cr0_reg_mask chk r m s = Some (s \<lparr> vmexit_setup := (vmexit_setup s) \<lparr> cr0 := c \<rparr> \<rparr>, w)"
      "counters_are (\<lambda>i. b i + outstanding i [(r, m)]) c"
      "minimal_1_settings c = minimal_1_settings (cr0 (vmexit_setup s))"
      "minimal_0_settings c = minimal_0_settings (cr0 (vmexit_setup s))"
      "\<forall>i < 64. bit w i \<longleftrightarrow> (0 < b i + outstanding i [(r, m)] \<or> bit (minimal_1_settings c) i) \<and> bit (minimal_0_settings c) i"
    unfolding calculate_cr0_reg_mask_def using cr0_field.calculate_64_counts [OF assms(2,3), of chk] by blast
  let ?s = "s \<lparr> vmexit_setup := (vmexit_setup s) \<lparr> cr0 := c \<rparr> \<rparr>"
  let ?w = "w AND NOT (minimal_1_settings c)"
  let ?sh = "(vmcs_view s VMCS_CR0_READ_SHADOW AND NOT ?w) OR (vmcs_view s VMCS_GUEST_CR0 AND ?w)"
  obtain s' where s': "request_vmexit_on_cr0 chk r m s = Some s'"
      "vmcs_becomes ?s ((vmcs_view s)(VMCS_CR0_MASK := w, VMCS_CR0_READ_SHADOW := ?sh)) s'"
    using shadow_becomes [of ?s VMCS_CR0_MASK VMCS_GUEST_CR0 VMCS_CR0_READ_SHADOW chk w cr0] assms(1) c(1)
    by (auto simp: request_vmexit_on_cr0_def gcpu_set_cr0_reg_mask_layered_def)
  note D = vmcs_becomesD [OF s'(2)]
  have "guest_sees_cr0 s' i = bit (vmcs_view s VMCS_GUEST_CR0) i"
    if "i < 64" "\<not> bit (minimal_1_settings (cr0 (vmexit_setup s))) i" for i
    using that c(3) by (auto simp: guest_sees_cr0_def D(2) bit_simps)
  then show ?thesis
    using s' c D(1-4) setup_becomes_frame [OF s'(2)]
    by (intro exI [of _ s']) (simp add: control_on_def del: outstanding_simps)
qed

lemma request_cr4_spec:
  assumes "vmcs_active s" "counters_are b (cr4 (vmexit_setup s))" "\<forall>i < 64. in_range (b i + outstanding i [(r, m)])"
  shows "\<exists>s'. request_vmexit_on_cr4 chk r m s = Some s' \<and> vmcs_active s' \<and> (vmcs_synced s \<longrightarrow> vmcs_synced s') \<and>
    controls_frame s s' \<and> counters_are (\<lambda>i. b i + outstanding i [(r, m)]) (cr4 (vmexit_setup s')) \<and>
    vmcs_view s' VMCS_GUEST_CR4 = vmcs_view s VMCS_GUEST_CR4 \<and>
    (\<forall>i < 64. (bit (vmcs_view s' VMCS_CR4_MASK) i \<longleftrightarrow>
        control_on (cr4 (vmexit_setup s)) (\<lambda>i. b i + outstanding i [(r, m)]) i) \<and>
      (\<not> bit (minimal_1_settings (cr4 (vmexit_setup s))) i \<longrightarrow>
        guest_sees_cr4 s' i = bit (vmcs_view s VMCS_GUEST_CR4) i))"
proof -
  obtain c w where c: "calculate_cr4_reg_mask chk r m s = Some (s \<lparr> vmexit_setup := (vmexit_setup s) \<lparr> cr4 := c \<rparr> \<rparr>, w)"
      "counters_are (\<lambda>i. b i + outstanding i [(r, m)]) c"
      "minimal_1_settings c = minimal_1_settings (cr4 (vmexit_setup s))"
      "minimal_0_settings c = minimal_0_settings (cr4 (vmexit_setup s))"
      "\<forall>i < 64. bit w i \<longleftrightarrow> (0 < b i + outstanding i [(r, m)] \<or> bit (minimal_1_settings c) i) \<and> bit (minimal_0_settings c) i"
    unfolding calculate_cr4_reg_mask_def using cr4_field.calculate_64_counts [OF assms(2,3), of chk] by blast
  let ?s = "s \<lparr> vmexit_setup := (vmexit_setup s) \<lparr> cr4 := c \<rparr> \<rparr>"
  let ?w = "w AND NOT (minimal_1_settings c)"
  let ?sh = "(vmcs_view s VMCS_CR4_READ_SHADOW AND NOT ?w) OR (vmcs_view s VMCS_GUEST_CR4 AND ?w)"
  obtain s' where s': "request_vmexit_on_cr4 chk r m s = Some s'"
      "vmcs_becomes ?s ((vmcs_view s)(VMCS_CR4_MASK := w, VMCS_CR4_READ_SHADOW := ?sh)) s'"
    using shadow_becomes [of ?s VMCS_CR4_MASK VMCS_GUEST_CR4 VMCS_CR4_READ_SHADOW chk w cr4] assms(1) c(1)
    by (auto simp: request_vmexit_on_cr4_def gcpu_set_cr4_reg_mask_layered_def)
  note D = vmcs_becomesD [OF s'(2)]
  have "guest_sees_cr4 s' i = bit (vmcs_view s VMCS_GUEST_CR4) i"
    if "i < 64" "\<not> bit (minimal_1_settings (cr4 (vmexit_setup s))) i" for i
    using that c(3) by (auto simp: guest_sees_cr4_def D(2) bit_simps)
  then show ?thesis
    using s' c D(1-4) setup_becomes_frame [OF s'(2)]
    by (intro exI [of _ s']) (simp add: control_on_def del: outstanding_simps)
qed

section \<open>Properties\<close>

lemma no_requests_counters [simp]: "counters_are (\<lambda>_. 0) no_requests"
  by (simp add: counters_are_def field_ok_def no_requests_def)

lemma gcpu_example_simps [simp]:
  "vmexit_setup gcpu_example = \<lparr> cr0 = no_requests, cr4 = no_requests, pin_ctrls = no_requests,
     processor_ctrls = no_requests, processor_ctrls2 = no_requests, exceptions_ctrls = no_requests,
     vm_entry_ctrls = no_requests, vm_exit_ctrls = no_requests, setup_lock = False \<rparr>"
  "fixed (plat gcpu_example) = determine_fixed_values (constraints (plat gcpu_example))"
  by (simp_all add: gcpu_example_def vmcs_object.defs guest_cpu.defs)

lemma gcpu_example_ok: "vmcs_active gcpu_example" "vmcs_synced gcpu_example"
  using vmcs_example_ok
  by (simp_all add: gcpu_example_def vmcs_object.defs guest_cpu.defs vmcs_active_def vmcs_synced_def vmcs_hw_def)

text \<open>
  C34. Requests for VM exits are counted.  After any sequence of requests and withdrawals that keeps the
  number of outstanding requests for each bit between 0 and 255, the counters hold these numbers and the
  bit field has exactly the bits with an outstanding request.  A build with checks stops at the first
  request that leaves the range, so it never gets past a withdrawal without a request.
\<close>

theorem vmexit_requests_counted:
  assumes "counters_are b c"
  shows "((\<forall>n. \<forall>i < 64. in_range (b i + outstanding i (take n rs))) \<longrightarrow>
      (\<exists>c'. count_requests chk rs c = Some c' \<and>
        (\<forall>i < 64. uint (counters c' ! i) = b i + outstanding i rs \<and>
           (bit (bit_field c') i \<longleftrightarrow> 0 < b i + outstanding i rs)))) \<and>
    ((\<exists>n. \<exists>i < 64. \<not> in_range (b i + outstanding i (take n rs))) \<longrightarrow> count_requests True rs c = None)"
proof (intro conjI impI)
  assume "\<forall>n. \<forall>i < 64. in_range (b i + outstanding i (take n rs))"
  from count_requests_ok [OF assms this, of chk] obtain c' where c': "count_requests chk rs c = Some c'"
    "counters_are (\<lambda>i. b i + outstanding i rs) c'" by blast
  then show "\<exists>c'. count_requests chk rs c = Some c' \<and> (\<forall>i < 64. uint (counters c' ! i) = b i + outstanding i rs \<and>
      (bit (bit_field c') i \<longleftrightarrow> 0 < b i + outstanding i rs))"
    using bit_field_positive [OF c'(2)] by (auto simp: counters_are_def)
next
  assume "\<exists>n. \<exists>i < 64. \<not> in_range (b i + outstanding i (take n rs))"
  then show "count_requests True rs c = None" using count_requests_refused [OF assms] by blast
qed

theorem vmexit_requests_counted_witness:
  "(\<exists>c'. count_requests True [(1, 1), (1, 1), (0, 1)] no_requests = Some c' \<and> bit (bit_field c') 0) \<and>
     count_requests True [(1, 1), (0, 1), (0, 1)] no_requests = None"
proof
  let ?rs = "[(1, 1), (1, 1), (0, 1)] :: (64 word \<times> 64 word) list"
  have "\<forall>n. \<forall>i < 64. in_range (0 + outstanding i (take n ?rs))"
    by (simp add: in_range_def outstanding_def bit_1_iff take_Cons split: nat.splits)
  moreover have "0 < 0 + outstanding 0 ?rs" by (simp add: outstanding_def bit_1_iff)
  ultimately show "\<exists>c'. count_requests True ?rs no_requests = Some c' \<and> bit (bit_field c') 0"
    using vmexit_requests_counted [OF no_requests_counters, of ?rs True] by (metis zero_less_numeral)
next
  have "\<exists>n. \<exists>i < 64. \<not> in_range (0 + outstanding i (take n [(1, 1), (0, 1), (0, 1)]))"
    by (rule exI [of _ 3], rule exI [of _ 0]) (simp add: in_range_def outstanding_def bit_1_iff)
  then show "count_requests True [(1, 1), (0, 1), (0, 1)] no_requests = None"
    using vmexit_requests_counted [OF no_requests_counters] by blast
qed

lemma request_pin_spec:
  assumes "vmcs_active s" "counters_are b (pin_ctrls (vmexit_setup s))"
    "\<forall>i < 64. in_range (b i + outstanding i [(ucast r, ucast m)])"
  shows "\<exists>s'. request_vmexit_on_pin_ctrls chk r m s = Some s' \<and>
    vmcs_active s' \<and> (vmcs_synced s \<longrightarrow> vmcs_synced s') \<and> controls_frame s s' \<and>
    counters_are (\<lambda>i. b i + outstanding i [(ucast r, ucast m)]) (pin_ctrls (vmexit_setup s')) \<and>
    (\<forall>g. g \<noteq> VMCS_CONTROL_VECTOR_PIN_EVENTS \<longrightarrow> vmcs_view s' g = vmcs_view s g) \<and>
    (\<forall>i < 32. bit (vmcs_view s' VMCS_CONTROL_VECTOR_PIN_EVENTS) i \<longleftrightarrow>
       control_on (pin_ctrls (vmexit_setup s)) (\<lambda>i. b i + outstanding i [(ucast r, ucast m)]) i)"
  unfolding request_vmexit_on_pin_ctrls_def calculate_pin_ctrls_def gcpu_set_pin_ctrls_layered_def
  by (rule pin_field.request_32 [OF assms(1) _ _ assms(2,3)]) (simp_all add: active_writable [OF assms(1)])

lemma request_exit_spec:
  assumes "vmcs_active s" "counters_are b (vm_exit_ctrls (vmexit_setup s))"
    "\<forall>i < 64. in_range (b i + outstanding i [(ucast r, ucast m)])"
  shows "\<exists>s'. request_vmexit_on_vm_exit_ctrls chk r m s = Some s' \<and>
    vmcs_active s' \<and> (vmcs_synced s \<longrightarrow> vmcs_synced s') \<and> controls_frame s s' \<and>
    counters_are (\<lambda>i. b i + outstanding i [(ucast r, ucast m)]) (vm_exit_ctrls (vmexit_setup s')) \<and>
    (\<forall>g. g \<noteq> VMCS_EXIT_CONTROL_VECTOR \<longrightarrow> vmcs_view s' g = vmcs_view s g) \<and>
    (\<forall>i < 32. bit (vmcs_view s' VMCS_EXIT_CONTROL_VECTOR) i \<longleftrightarrow>
       control_on (vm_exit_ctrls (vmexit_setup s)) (\<lambda>i. b i + outstanding i [(ucast r, ucast m)]) i)"
  unfolding request_vmexit_on_vm_exit_ctrls_def calculate_exit_ctrls_def gcpu_set_exit_ctrls_layered_def
  by (rule exit_field.request_32 [OF assms(1) _ _ assms(2,3)]) (simp_all add: active_writable [OF assms(1)])

text \<open>
  C35. The VM-exit controls in the VMCS are what the outstanding requests and the minimal settings ask for.
  A request on the pin-based, processor-based, VM-exit or exception controls that keeps the counts in range
  returns with an active VMCS that is synchronised if it was, changes the guest CPU in the setup of the controls and the VMCS cache only,
  counts the request, and leaves a control on exactly if a request for it is outstanding or the VMM needs
  it, and the processor allows it.  The monitor trap flag alone keeps its value in the VMCS, and page
  faults exit, whatever their error code, exactly if a request for the page-fault vector is outstanding.
\<close>

theorem requests_set_controls:
  fixes r m :: "32 word"
  assumes "vmcs_active s" "\<forall>i < 64. in_range (b i + outstanding i [(ucast r, ucast m)])"
  defines "b' \<equiv> \<lambda>i. b i + outstanding i [(ucast r, ucast m)]"
  shows
    "(counters_are b (pin_ctrls (vmexit_setup s)) \<longrightarrow>
       (\<exists>s'. request_vmexit_on_pin_ctrls chk r m s = Some s' \<and>
          vmcs_active s' \<and> (vmcs_synced s \<longrightarrow> vmcs_synced s') \<and> controls_frame s s' \<and>
          counters_are b' (pin_ctrls (vmexit_setup s')) \<and>
          (\<forall>g. g \<noteq> VMCS_CONTROL_VECTOR_PIN_EVENTS \<longrightarrow> vmcs_view s' g = vmcs_view s g) \<and>
          (\<forall>i < 32. bit (vmcs_view s' VMCS_CONTROL_VECTOR_PIN_EVENTS) i \<longleftrightarrow>
             control_on (pin_ctrls (vmexit_setup s)) b' i))) \<and>
     (counters_are b (processor_ctrls (vmexit_setup s)) \<longrightarrow>
       (\<exists>s'. request_vmexit_on_proc_ctrls chk r m s = Some s' \<and>
          vmcs_active s' \<and> (vmcs_synced s \<longrightarrow> vmcs_synced s') \<and> controls_frame s s' \<and>
          counters_are b' (processor_ctrls (vmexit_setup s')) \<and>
          (\<forall>g. g \<noteq> VMCS_CONTROL_VECTOR_PROCESSOR_EVENTS \<longrightarrow> vmcs_view s' g = vmcs_view s g) \<and>
          (\<forall>i < 32. bit (vmcs_view s' VMCS_CONTROL_VECTOR_PROCESSOR_EVENTS) i \<longleftrightarrow>
             (if i = PROC_MonitorTrapFlag then bit (vmcs_view s VMCS_CONTROL_VECTOR_PROCESSOR_EVENTS) i
              else control_on (processor_ctrls (vmexit_setup s)) b' i)))) \<and>
     (counters_are b (vm_exit_ctrls (vmexit_setup s)) \<longrightarrow>
       (\<exists>s'. request_vmexit_on_vm_exit_ctrls chk r m s = Some s' \<and>
          vmcs_active s' \<and> (vmcs_synced s \<longrightarrow> vmcs_synced s') \<and> controls_frame s s' \<and>
          counters_are b' (vm_exit_ctrls (vmexit_setup s')) \<and>
          (\<forall>g. g \<noteq> VMCS_EXIT_CONTROL_VECTOR \<longrightarrow> vmcs_view s' g = vmcs_view s g) \<and>
          (\<forall>i < 32. bit (vmcs_view s' VMCS_EXIT_CONTROL_VECTOR) i \<longleftrightarrow>
             control_on (vm_exit_ctrls (vmexit_setup s)) b' i))) \<and>
     (counters_are b (exceptions_ctrls (vmexit_setup s)) \<longrightarrow>
       (\<exists>s'. request_vmexit_on_exceptions chk r m s = Some s' \<and>
          vmcs_active s' \<and> (vmcs_synced s \<longrightarrow> vmcs_synced s') \<and> controls_frame s s' \<and>
          counters_are b' (exceptions_ctrls (vmexit_setup s')) \<and>
          (\<forall>i < 32. bit (vmcs_view s' VMCS_EXCEPTION_BITMAP) i \<longleftrightarrow>
             control_on (exceptions_ctrls (vmexit_setup s)) b' i) \<and>
          (\<forall>err. page_fault_exits s' err \<longleftrightarrow> 0 < b' EXCEPTION_BITMAP_PF)))"
  unfolding b'_def
  by (intro conjI impI request_pin_spec request_proc_spec request_exit_spec request_exceptions_spec assms(1,2))

lemma one_request:
  assumes "\<not> bit (m :: 64 word) i \<or> bit (r :: 64 word) i"
  shows "in_range (0 + outstanding i [(r, m)])"
  using assms by (simp add: outstanding_def in_range_def)

theorem requests_set_controls_witness:
  "(\<exists>s'. request_vmexit_on_pin_ctrls True 1 1 gcpu_example = Some s' \<and>
      bit (vmcs_view s' VMCS_CONTROL_VECTOR_PIN_EVENTS) PIN_ExternalInterrupt) \<and>
   (\<exists>s'. request_vmexit_on_exceptions True 0x4000 0x4000 gcpu_example = Some s' \<and> page_fault_exits s' 7)"
proof
  have "\<forall>i < 64. in_range (0 + outstanding i [(ucast (1 :: 32 word), ucast (1 :: 32 word))])"
    using one_request by blast
  note R = requests_set_controls [OF gcpu_example_ok(1) this, of True]
  have on: "control_on no_requests (\<lambda>i. 0 + outstanding i [(ucast (1 :: 32 word), ucast (1 :: 32 word))]) PIN_ExternalInterrupt"
    by (simp add: control_on_def no_requests_def outstanding_def)
  show "\<exists>s'. request_vmexit_on_pin_ctrls True 1 1 gcpu_example = Some s' \<and>
      bit (vmcs_view s' VMCS_CONTROL_VECTOR_PIN_EVENTS) PIN_ExternalInterrupt"
    using R [THEN conjunct1] on by fastforce
next
  have "\<forall>i < 64. in_range (0 + outstanding i [(ucast (0x4000 :: 32 word), ucast (0x4000 :: 32 word))])"
    using one_request by blast
  note R = requests_set_controls [OF gcpu_example_ok(1) this, of True]
  have on: "0 < 0 + outstanding EXCEPTION_BITMAP_PF [(ucast (0x4000 :: 32 word), ucast (0x4000 :: 32 word))]"
    by (simp add: outstanding_def)
  show "\<exists>s'. request_vmexit_on_exceptions True 0x4000 0x4000 gcpu_example = Some s' \<and> page_fault_exits s' 7"
    using R [THEN conjunct2, THEN conjunct2, THEN conjunct2] on by fastforce
qed

text \<open>
  C36. The control registers of the guest.  A request on bits of CR0 or CR4 that keeps the counts in range
  returns, counts the request and leaves the register itself as it was.  Afterwards a guest write to a bit
  exits exactly if a request for it is outstanding or the VMM needs it, and every bit that the VMM does not
  own for good reads to the guest as the bit of the real register: taking a bit over does not change what
  the guest sees.
\<close>

theorem requests_keep_control_registers:
  assumes "vmcs_active s" "\<forall>i < 64. in_range (b i + outstanding i [(r, m)])"
  defines "b' \<equiv> \<lambda>i. b i + outstanding i [(r, m)]"
  shows
    "(counters_are b (cr0 (vmexit_setup s)) \<longrightarrow>
       (\<exists>s'. request_vmexit_on_cr0 chk r m s = Some s' \<and> vmcs_active s' \<and> (vmcs_synced s \<longrightarrow> vmcs_synced s') \<and>
          controls_frame s s' \<and> counters_are b' (cr0 (vmexit_setup s')) \<and>
          vmcs_view s' VMCS_GUEST_CR0 = vmcs_view s VMCS_GUEST_CR0 \<and>
          (\<forall>i < 64. (bit (vmcs_view s' VMCS_CR0_MASK) i \<longleftrightarrow> control_on (cr0 (vmexit_setup s)) b' i) \<and>
            (\<not> bit (minimal_1_settings (cr0 (vmexit_setup s))) i \<longrightarrow>
               guest_sees_cr0 s' i = bit (vmcs_view s VMCS_GUEST_CR0) i)))) \<and>
     (counters_are b (cr4 (vmexit_setup s)) \<longrightarrow>
       (\<exists>s'. request_vmexit_on_cr4 chk r m s = Some s' \<and> vmcs_active s' \<and> (vmcs_synced s \<longrightarrow> vmcs_synced s') \<and>
          controls_frame s s' \<and> counters_are b' (cr4 (vmexit_setup s')) \<and>
          vmcs_view s' VMCS_GUEST_CR4 = vmcs_view s VMCS_GUEST_CR4 \<and>
          (\<forall>i < 64. (bit (vmcs_view s' VMCS_CR4_MASK) i \<longleftrightarrow> control_on (cr4 (vmexit_setup s)) b' i) \<and>
            (\<not> bit (minimal_1_settings (cr4 (vmexit_setup s))) i \<longrightarrow>
               guest_sees_cr4 s' i = bit (vmcs_view s VMCS_GUEST_CR4) i))))"
  unfolding b'_def by (intro conjI impI request_cr0_spec request_cr4_spec assms(1,2))

theorem requests_keep_control_registers_witness:
  "\<exists>s'. request_vmexit_on_cr0 True CR0_WP CR0_WP gcpu_example = Some s' \<and> bit (vmcs_view s' VMCS_CR0_MASK) 16 \<and>
     guest_sees_cr0 s' 16 = bit (vmcs_view gcpu_example VMCS_GUEST_CR0) 16"
proof -
  have "\<forall>i < 64. in_range (0 + outstanding i [(CR0_WP, CR0_WP)])"
    using one_request by blast
  note R = requests_keep_control_registers [OF gcpu_example_ok(1) this, of True, THEN conjunct1]
  have "control_on no_requests (\<lambda>i. 0 + outstanding i [(CR0_WP, CR0_WP)]) 16" "\<not> bit (minimal_1_settings no_requests) 16"
    by (simp_all add: control_on_def no_requests_def outstanding_def)
  then show ?thesis using R by (fastforce simp del: outstanding_simps)
qed

lemmas compliant_functions =
  vmcs_hw_make_compliant_pin_based_exec_ctrl_def [abs_def] vmcs_hw_make_compliant_vm_exit_ctrl_def [abs_def]
  vmcs_hw_make_compliant_vm_entry_ctrl_def [abs_def] vmcs_hw_make_compliant_processor_based_exec_ctrl_def [abs_def]
  vmcs_hw_make_compliant_processor_based_exec_ctrl2_def [abs_def]
  vmcs_hw_make_compliant_cr0_def [abs_def] vmcs_hw_make_compliant_cr4_def [abs_def]

lemma init_minimal_controls_release: "\<exists>s'. init_minimal_controls False s = Some s'"
  by (simp add: init_minimal_controls_def set_minimal_pin_ctrls_def set_minimal_processor_ctrls_def
      set_minimal_entry_ctrls_def set_minimal_exit_ctrls_def Let_def)

lemma cr0_mask_fixed:
  assumes "i < 64" "bit (fixed_1_cr0 (fixed p)) i \<or> \<not> bit (fixed_0_cr0 (fixed p)) i"
  shows "bit (GET_FINAL_SETTINGS (set_minimal_cr0_reg_mask p c) m) i"
proof -
  have "bit (GET_FIXED_MASK (vmcs_hw_make_compliant_cr0 (fixed p))) i"
    using fixed_mask_bit [OF assms(2)] assms(1) by (simp add: compliant_functions)
  then show ?thesis
    using assms(1) unfolding set_minimal_cr0_reg_mask_def GET_FINAL_SETTINGS_def Let_def by (simp add: bit_or_iff bit_and_iff)
qed

lemma cr4_mask_fixed:
  assumes "i < 64" "bit (fixed_1_cr4 (fixed p)) i \<or> \<not> bit (fixed_0_cr4 (fixed p)) i"
  shows "bit (GET_FINAL_SETTINGS (set_minimal_cr4_reg_mask p c) m) i"
proof -
  have "bit (GET_FIXED_MASK (vmcs_hw_make_compliant_cr4 (fixed p))) i"
    using fixed_mask_bit [OF assms(2)] assms(1) by (simp add: compliant_functions)
  then show ?thesis
    using assms(1) unfolding set_minimal_cr4_reg_mask_def GET_FINAL_SETTINGS_def Let_def by (simp add: bit_or_iff bit_and_iff)
qed

lemma init_minimal_cr3:
  assumes "init_minimal_controls chk s = Some s'" "pg_policy_ept (plat s)" "i = PROC_Cr3Load \<or> i = PROC_Cr3Store"
  shows "\<not> bit (minimal_1_settings (processor_ctrls (vmexit_setup s'))) i"
  using assms
  by (auto simp: init_minimal_controls_def set_minimal_processor_ctrls_def Let_def bind_eq_Some_conv bit_simps split: if_splits)

lemma final_compliant_cr3:
  assumes "bits_below x1 x0" "minimal_for E (\<lambda>v. (v AND x0) OR x1) c"
    "\<forall>i \<in> E. \<not> bit (minimal_1_settings c) i"
  shows "compliant {} x1 x0 (ucast (GET_FINAL_SETTINGS c m)) \<longleftrightarrow> (\<forall>i \<in> E. bit x1 i \<longrightarrow> bit m i)"
proof -
  have l: "bit w i \<Longrightarrow> i < 32" "bit w i \<Longrightarrow> i < 64" for w :: "32 word" and i
    using bit_imp_le_length [of w i] by simp_all
  have e: "bit (ucast (GET_FINAL_SETTINGS c m) :: 32 word) i \<longleftrightarrow> bit m i" if "i \<in> E" "bit x1 i" for i
    using that assms l(1) [OF that(2)]
    by (auto simp: minimal_for_def GET_FINAL_SETTINGS_def bits_below_def bit_simps)
  show ?thesis
    using final_compliant [OF assms(1,2), of m] e by (auto simp: compliant_def)
qed



end
