(* ===== verification/VmmGuestAccess.thy ===== *)
theory VmmGuestAccess
  imports VmmGuestControl
begin

unbundle bit_operations_syntax

text \<open>
  The registers of a guest CPU (\<^verbatim>\<open>vmm/guest/guest_cpu/guest_cpu_access.c\<close>).  Most general registers
  are in the save area of the guest CPU; RSP, RIP and RFLAGS are fields of the VMCS, and their cells of
  the save area hold CR2, CR8 and the guest's CR3 instead.  The notifications of
  \<^verbatim>\<open>vmm/startup/vmm_extension.c\<close> have no effect besides the returned status.
\<close>

section \<open>Registers\<close>

abbreviation (input) IA32_REG_RSP :: nat where "IA32_REG_RSP \<equiv> 7"
abbreviation (input) IA32_REG_RIP :: nat where "IA32_REG_RIP \<equiv> 16"
abbreviation (input) IA32_REG_RFLAGS :: nat where "IA32_REG_RFLAGS \<equiv> 17"
abbreviation (input) IA32_REG_GP_COUNT :: nat where "IA32_REG_GP_COUNT \<equiv> 18"

abbreviation (input) CR2_SAVE_AREA :: nat where "CR2_SAVE_AREA \<equiv> IA32_REG_RSP"
abbreviation (input) CR3_SAVE_AREA :: nat where "CR3_SAVE_AREA \<equiv> IA32_REG_RFLAGS"
abbreviation (input) CR8_SAVE_AREA :: nat where "CR8_SAVE_AREA \<equiv> IA32_REG_RIP"
abbreviation (input) INVALID_CR3_SAVED_VALUE :: "64 word" where "INVALID_CR3_SAVED_VALUE \<equiv> - 1"

abbreviation (input) IA32_CTRL_CR0 :: nat where "IA32_CTRL_CR0 \<equiv> 0"
abbreviation (input) IA32_CTRL_CR2 :: nat where "IA32_CTRL_CR2 \<equiv> 1"
abbreviation (input) IA32_CTRL_CR3 :: nat where "IA32_CTRL_CR3 \<equiv> 2"
abbreviation (input) IA32_CTRL_CR4 :: nat where "IA32_CTRL_CR4 \<equiv> 3"
abbreviation (input) IA32_CTRL_CR8 :: nat where "IA32_CTRL_CR8 \<equiv> 4"
abbreviation (input) IA32_CTRL_COUNT :: nat where "IA32_CTRL_COUNT \<equiv> 5"

abbreviation (input) GCPU_EXCEPTION_RESOLUTION_REQUIRED_FLAG :: nat where
  "GCPU_EXCEPTION_RESOLUTION_REQUIRED_FLAG \<equiv> 4"
abbreviation (input) GCPU_IMPORTANT_EVENT_OCCURED_FLAG :: nat where "GCPU_IMPORTANT_EVENT_OCCURED_FLAG \<equiv> 7"

datatype uvmm_event =
    UVMM_EVENT_INITIALIZATION_BEFORE_APS_STARTED | UVMM_EVENT_INITIALIZATION_AFTER_APS_STARTED
  | UVMM_EVENT_EPT_VIOLATION | UVMM_EVENT_MTF_VMEXIT | UVMM_EVENT_CR_ACCESS | UVMM_EVENT_DR_LOAD_ACCESS
  | UVMM_EVENT_LDTR_LOAD_ACCESS | UVMM_EVENT_GDTR_IDTR_ACCESS | UVMM_EVENT_MSR_READ_ACCESS
  | UVMM_EVENT_MSR_WRITE_ACCESS | UVMM_EVENT_SET_ACTIVE_EPTP | UVMM_EVENT_INITIAL_VMEXIT_CHECK
  | UVMM_EVENT_SINGLE_STEPPING_CHECK | UVMM_EVENT_VMM_TEARDOWN | UVMM_EVENT_INVALID_FAST_VIEW_SWITCH
  | UVMM_EVENT_VMX_PREEMPTION_TIMER | UVMM_EVENT_HALT_INSTRUCTION | UVMM_EVENT_IO_INSTRUCTION
  | UVMM_EVENT_NMI | UVMM_EVENT_LOG | UVMM_EVENT_UPDATE_ACTIVE_VIEW | UVMM_EVENT_VMM_ASSERT

definition report_uvmm_event :: "uvmm_event \<Rightarrow> bool" where
  "report_uvmm_event event = (case event of
       UVMM_EVENT_CR_ACCESS \<Rightarrow> False
     | UVMM_EVENT_INITIAL_VMEXIT_CHECK \<Rightarrow> False
     | _ \<Rightarrow> True)"

definition gcpu_get_native_gp_reg_layered ::
    "bool \<Rightarrow> nat \<Rightarrow> 'a guest_cpu_scheme \<Rightarrow> ('a guest_cpu_scheme \<times> 64 word) option" where
  "gcpu_get_native_gp_reg_layered chk reg s = do {
     vmm_assert chk (reg < IA32_REG_GP_COUNT);
     if reg = IA32_REG_RSP then vmcs_read chk VMCS_GUEST_RSP s
     else if reg = IA32_REG_RIP then vmcs_read chk VMCS_GUEST_RIP s
     else if reg = IA32_REG_RFLAGS then vmcs_read chk VMCS_GUEST_RFLAGS s
     else do {
       v \<leftarrow> arr_get (save_area_gp s) reg;
       Some (s, v)
     }
   }"

definition gcpu_set_native_gp_reg_layered ::
    "bool \<Rightarrow> nat \<Rightarrow> 64 word \<Rightarrow> 'a guest_cpu_scheme \<Rightarrow> 'a guest_cpu_scheme option" where
  "gcpu_set_native_gp_reg_layered chk reg val s = do {
     vmm_assert chk (reg < IA32_REG_GP_COUNT);
     if reg = IA32_REG_RSP then vmcs_write chk VMCS_GUEST_RSP val s
     else if reg = IA32_REG_RIP then vmcs_write chk VMCS_GUEST_RIP val s
     else if reg = IA32_REG_RFLAGS then vmcs_write chk VMCS_GUEST_RFLAGS val s
     else do {
       regs \<leftarrow> arr_set (save_area_gp s) reg val;
       Some (s \<lparr> save_area_gp := regs \<rparr>)
     }
   }"

definition gcpu_get_control_reg_layered ::
    "bool \<Rightarrow> nat \<Rightarrow> 'a guest_cpu_scheme \<Rightarrow> ('a guest_cpu_scheme \<times> 64 word) option" where
  "gcpu_get_control_reg_layered chk reg s = do {
     vmm_assert chk (reg < IA32_CTRL_COUNT);
     if reg = IA32_CTRL_CR0 then vmcs_read chk VMCS_GUEST_CR0 s
     else if reg = IA32_CTRL_CR2 then do { v \<leftarrow> arr_get (save_area_gp s) CR2_SAVE_AREA; Some (s, v) }
     else if reg = IA32_CTRL_CR3 then vmcs_read chk VMCS_GUEST_CR3 s
     else if reg = IA32_CTRL_CR4 then vmcs_read chk VMCS_GUEST_CR4 s
     else if reg = IA32_CTRL_CR8 then do { v \<leftarrow> arr_get (save_area_gp s) CR8_SAVE_AREA; Some (s, v) }
     else do { vmm_deadloop chk; Some (s, 0) }
   }"

text \<open>There is one VMCS, so the values of CR0 and CR4 are always made compliant.\<close>

definition gcpu_set_control_reg_layered ::
    "bool \<Rightarrow> nat \<Rightarrow> 64 word \<Rightarrow> 'a guest_cpu_scheme \<Rightarrow> 'a guest_cpu_scheme option" where
  "gcpu_set_control_reg_layered chk reg val s = do {
     vmm_assert chk (reg < IA32_CTRL_COUNT);
     if reg = IA32_CTRL_CR0 then vmcs_write chk VMCS_GUEST_CR0 (vmcs_hw_make_compliant_cr0 (fixed (plat s)) val) s
     else if reg = IA32_CTRL_CR2 then do {
       regs \<leftarrow> arr_set (save_area_gp s) CR2_SAVE_AREA val;
       Some (s \<lparr> save_area_gp := regs \<rparr>)
     }
     else if reg = IA32_CTRL_CR3 then vmcs_write chk VMCS_GUEST_CR3 val s
     else if reg = IA32_CTRL_CR4 then vmcs_write chk VMCS_GUEST_CR4 (vmcs_hw_make_compliant_cr4 (fixed (plat s)) val) s
     else if reg = IA32_CTRL_CR8 then do {
       regs \<leftarrow> arr_set (save_area_gp s) CR8_SAVE_AREA (vmcs_hw_make_compliant_cr8 val);
       Some (s \<lparr> save_area_gp := regs \<rparr>)
     }
     else do { vmm_deadloop chk; Some s }
   }"

definition gcpu_get_guest_visible_control_reg_layered ::
    "bool \<Rightarrow> nat \<Rightarrow> 'a guest_cpu_scheme \<Rightarrow> ('a guest_cpu_scheme \<times> 64 word) option" where
  "gcpu_get_guest_visible_control_reg_layered chk reg s =
     (if reg = IA32_CTRL_CR3
      then do {
        real_value \<leftarrow> arr_get (save_area_gp s) CR3_SAVE_AREA;
        if real_value = INVALID_CR3_SAVED_VALUE then gcpu_get_control_reg_layered chk IA32_CTRL_CR3 s
        else Some (s, real_value)
      }
      else do {
        (s, real_value) \<leftarrow> gcpu_get_control_reg_layered chk reg s;
        if reg = IA32_CTRL_CR0 then do {
          (s, bits) \<leftarrow> vmcs_read chk VMCS_CR0_MASK s;
          (s, shadow) \<leftarrow> vmcs_read chk VMCS_CR0_READ_SHADOW s;
          Some (s, (real_value AND NOT bits) OR (shadow AND bits))
        }
        else if reg = IA32_CTRL_CR4 then do {
          (s, bits) \<leftarrow> vmcs_read chk VMCS_CR4_MASK s;
          (s, shadow) \<leftarrow> vmcs_read chk VMCS_CR4_READ_SHADOW s;
          Some (s, (real_value AND NOT bits) OR (shadow AND bits))
        }
        else Some (s, real_value)
      })"

definition gcpu_set_guest_visible_control_reg_layered ::
    "bool \<Rightarrow> nat \<Rightarrow> 64 word \<Rightarrow> 'a guest_cpu_scheme \<Rightarrow> 'a guest_cpu_scheme option" where
  "gcpu_set_guest_visible_control_reg_layered chk reg val s =
     (if reg = IA32_CTRL_CR3 then do {
        regs \<leftarrow> arr_set (save_area_gp s) CR3_SAVE_AREA val;
        Some (s \<lparr> save_area_gp := regs \<rparr>)
      }
      else if reg = IA32_CTRL_CR0 then
        vmcs_write chk VMCS_CR0_READ_SHADOW val
          (s \<lparr> state_flags := set_bit GCPU_IMPORTANT_EVENT_OCCURED_FLAG (state_flags s) \<rparr>)
      else if reg = IA32_CTRL_CR4 then vmcs_write chk VMCS_CR4_READ_SHADOW val s
      else gcpu_set_control_reg_layered chk reg val s)"

definition gcpu_skip_guest_instruction :: "bool \<Rightarrow> 'a guest_cpu_scheme \<Rightarrow> 'a guest_cpu_scheme option" where
  "gcpu_skip_guest_instruction chk s = do {
     (s, inst_length) \<leftarrow> vmcs_read chk VMCS_EXIT_INFO_INSTRUCTION_LENGTH s;
     (s, rip) \<leftarrow> vmcs_read chk VMCS_GUEST_RIP s;
     s \<leftarrow> vmcs_write chk VMCS_GUEST_RIP (rip + inst_length) s;
     let status = report_uvmm_event UVMM_EVENT_SINGLE_STEPPING_CHECK;
     Some s
   }"

section \<open>Specification\<close>

text \<open>A computation returns, with a result that satisfies \<open>Q\<close>.\<close>

definition yields :: "('x \<Rightarrow> bool) \<Rightarrow> 'x option \<Rightarrow> bool" where
  "yields Q m \<longleftrightarrow> (\<exists>r. m = Some r \<and> Q r)"

section \<open>Accesses on an active VMCS\<close>

text \<open>Fields that the accesses below may read and write.\<close>

lemma active_readable:
  assumes "vmcs_active s" "f \<in> {2..28} \<union> {30..42} \<union> {44..46} \<union> {49..100} \<union> {108..127} \<union> {131..134}"
  shows "field_readable s f"
proof (cases "f = VMCS_EXIT_INFO_IDT_VECTORING")
  case True
  have "access (field_data s ! f) = map access g_field_data ! f"
    using assms True by (subst active_access [OF assms(1)]) (auto simp: g_field_data_def)
  then show ?thesis unfolding g_field_data_accesses using True by (simp add: nth_append)
next
  case False
  then have "f \<in> {2..28} \<union> {44..46} \<union> {49..100} \<union> {108..127} \<union> {131..134} \<or> f \<in> {30..33} \<union> {35..42}"
    using assms(2) by auto
  then show ?thesis using active_writable [OF assms(1)] active_readonly [OF assms(1)] by auto
qed

lemma active_writeable:
  assumes "vmcs_active s" "f \<in> {2..28} \<union> {34} \<union> {44..46} \<union> {49..100} \<union> {108..127} \<union> {131..134}"
  shows "field_writeable s f"
proof (cases "f = VMCS_EXIT_INFO_IDT_VECTORING")
  case True
  have "access (field_data s ! f) = map access g_field_data ! f"
    using assms True by (subst active_access [OF assms(1)]) (auto simp: g_field_data_def)
  then show ?thesis unfolding g_field_data_accesses using True by (simp add: nth_append)
next
  case False
  then show ?thesis using active_writable [OF assms(1)] assms(2) by auto
qed

text \<open>Rules that step through a sequence of accesses, with the fields of the VMCS tracked from \<open>s\<close>.\<close>

lemma yields_Some: "Q r \<Longrightarrow> yields Q (Some r)"
  by (simp add: yields_def)

lemma yields_assert: "(chk \<Longrightarrow> c) \<Longrightarrow> yields Q (k ()) \<Longrightarrow> yields Q (Option.bind (vmm_assert chk c) k)"
  by (cases chk) (auto simp: vmm_assert_def)

lemma yields_bind: "yields P m \<Longrightarrow> (\<And>r. P r \<Longrightarrow> yields Q (k r)) \<Longrightarrow> yields Q (Option.bind m k)"
  by (auto simp: yields_def)

lemma yields_read:
  assumes "vmcs_becomes s V s1" "f \<in> {2..28} \<union> {30..42} \<union> {44..46} \<union> {49..100} \<union> {108..127} \<union> {131..134}"
    "\<And>s2. vmcs_becomes s V s2 \<Longrightarrow> yields Q (k s2 (V f))"
  shows "yields Q (Option.bind (vmcs_read chk f s1) (case_prod k))"
proof -
  note D = vmcs_becomesD [OF assms(1)]
  obtain s2 where "vmcs_read chk f s1 = Some (s2, V f)" "vmcs_becomes s1 V s2"
    using read_becomes [OF D(1) active_readable [OF D(1) assms(2)], of chk] D(2) by auto
  then show ?thesis using assms(3) [OF vmcs_becomes_trans [OF assms(1)]] by simp
qed

lemma yields_write:
  assumes "vmcs_becomes s V s1" "f \<in> {2..28} \<union> {34} \<union> {44..46} \<union> {49..100} \<union> {108..127} \<union> {131..134}"
    "\<And>s2. vmcs_becomes s (V(f := v)) s2 \<Longrightarrow> yields Q (k s2)"
  shows "yields Q (Option.bind (vmcs_write chk f v s1) k)"
proof -
  note D = vmcs_becomesD [OF assms(1)]
  obtain s2 where "vmcs_write chk f v s1 = Some s2" "vmcs_becomes s1 (V(f := v)) s2"
    using write_becomes [OF D(1) active_writeable [OF D(1) assms(2)], of chk v] D(2) by auto
  then show ?thesis using assms(3) [OF vmcs_becomes_trans [OF assms(1)]] by simp
qed

lemma yields_update:
  assumes "vmcs_becomes s V s1" "f \<in> {2..28} \<union> {44..46} \<union> {49..100} \<union> {108..127} \<union> {131..134}"
    "\<And>s2. vmcs_becomes s (V(f := (V f AND NOT m) OR (v AND m))) s2 \<Longrightarrow> yields Q (k s2)"
  shows "yields Q (Option.bind (vmcs_update chk f v m s1) k)"
proof -
  note D = vmcs_becomesD [OF assms(1)]
  have f: "field_readable s1 f" "field_writeable s1 f"
    using active_readable [OF D(1), of f] active_writeable [OF D(1), of f] assms(2) by auto
  obtain s2 where "vmcs_update chk f v m s1 = Some s2" "vmcs_becomes s1 (V(f := (V f AND NOT m) OR (v AND m))) s2"
    using update_becomes [OF D(1) f, of chk v m] D(2) by auto
  then show ?thesis using assms(3) [OF vmcs_becomes_trans [OF assms(1)]] by simp
qed

text \<open>The control registers that the guest sees are those of the specification of the controls.\<close>

lemma gcpu_get_guest_visible_control_reg_sees:
  assumes "vmcs_active s"
  shows "yields (\<lambda>(s', v). vmcs_becomes s (vmcs_view s) s' \<and> (\<forall>i < 64. bit v i \<longleftrightarrow> guest_sees_cr0 s i))
      (gcpu_get_guest_visible_control_reg_layered chk IA32_CTRL_CR0 s)"
    "yields (\<lambda>(s', v). vmcs_becomes s (vmcs_view s) s' \<and> (\<forall>i < 64. bit v i \<longleftrightarrow> guest_sees_cr4 s i))
      (gcpu_get_guest_visible_control_reg_layered chk IA32_CTRL_CR4 s)"
proof -
  note first = yields_read [OF vmcs_becomes_refl [OF assms]]
  show "yields (\<lambda>(s', v). vmcs_becomes s (vmcs_view s) s' \<and> (\<forall>i < 64. bit v i \<longleftrightarrow> guest_sees_cr0 s i))
      (gcpu_get_guest_visible_control_reg_layered chk IA32_CTRL_CR0 s)"
    unfolding gcpu_get_guest_visible_control_reg_layered_def gcpu_get_control_reg_layered_def
    by (simp, rule first, simp, (erule yields_read, simp)+, rule yields_Some, auto simp: guest_sees_cr0_def bit_simps)
  show "yields (\<lambda>(s', v). vmcs_becomes s (vmcs_view s) s' \<and> (\<forall>i < 64. bit v i \<longleftrightarrow> guest_sees_cr4 s i))
      (gcpu_get_guest_visible_control_reg_layered chk IA32_CTRL_CR4 s)"
    unfolding gcpu_get_guest_visible_control_reg_layered_def gcpu_get_control_reg_layered_def
    by (simp, rule first, simp, (erule yields_read, simp)+, rule yields_Some, auto simp: guest_sees_cr4_def bit_simps)
qed

end
