(* ===== verification/VmmGuestEvent.thy ===== *)
theory VmmGuestEvent
  imports VmmGuestAccess
begin

unbundle bit_operations_syntax

text \<open>
  Events for a guest CPU (\<^verbatim>\<open>vmm/guest/guest_cpu/guest_cpu_vmenter_event.c\<close>): an exception or NMI is
  put into the VM-entry fields of the VMCS if the guest can take it, and is postponed otherwise; an
  exception that caused a VM exit is handed on to the guest, with the rules for double faults.  Local
  variables that the code does not initialise are an argument \<open>stack\<close>.
\<close>

section \<open>Vectors and types of events\<close>

abbreviation (input) IA32_EXCEPTION_VECTOR_DIVIDE_ERROR :: nat where "IA32_EXCEPTION_VECTOR_DIVIDE_ERROR \<equiv> 0"
abbreviation (input) IA32_EXCEPTION_VECTOR_DEBUG_BREAKPOINT :: nat where "IA32_EXCEPTION_VECTOR_DEBUG_BREAKPOINT \<equiv> 1"
abbreviation (input) IA32_EXCEPTION_VECTOR_NMI :: nat where "IA32_EXCEPTION_VECTOR_NMI \<equiv> 2"
abbreviation (input) IA32_EXCEPTION_VECTOR_BREAKPOINT :: nat where "IA32_EXCEPTION_VECTOR_BREAKPOINT \<equiv> 3"
abbreviation (input) IA32_EXCEPTION_VECTOR_UNDEFINED_OPCODE :: nat where "IA32_EXCEPTION_VECTOR_UNDEFINED_OPCODE \<equiv> 6"
abbreviation (input) IA32_EXCEPTION_VECTOR_DOUBLE_FAULT :: nat where "IA32_EXCEPTION_VECTOR_DOUBLE_FAULT \<equiv> 8"
abbreviation (input) IA32_EXCEPTION_VECTOR_INVALID_TASK_SEGMENT_SELECTOR :: nat where
  "IA32_EXCEPTION_VECTOR_INVALID_TASK_SEGMENT_SELECTOR \<equiv> 10"
abbreviation (input) IA32_EXCEPTION_VECTOR_SEGMENT_NOT_PRESENT :: nat where
  "IA32_EXCEPTION_VECTOR_SEGMENT_NOT_PRESENT \<equiv> 11"
abbreviation (input) IA32_EXCEPTION_VECTOR_STACK_SEGMENT_FAULT :: nat where
  "IA32_EXCEPTION_VECTOR_STACK_SEGMENT_FAULT \<equiv> 12"
abbreviation (input) IA32_EXCEPTION_VECTOR_GENERAL_PROTECTION_FAULT :: nat where
  "IA32_EXCEPTION_VECTOR_GENERAL_PROTECTION_FAULT \<equiv> 13"
abbreviation (input) IA32_EXCEPTION_VECTOR_PAGE_FAULT :: nat where "IA32_EXCEPTION_VECTOR_PAGE_FAULT \<equiv> 14"
abbreviation (input) IA32_EXCEPTION_VECTOR_ALIGNMENT_CHECK :: nat where "IA32_EXCEPTION_VECTOR_ALIGNMENT_CHECK \<equiv> 17"
abbreviation (input) IA32_EXCEPTION_VECTOR_VIRTUAL_EXCEPTION :: nat where
  "IA32_EXCEPTION_VECTOR_VIRTUAL_EXCEPTION \<equiv> 20"

abbreviation (input) VmEnterInterruptTypeExternalInterrupt :: nat where "VmEnterInterruptTypeExternalInterrupt \<equiv> 0"
abbreviation (input) VmEnterInterruptTypeNmi :: nat where "VmEnterInterruptTypeNmi \<equiv> 2"
abbreviation (input) VmEnterInterruptTypeHardwareException :: nat where "VmEnterInterruptTypeHardwareException \<equiv> 3"
abbreviation (input) VmEnterInterruptTypeSoftwareInterrupt :: nat where "VmEnterInterruptTypeSoftwareInterrupt \<equiv> 4"
abbreviation (input) VmEnterInterruptTypePrivilegedSoftwareInterrupt :: nat where
  "VmEnterInterruptTypePrivilegedSoftwareInterrupt \<equiv> 5"
abbreviation (input) VmEnterInterruptTypeSoftwareException :: nat where "VmEnterInterruptTypeSoftwareException \<equiv> 6"

text \<open>
  The bit fields of the three interruption-information words, which agree in the positions of vector,
  type, error-code flag and valid flag.
\<close>

definition info_vector :: "32 word \<Rightarrow> nat" where
  "info_vector w = unat (w AND 0xFF)"

definition info_type :: "32 word \<Rightarrow> nat" where
  "info_type w = unat (drop_bit 8 w AND 7)"

abbreviation (input) INFO_DeliverCode :: nat where "INFO_DeliverCode \<equiv> 11"
abbreviation (input) INFO_NmiUnblockingDueToIret :: nat where "INFO_NmiUnblockingDueToIret \<equiv> 12"
abbreviation (input) INFO_Valid :: nat where "INFO_Valid \<equiv> 31"

definition info_clear_reserved :: "32 word \<Rightarrow> 32 word" where
  "info_clear_reserved w = w AND 0x80000FFF"

definition info_make :: "bool \<Rightarrow> nat \<Rightarrow> 32 word \<Rightarrow> 32 word" where
  "info_make deliver_code interrupt_type vector =
     (let w = set_bit INFO_Valid ((vector AND 0xFF) OR push_bit 8 (of_nat interrupt_type AND 7))
      in if deliver_code then set_bit INFO_DeliverCode w else w)"

abbreviation (input) BlockNextInstruction :: nat where "BlockNextInstruction \<equiv> 0"
abbreviation (input) BlockStackSegment :: nat where "BlockStackSegment \<equiv> 1"
abbreviation (input) BlockNmi :: nat where "BlockNmi \<equiv> 3"
abbreviation (input) RFLAGS_RF :: nat where "RFLAGS_RF \<equiv> 16"

record vmenter_event =
  interrupt_info :: "32 word"
  instruction_length :: "32 word"
  error_code :: "64 word"

definition zero_event :: vmenter_event where
  "zero_event = \<lparr> interrupt_info = 0, instruction_length = 0, error_code = 0 \<rparr>"

datatype exception_class =
  EXCEPTION_CLASS_BENIGN | EXCEPTION_CLASS_CONTRIBUTORY | EXCEPTION_CLASS_PAGE_FAULT | EXCEPTION_CLASS_TRIPLE_FAULT

datatype idt_resolution_action = INJECT_2ND_EXCEPTION | INJECT_DOUBLE_FAULT | TEAR_DOWN_GUEST

fun idt_resolution_table :: "exception_class \<Rightarrow> exception_class \<Rightarrow> idt_resolution_action" where
  "idt_resolution_table EXCEPTION_CLASS_BENIGN EXCEPTION_CLASS_BENIGN = INJECT_2ND_EXCEPTION"
| "idt_resolution_table EXCEPTION_CLASS_BENIGN EXCEPTION_CLASS_CONTRIBUTORY = INJECT_2ND_EXCEPTION"
| "idt_resolution_table EXCEPTION_CLASS_BENIGN EXCEPTION_CLASS_PAGE_FAULT = INJECT_2ND_EXCEPTION"
| "idt_resolution_table EXCEPTION_CLASS_BENIGN EXCEPTION_CLASS_TRIPLE_FAULT = TEAR_DOWN_GUEST"
| "idt_resolution_table EXCEPTION_CLASS_CONTRIBUTORY EXCEPTION_CLASS_BENIGN = INJECT_2ND_EXCEPTION"
| "idt_resolution_table EXCEPTION_CLASS_CONTRIBUTORY EXCEPTION_CLASS_CONTRIBUTORY = INJECT_DOUBLE_FAULT"
| "idt_resolution_table EXCEPTION_CLASS_CONTRIBUTORY EXCEPTION_CLASS_PAGE_FAULT = INJECT_2ND_EXCEPTION"
| "idt_resolution_table EXCEPTION_CLASS_CONTRIBUTORY EXCEPTION_CLASS_TRIPLE_FAULT = TEAR_DOWN_GUEST"
| "idt_resolution_table EXCEPTION_CLASS_PAGE_FAULT EXCEPTION_CLASS_BENIGN = INJECT_2ND_EXCEPTION"
| "idt_resolution_table EXCEPTION_CLASS_PAGE_FAULT EXCEPTION_CLASS_CONTRIBUTORY = INJECT_DOUBLE_FAULT"
| "idt_resolution_table EXCEPTION_CLASS_PAGE_FAULT EXCEPTION_CLASS_PAGE_FAULT = INJECT_DOUBLE_FAULT"
| "idt_resolution_table EXCEPTION_CLASS_PAGE_FAULT EXCEPTION_CLASS_TRIPLE_FAULT = TEAR_DOWN_GUEST"
| "idt_resolution_table EXCEPTION_CLASS_TRIPLE_FAULT _ = TEAR_DOWN_GUEST"

definition copy_exception_to_vmenter_exception :: "32 word \<Rightarrow> 32 word" where
  "copy_exception_to_vmenter_exception source_exception = info_clear_reserved source_exception"

definition isr_error_code_required :: "nat \<Rightarrow> bool" where
  "isr_error_code_required vector_id \<longleftrightarrow> vector_id \<in>
     {IA32_EXCEPTION_VECTOR_DOUBLE_FAULT, IA32_EXCEPTION_VECTOR_PAGE_FAULT,
      IA32_EXCEPTION_VECTOR_INVALID_TASK_SEGMENT_SELECTOR, IA32_EXCEPTION_VECTOR_SEGMENT_NOT_PRESENT,
      IA32_EXCEPTION_VECTOR_STACK_SEGMENT_FAULT, IA32_EXCEPTION_VECTOR_GENERAL_PROTECTION_FAULT,
      IA32_EXCEPTION_VECTOR_ALIGNMENT_CHECK}"

definition vector_to_exception_class :: "bool \<Rightarrow> nat \<Rightarrow> exception_class option" where
  "vector_to_exception_class chk vector_id =
     (if vector_id = IA32_EXCEPTION_VECTOR_PAGE_FAULT then Some EXCEPTION_CLASS_PAGE_FAULT
      else if vector_id \<in> {IA32_EXCEPTION_VECTOR_DIVIDE_ERROR, IA32_EXCEPTION_VECTOR_INVALID_TASK_SEGMENT_SELECTOR,
             IA32_EXCEPTION_VECTOR_SEGMENT_NOT_PRESENT, IA32_EXCEPTION_VECTOR_STACK_SEGMENT_FAULT,
             IA32_EXCEPTION_VECTOR_GENERAL_PROTECTION_FAULT} then Some EXCEPTION_CLASS_CONTRIBUTORY
      else if vector_id = IA32_EXCEPTION_VECTOR_DOUBLE_FAULT then do {
        vmm_deadloop chk;
        Some EXCEPTION_CLASS_TRIPLE_FAULT
      }
      else Some EXCEPTION_CLASS_BENIGN)"

section \<open>Injection\<close>

definition gcpu_set_pending_nmi :: "bool \<Rightarrow> bool \<Rightarrow> 'a guest_cpu_scheme \<Rightarrow> 'a guest_cpu_scheme option" where
  "gcpu_set_pending_nmi chk val s = vmcs_write_nmi_window_bit chk val s"

definition ipc_mni_injection_failed :: "'a guest_cpu_scheme \<Rightarrow> 'a guest_cpu_scheme" where
  "ipc_mni_injection_failed s =
     s \<lparr> num_blocked_nmi_injections_to_guest := num_blocked_nmi_injections_to_guest s + 1 \<rparr>"

text \<open>The first switch: whether the state of the guest allows an event of this type and vector.\<close>

definition injection_allowed :: "bool \<Rightarrow> 32 word \<Rightarrow> 32 word \<Rightarrow> bool option" where
  "injection_allowed chk guest_interruptibility info = (
     let t = info_type info in
     if t = VmEnterInterruptTypeExternalInterrupt then
       Some (\<not> (bit guest_interruptibility BlockNextInstruction \<or> bit guest_interruptibility BlockStackSegment))
     else if t = VmEnterInterruptTypeNmi then
       Some (\<not> (bit guest_interruptibility BlockNmi \<or> bit guest_interruptibility BlockStackSegment))
     else if t \<in> {VmEnterInterruptTypeHardwareException, VmEnterInterruptTypeSoftwareInterrupt,
                  VmEnterInterruptTypePrivilegedSoftwareInterrupt, VmEnterInterruptTypeSoftwareException} then
       Some (\<not> (bit guest_interruptibility BlockStackSegment \<and>
                (info_vector info = IA32_EXCEPTION_VECTOR_BREAKPOINT \<or>
                 info_vector info = IA32_EXCEPTION_VECTOR_DEBUG_BREAKPOINT)))
     else do { vmm_deadloop chk; Some True })"

text \<open>The second switch and the write of the entry fields.\<close>

definition inject_allowed_event ::
    "bool \<Rightarrow> vmenter_event \<Rightarrow> 'a guest_cpu_scheme \<Rightarrow> ('a guest_cpu_scheme \<times> vmenter_event) option" where
  "inject_allowed_event chk e s = do {
     let info = unset_bit INFO_DeliverCode (interrupt_info e);
     let t = info_type info;
     (s, info) \<leftarrow>
       (if t \<in> {VmEnterInterruptTypeSoftwareInterrupt, VmEnterInterruptTypePrivilegedSoftwareInterrupt,
                VmEnterInterruptTypeSoftwareException} then do {
          s \<leftarrow> vmcs_write chk VMCS_ENTER_INSTRUCTION_LENGTH (ucast (instruction_length e)) s;
          Some (s, info)
        }
        else if t = VmEnterInterruptTypeHardwareException \<and> isr_error_code_required (info_vector info) then do {
          s \<leftarrow> vmcs_write chk VMCS_ENTER_EXCEPTION_ERROR_CODE (error_code e) s;
          Some (s, set_bit INFO_DeliverCode info)
        }
        else if t = VmEnterInterruptTypeNmi then (let status = report_uvmm_event UVMM_EVENT_NMI in Some (s, info))
        else Some (s, info));
     let info = info_clear_reserved (set_bit INFO_Valid info);
     s \<leftarrow> vmcs_write chk VMCS_ENTER_INTERRUPT_INFO (ucast info) s;
     Some (s, e \<lparr> interrupt_info := info \<rparr>)
   }"

definition gcpu_inject_event ::
    "bool \<Rightarrow> vmenter_event \<Rightarrow> 'a guest_cpu_scheme \<Rightarrow> ('a guest_cpu_scheme \<times> vmenter_event \<times> bool) option" where
  "gcpu_inject_event chk e s = do {
     vmm_assert chk (\<not> bit (state_flags s) GCPU_EXCEPTION_RESOLUTION_REQUIRED_FLAG);
     (s, idt_vectoring_info) \<leftarrow> vmcs_read chk VMCS_EXIT_INFO_IDT_VECTORING s;
     (s, allowed) \<leftarrow>
       (if bit (ucast idt_vectoring_info :: 32 word) INFO_Valid then Some (s, False)
        else do {
          (s, guest_interruptibility) \<leftarrow> vmcs_read chk VMCS_GUEST_INTERRUPTIBILITY s;
          a \<leftarrow> injection_allowed chk (ucast guest_interruptibility) (interrupt_info e);
          Some (s, a)
        });
     if allowed then do {
       (s, e) \<leftarrow> inject_allowed_event chk e s;
       Some (s, e, True)
     }
     else if info_type (interrupt_info e) = VmEnterInterruptTypeNmi then do {
       s \<leftarrow> gcpu_set_pending_nmi chk True s;
       Some (ipc_mni_injection_failed s, e, False)
     }
     else do {
       s \<leftarrow> gcpu_temp_exceptions_setup chk GCPU_TEMP_EXIT_ON_INTR_UNBLOCK s;
       Some (s, e, False)
     }
   }"

definition inject_result ::
    "('a guest_cpu_scheme \<times> vmenter_event \<times> bool) option \<Rightarrow> ('a guest_cpu_scheme \<times> bool) option" where
  "inject_result m = do {
     (s, _, b) \<leftarrow> m;
     Some (s, b)
   }"

definition gcpu_inject_gp0 :: "bool \<Rightarrow> 'a guest_cpu_scheme \<Rightarrow> ('a guest_cpu_scheme \<times> bool) option" where
  "gcpu_inject_gp0 chk s = do {
     (s, len) \<leftarrow> vmcs_read chk VMCS_EXIT_INFO_INSTRUCTION_LENGTH s;
     inject_result (gcpu_inject_event chk
       \<lparr> interrupt_info = info_make True VmEnterInterruptTypeHardwareException
                            (of_nat IA32_EXCEPTION_VECTOR_GENERAL_PROTECTION_FAULT),
         instruction_length = ucast len, error_code = 0 \<rparr> s)
   }"

definition gcpu_inject_fault ::
    "bool \<Rightarrow> 32 word \<Rightarrow> 32 word \<Rightarrow> 'a guest_cpu_scheme \<Rightarrow> ('a guest_cpu_scheme \<times> bool) option" where
  "gcpu_inject_fault chk vec code s = do {
     (s, len) \<leftarrow> vmcs_read chk VMCS_EXIT_INFO_INSTRUCTION_LENGTH s;
     let deliver = vec \<noteq> of_nat IA32_EXCEPTION_VECTOR_DEBUG_BREAKPOINT;
     let err = (if deliver then ucast code else 0);
     let deliver = (if vec = of_nat IA32_EXCEPTION_VECTOR_VIRTUAL_EXCEPTION then False else deliver);
     inject_result (gcpu_inject_event chk
       \<lparr> interrupt_info = info_make deliver VmEnterInterruptTypeHardwareException vec,
         instruction_length = ucast len, error_code = err \<rparr> s)
   }"

definition gcpu_inject_nmi :: "bool \<Rightarrow> 'a guest_cpu_scheme \<Rightarrow> ('a guest_cpu_scheme \<times> bool) option" where
  "gcpu_inject_nmi chk s = inject_result (gcpu_inject_event chk
     (zero_event \<lparr> interrupt_info := info_make False VmEnterInterruptTypeNmi (of_nat IA32_EXCEPTION_VECTOR_NMI) \<rparr>) s)"

definition gcpu_inject_double_fault :: "bool \<Rightarrow> 'a guest_cpu_scheme \<Rightarrow> ('a guest_cpu_scheme \<times> bool) option" where
  "gcpu_inject_double_fault chk s = inject_result (gcpu_inject_event chk
     (zero_event \<lparr> interrupt_info := info_make True VmEnterInterruptTypeHardwareException
                                      (of_nat IA32_EXCEPTION_VECTOR_DOUBLE_FAULT) \<rparr>) s)"

definition gcpu_inject_invalid_opcode_exception ::
    "bool \<Rightarrow> 'a guest_cpu_scheme \<Rightarrow> ('a guest_cpu_scheme \<times> bool) option" where
  "gcpu_inject_invalid_opcode_exception chk s = do {
     (s, inject_allowed) \<leftarrow> inject_result (gcpu_inject_event chk
       (zero_event \<lparr> interrupt_info := info_make False VmEnterInterruptTypeHardwareException
                                        (of_nat IA32_EXCEPTION_VECTOR_UNDEFINED_OPCODE) \<rparr>) s);
     if inject_allowed then do {
       (s, rflags) \<leftarrow> gcpu_get_native_gp_reg_layered chk IA32_REG_RFLAGS s;
       s \<leftarrow> gcpu_set_native_gp_reg_layered chk IA32_REG_RFLAGS (set_bit RFLAGS_RF rflags) s;
       Some (s, True)
     }
     else Some (s, False)
   }"

section \<open>Exceptions that caused a VM exit\<close>

definition gcpu_reinject_vmexit_exception ::
    "bool \<Rightarrow> vmenter_event \<Rightarrow> 32 word \<Rightarrow> 'a guest_cpu_scheme \<Rightarrow> 'a guest_cpu_scheme option" where
  "gcpu_reinject_vmexit_exception chk stack info s = do {
     let e = stack \<lparr> interrupt_info := copy_exception_to_vmenter_exception info \<rparr>;
     (s, e) \<leftarrow> (if bit info INFO_DeliverCode then do {
                  (s, v) \<leftarrow> vmcs_read chk VMCS_EXIT_INFO_EXCEPTION_ERROR_CODE s;
                  Some (s, e \<lparr> error_code := v \<rparr>)
                } else Some (s, e));
     (s, e) \<leftarrow> (if info_type info = VmEnterInterruptTypeSoftwareException then do {
                  (s, v) \<leftarrow> vmcs_read chk VMCS_EXIT_INFO_INSTRUCTION_LENGTH s;
                  Some (s, e \<lparr> instruction_length := ucast v \<rparr>)
                } else Some (s, e));
     (s, _, _) \<leftarrow> gcpu_inject_event chk e s;
     Some s
   }"

definition gcpu_reinject_idt_exception ::
    "bool \<Rightarrow> vmenter_event \<Rightarrow> 32 word \<Rightarrow> 'a guest_cpu_scheme \<Rightarrow> 'a guest_cpu_scheme option" where
  "gcpu_reinject_idt_exception chk stack info s = do {
     let e = stack \<lparr> interrupt_info := copy_exception_to_vmenter_exception info \<rparr>;
     (s, e) \<leftarrow> (if bit info INFO_DeliverCode then do {
                  (s, v) \<leftarrow> vmcs_read chk VMCS_EXIT_INFO_IDT_VECTORING_ERROR_CODE s;
                  Some (s, e \<lparr> error_code := v \<rparr>)
                } else Some (s, e));
     (s, e) \<leftarrow> (if info_type info \<in> {VmEnterInterruptTypeSoftwareInterrupt, VmEnterInterruptTypeSoftwareException,
                                      VmEnterInterruptTypePrivilegedSoftwareInterrupt} then do {
                  (s, v) \<leftarrow> vmcs_read chk VMCS_EXIT_INFO_INSTRUCTION_LENGTH s;
                  Some (s, e \<lparr> instruction_length := ucast v \<rparr>)
                } else Some (s, e));
     s \<leftarrow> vmcs_write chk VMCS_EXIT_INFO_IDT_VECTORING 0 s;
     (s, _, _) \<leftarrow> gcpu_inject_event chk e s;
     Some s
   }"

definition clear_resolution_flag :: "'a guest_cpu_scheme \<Rightarrow> 'a guest_cpu_scheme" where
  "clear_resolution_flag s =
     s \<lparr> state_flags := unset_bit GCPU_EXCEPTION_RESOLUTION_REQUIRED_FLAG (state_flags s) \<rparr>"

definition gcpu_vmexit_exception_resolve ::
    "bool \<Rightarrow> vmenter_event \<Rightarrow> 'a guest_cpu_scheme \<Rightarrow> 'a guest_cpu_scheme option" where
  "gcpu_vmexit_exception_resolve chk stack s = do {
     let s = clear_resolution_flag s;
     (s, v) \<leftarrow> vmcs_read chk VMCS_EXIT_INFO_IDT_VECTORING s;
     let idt_vectoring_info = (ucast v :: 32 word);
     if bit idt_vectoring_info INFO_Valid
     then gcpu_reinject_idt_exception chk stack idt_vectoring_info s
     else do {
       (s, v) \<leftarrow> vmcs_read chk VMCS_EXIT_INFO_EXCEPTION_INFO s;
       let info = (ucast v :: 32 word);
       if bit info INFO_Valid \<and> bit info INFO_NmiUnblockingDueToIret \<and>
          info_vector info \<noteq> IA32_EXCEPTION_VECTOR_DOUBLE_FAULT
       then vmcs_update chk VMCS_GUEST_INTERRUPTIBILITY (set_bit BlockNmi 0) (set_bit BlockNmi 0) s
       else Some s
     }
   }"

text \<open>The end of the reflection, and the switch over the resolution of two exceptions.\<close>

definition reflect_exception ::
    "bool \<Rightarrow> vmenter_event \<Rightarrow> 32 word \<Rightarrow> 'a guest_cpu_scheme \<Rightarrow> 'a guest_cpu_scheme option" where
  "reflect_exception chk stack info s = do {
     s \<leftarrow> (if info_vector info = IA32_EXCEPTION_VECTOR_PAGE_FAULT then do {
             (s, qualification) \<leftarrow> vmcs_read chk VMCS_EXIT_INFO_QUALIFICATION s;
             gcpu_set_control_reg_layered chk IA32_CTRL_CR2 qualification s
           } else Some s);
     gcpu_reinject_vmexit_exception chk stack info s
   }"

definition resolve_exceptions ::
    "bool \<Rightarrow> vmenter_event \<Rightarrow> 32 word \<Rightarrow> idt_resolution_action \<Rightarrow> 'a guest_cpu_scheme \<Rightarrow> 'a guest_cpu_scheme option" where
  "resolve_exceptions chk stack info action s = (case action of
       INJECT_2ND_EXCEPTION \<Rightarrow> reflect_exception chk stack info s
     | INJECT_DOUBLE_FAULT \<Rightarrow> do {
         (s, _) \<leftarrow> gcpu_inject_double_fault chk s;
         Some s
       }
     | TEAR_DOWN_GUEST \<Rightarrow> Some s)"

definition gcpu_vmexit_exception_reflect ::
    "bool \<Rightarrow> vmenter_event \<Rightarrow> 'a guest_cpu_scheme \<Rightarrow> 'a guest_cpu_scheme option" where
  "gcpu_vmexit_exception_reflect chk stack s = do {
     let s = clear_resolution_flag s;
     (s, v1) \<leftarrow> vmcs_read chk VMCS_EXIT_INFO_IDT_VECTORING s;
     (s, v2) \<leftarrow> vmcs_read chk VMCS_EXIT_INFO_EXCEPTION_INFO s;
     let idt_vectoring_info = (ucast v1 :: 32 word);
     let vmexit_exception_info = (ucast v2 :: 32 word);
     if bit idt_vectoring_info INFO_Valid then do {
       c1 \<leftarrow> vector_to_exception_class chk (info_vector idt_vectoring_info);
       c2 \<leftarrow> vector_to_exception_class chk (info_vector vmexit_exception_info);
       s \<leftarrow> vmcs_write chk VMCS_EXIT_INFO_IDT_VECTORING 0 s;
       resolve_exceptions chk stack vmexit_exception_info (idt_resolution_table c1 c2) s
     }
     else reflect_exception chk stack vmexit_exception_info s
   }"

section \<open>Specification\<close>

text \<open>When the processor would not accept an event, as a function of the blocking state of the guest.\<close>

definition event_blocked :: "32 word \<Rightarrow> 32 word \<Rightarrow> bool" where
  "event_blocked i info \<longleftrightarrow>
     (bit i BlockStackSegment \<and>
       (info_type info \<in> {VmEnterInterruptTypeExternalInterrupt, VmEnterInterruptTypeNmi} \<or>
        info_vector info \<in> {IA32_EXCEPTION_VECTOR_DEBUG_BREAKPOINT, IA32_EXCEPTION_VECTOR_BREAKPOINT})) \<or>
     (info_type info = VmEnterInterruptTypeExternalInterrupt \<and> bit i BlockNextInstruction) \<or>
     (info_type info = VmEnterInterruptTypeNmi \<and> bit i BlockNmi)"

definition must_wait :: "'a guest_cpu_scheme \<Rightarrow> 32 word \<Rightarrow> bool" where
  "must_wait s info \<longleftrightarrow> bit (vmcs_view s VMCS_EXIT_INFO_IDT_VECTORING) INFO_Valid \<or>
     event_blocked (ucast (vmcs_view s VMCS_GUEST_INTERRUPTIBILITY)) info"

definition known_type :: "32 word \<Rightarrow> bool" where
  "known_type info \<longleftrightarrow> info_type info \<noteq> 1 \<and> info_type info \<noteq> 7"

definition with_error_code :: "32 word \<Rightarrow> bool" where
  "with_error_code info \<longleftrightarrow> info_type info = VmEnterInterruptTypeHardwareException \<and> isr_error_code_required (info_vector info)"

text \<open>The entry fields of an event: its vector and type, valid, with an error code where the vector has one.\<close>

definition entry_info :: "32 word \<Rightarrow> 32 word" where
  "entry_info info = info_make (with_error_code info) (info_type info) (of_nat (info_vector info))"

definition entry_fields :: "vmenter_event \<Rightarrow> (nat \<Rightarrow> 64 word) \<Rightarrow> nat \<Rightarrow> 64 word" where
  "entry_fields e V f =
     (if f = VMCS_ENTER_INTERRUPT_INFO then ucast (entry_info (interrupt_info e))
      else if f = VMCS_ENTER_EXCEPTION_ERROR_CODE \<and> with_error_code (interrupt_info e) then error_code e
      else if f = VMCS_ENTER_INSTRUCTION_LENGTH \<and> info_type (interrupt_info e) \<in> {4, 5, 6} then ucast (instruction_length e)
      else V f)"

text \<open>Pairs of exceptions that make a double fault.\<close>

definition double_fault :: "nat \<Rightarrow> nat \<Rightarrow> bool" where
  "double_fault v1 v2 \<longleftrightarrow> (let contributory = {0, 10, 11, 12, 13} in
     (v1 \<in> contributory \<and> v2 \<in> contributory) \<or> (v1 = 14 \<and> (v2 \<in> contributory \<or> v2 = 14)))"

text \<open>The event that an exit with exception information \<open>info\<close> describes in the exit fields \<open>V\<close>.\<close>

definition exit_event :: "vmenter_event \<Rightarrow> (nat \<Rightarrow> 64 word) \<Rightarrow> 32 word \<Rightarrow> vmenter_event" where
  "exit_event stack V info =
     \<lparr> interrupt_info = info_clear_reserved info,
       instruction_length = (if info_type info = VmEnterInterruptTypeSoftwareException
                             then ucast (V VMCS_EXIT_INFO_INSTRUCTION_LENGTH) else instruction_length stack),
       error_code = (if bit info INFO_DeliverCode then V VMCS_EXIT_INFO_EXCEPTION_ERROR_CODE else error_code stack) \<rparr>"

section \<open>Fields of an interruption information\<close>

lemma info_masks:
  "(0xFF :: 32 word) = mask 8" "(7 :: 32 word) = mask 3" "(0x80000FFF :: 32 word) = mask 12 OR push_bit 31 1"
  by (simp_all add: mask_eq_exp_minus_1)

lemma info_vector_bits: "info_vector w = unat (take_bit 8 w)"
  by (simp add: info_vector_def take_bit_eq_mask info_masks(1))

lemma info_type_bits: "info_type w = unat (take_bit 3 (drop_bit 8 w))"
  by (simp add: info_type_def take_bit_eq_mask info_masks(2))

lemma bit_clear_reserved: "bit (info_clear_reserved w) i \<longleftrightarrow> bit w i \<and> (i < 12 \<or> i = 31)"
  unfolding info_clear_reserved_def info_masks(3) by (auto simp: bit_simps simp del: push_bit_of_1)

lemma info_type_less: "info_type w < 8"
proof -
  have "unat (take_bit 3 (drop_bit 8 w)) = take_bit 3 (unat (drop_bit 8 w))"
    by (simp add: unsigned_take_bit_eq)
  then show ?thesis by (simp add: info_type_bits take_bit_eq_mod)
qed

lemma same_vector: "(\<And>i. i < 8 \<Longrightarrow> bit w' i = bit w i) \<Longrightarrow> info_vector w' = info_vector w"
  unfolding info_vector_bits by (rule arg_cong [where f = unat], rule bit_word_eqI) (auto simp: bit_simps)

lemma same_type: "(\<And>i. 8 \<le> i \<Longrightarrow> i < 11 \<Longrightarrow> bit w' i = bit w i) \<Longrightarrow> info_type w' = info_type w"
  unfolding info_type_bits by (rule arg_cong [where f = unat], rule bit_word_eqI) (auto simp: bit_simps)

lemma info_of_changed [simp]:
  "info_vector (unset_bit INFO_DeliverCode w) = info_vector w" "info_type (unset_bit INFO_DeliverCode w) = info_type w"
  "info_vector (info_clear_reserved w) = info_vector w" "info_type (info_clear_reserved w) = info_type w"
  by (rule same_vector same_type; auto simp: bit_simps bit_clear_reserved)+

lemma bit_entry_info:
  "bit (entry_info w) i \<longleftrightarrow> i < 11 \<and> bit w i \<or> i = INFO_DeliverCode \<and> with_error_code w \<or> i = INFO_Valid"
proof -
  have v: "(of_nat (info_vector w) :: 32 word) = take_bit 8 w" by (simp add: info_vector_bits)
  have t: "(of_nat (info_type w) :: 32 word) = take_bit 3 (drop_bit 8 w)" by (simp add: info_type_bits)
  show ?thesis
    unfolding entry_info_def info_make_def Let_def v t info_masks(1,2)
    by (auto simp: bit_simps)
qed

text \<open>The entry information that the code puts together.\<close>

lemma entry_info_code:
  "info_clear_reserved (set_bit INFO_Valid (if with_error_code w then set_bit INFO_DeliverCode (unset_bit INFO_DeliverCode w)
     else unset_bit INFO_DeliverCode w)) = entry_info w"
  by (rule bit_word_eqI) (auto simp: bit_clear_reserved bit_entry_info bit_simps)

section \<open>Injection of an event\<close>

lemma injection_allowed_iff:
  assumes "known_type info"
  shows "injection_allowed chk i info = Some (\<not> event_blocked i info)"
proof -
  have "info_type info \<in> {0, 2, 3, 4, 5, 6}"
    using assms info_type_less [of info] unfolding known_type_def by auto
  then show ?thesis by (auto simp: injection_allowed_def event_blocked_def Let_def)
qed

lemma inject_allowed_event_yields:
  assumes "vmcs_becomes s V s1"
  shows "yields (\<lambda>(s', e'). vmcs_becomes s (entry_fields e V) s' \<and> e' = e \<lparr> interrupt_info := entry_info (interrupt_info e) \<rparr>)
    (inject_allowed_event chk e s1)"
proof -
  let ?i = "interrupt_info e"
  have with_code: "info_clear_reserved (set_bit INFO_Valid (set_bit INFO_DeliverCode (unset_bit INFO_DeliverCode ?i))) = entry_info ?i"
    if "with_error_code ?i" using entry_info_code [of ?i] that by simp
  have plain: "info_clear_reserved (set_bit INFO_Valid (unset_bit INFO_DeliverCode ?i)) = entry_info ?i"
    if "\<not> with_error_code ?i" using entry_info_code [of ?i] that by simp
  note first = yields_write [OF assms]
  consider (soft) "info_type ?i \<in> {4, 5, 6}" "\<not> with_error_code ?i" | (code) "with_error_code ?i" "info_type ?i = 3"
    | (other) "info_type ?i \<notin> {4, 5, 6}" "\<not> with_error_code ?i"
    by (auto simp: with_error_code_def)
  then show ?thesis
  proof cases
    case soft
    have V: "entry_fields e V = V(VMCS_ENTER_INSTRUCTION_LENGTH := ucast (instruction_length e),
          VMCS_ENTER_INTERRUPT_INFO := ucast (entry_info ?i))"
      using soft by (auto simp: fun_eq_iff entry_fields_def)
    show ?thesis
      unfolding inject_allowed_event_def Let_def info_of_changed V if_P [OF soft(1)]
      by (simp add: Option.bind_assoc plain soft, rule first, simp, erule yields_write, simp, simp add: yields_Some)
  next
    case code
    have V: "entry_fields e V = V(VMCS_ENTER_EXCEPTION_ERROR_CODE := error_code e,
          VMCS_ENTER_INTERRUPT_INFO := ucast (entry_info ?i))"
      using code by (auto simp: fun_eq_iff entry_fields_def)
    have c: "info_type ?i = 3" "isr_error_code_required (info_vector ?i)"
      using code by (simp_all add: with_error_code_def)
    show ?thesis
      unfolding inject_allowed_event_def Let_def info_of_changed V
      by (simp add: Option.bind_assoc with_code code c, rule first, simp, erule yields_write, simp, simp add: yields_Some)
  next
    case other
    have V: "entry_fields e V = V(VMCS_ENTER_INTERRUPT_INFO := ucast (entry_info ?i))"
      using other by (auto simp: fun_eq_iff entry_fields_def)
    have c: "\<not> (info_type ?i = 3 \<and> isr_error_code_required (info_vector ?i))"
      using other by (simp add: with_error_code_def)
    show ?thesis
      unfolding inject_allowed_event_def Let_def info_of_changed V if_not_P [OF other(1)] if_not_P [OF c] if_cancel
      by (simp add: plain other, rule first, simp, simp add: yields_Some)
  qed
qed

lemma valid_bit [simp]: "bit (ucast v :: 32 word) INFO_Valid \<longleftrightarrow> bit (v :: 64 word) INFO_Valid"
  by (simp add: bit_simps)

lemma inject_event_allowed:
  assumes "vmcs_becomes s V s1" "known_type (interrupt_info e)"
    "chk \<Longrightarrow> \<not> bit (state_flags s1) GCPU_EXCEPTION_RESOLUTION_REQUIRED_FLAG"
    "\<not> bit (V VMCS_EXIT_INFO_IDT_VECTORING) INFO_Valid"
    "\<not> event_blocked (ucast (V VMCS_GUEST_INTERRUPTIBILITY)) (interrupt_info e)"
  shows "yields (\<lambda>(s', e', allowed). vmcs_becomes s (entry_fields e V) s' \<and> allowed) (gcpu_inject_event chk e s1)"
proof -
  have "yields (\<lambda>(s', a). vmcs_becomes s V s' \<and> a)
      (Option.bind (vmcs_read chk VMCS_GUEST_INTERRUPTIBILITY s2) (\<lambda>(s, i).
         Option.bind (injection_allowed chk (ucast i) (interrupt_info e)) (\<lambda>a. Some (s, a))))"
    if "vmcs_becomes s V s2" for s2
    by (rule yields_read [OF that], simp) (simp add: injection_allowed_iff [OF assms(2)] assms(5) yields_Some)
  note allowed = yields_bind [OF this]
  show ?thesis
    unfolding gcpu_inject_event_def
    by (rule yields_assert, erule assms(3), rule yields_read [OF assms(1)], simp,
        simp only: valid_bit assms(4) if_False, erule allowed)
      (auto intro!: yields_bind [OF inject_allowed_event_yields] yields_Some)
qed

text \<open>An event that has to wait reaches the second half of the injection.\<close>

lemma inject_event_waits:
  assumes "vmcs_active s" "known_type (interrupt_info e)" "must_wait s (interrupt_info e)"
    "chk \<Longrightarrow> \<not> bit (state_flags s) GCPU_EXCEPTION_RESOLUTION_REQUIRED_FLAG"
  shows "\<exists>s1. vmcs_becomes s (vmcs_view s) s1 \<and> gcpu_inject_event chk e s =
     (if info_type (interrupt_info e) = VmEnterInterruptTypeNmi then do {
        s2 \<leftarrow> gcpu_set_pending_nmi chk True s1;
        Some (ipc_mni_injection_failed s2, e, False)
      }
      else do {
        s2 \<leftarrow> gcpu_temp_exceptions_setup chk GCPU_TEMP_EXIT_ON_INTR_UNBLOCK s1;
        Some (s2, e, False)
      })"
proof -
  have flag: "vmm_assert chk (\<not> bit (state_flags s) GCPU_EXCEPTION_RESOLUTION_REQUIRED_FLAG) = Some ()"
    using assms(4) by (cases chk) (auto simp: vmm_assert_def)
  obtain s1 where s1: "vmcs_read chk VMCS_EXIT_INFO_IDT_VECTORING s = Some (s1, vmcs_view s VMCS_EXIT_INFO_IDT_VECTORING)"
      "vmcs_becomes s (vmcs_view s) s1"
    using read_becomes [OF assms(1) active_readable [OF assms(1)], of VMCS_EXIT_INFO_IDT_VECTORING chk] by auto
  note D = vmcs_becomesD [OF s1(2)]
  show ?thesis
  proof (cases "bit (vmcs_view s VMCS_EXIT_INFO_IDT_VECTORING) INFO_Valid")
    case True
    then show ?thesis using s1 flag unfolding gcpu_inject_event_def by (intro exI [of _ s1]) simp
  next
    case False
    obtain s2 where s2: "vmcs_read chk VMCS_GUEST_INTERRUPTIBILITY s1 = Some (s2, vmcs_view s VMCS_GUEST_INTERRUPTIBILITY)"
        "vmcs_becomes s1 (vmcs_view s) s2"
      using read_becomes [OF D(1) active_readable [OF D(1)], of VMCS_GUEST_INTERRUPTIBILITY chk] D(2) by auto
    have "event_blocked (ucast (vmcs_view s VMCS_GUEST_INTERRUPTIBILITY)) (interrupt_info e)"
      using assms(3) False by (simp add: must_wait_def)
    then show ?thesis
      using s1(1) s2(1) flag False injection_allowed_iff [OF assms(2)] vmcs_becomes_trans [OF s1(2) s2(2)]
      unfolding gcpu_inject_event_def by (intro exI [of _ s2]) simp
  qed
qed

lemma set_pending_nmi_opens:
  assumes "vmcs_active s"
  shows "\<exists>s1. gcpu_set_pending_nmi chk True s = Some (s1 \<lparr> nmi_window := True \<rparr>) \<and>
    vmcs_becomes s ((vmcs_view s)(VMCS_CONTROL_VECTOR_PROCESSOR_EVENTS :=
      set_bit NMI_WINDOW_BIT (vmcs_view s VMCS_CONTROL_VECTOR_PROCESSOR_EVENTS))) s1"
proof -
  let ?f = VMCS_CONTROL_VECTOR_PROCESSOR_EVENTS
  have f: "field_readable s ?f" "field_writeable s ?f"
    using active_readable [OF assms, of ?f] active_writeable [OF assms, of ?f] by auto
  have "(v AND NOT (push_bit b 1)) OR (- 1 AND push_bit b 1) = set_bit b v" for v :: "64 word" and b
    by (rule bit_word_eqI) (auto simp: bit_simps)
  from this [of _ NMI_WINDOW_BIT]
  have "(v AND NOT (push_bit NMI_WINDOW_BIT 1)) OR (- 1 AND push_bit NMI_WINDOW_BIT 1) = set_bit NMI_WINDOW_BIT v"
    for v :: "64 word" .
  then show ?thesis
    using update_becomes [OF assms f, of chk "- 1" "push_bit NMI_WINDOW_BIT 1"]
    unfolding gcpu_set_pending_nmi_def vmcs_write_nmi_window_bit_def nmi_window_set_def by fastforce
qed

lemma window_vmcs [simp]:
  "vmcs_view (s \<lparr> nmi_window := w \<rparr>) = vmcs_view s"
  "vmcs_active (s \<lparr> nmi_window := w \<rparr>) \<longleftrightarrow> vmcs_active s" "vmcs_synced (s \<lparr> nmi_window := w \<rparr>) \<longleftrightarrow> vmcs_synced s"
  for s :: "'a guest_cpu_scheme"
proof -
  have hw: "vmcs_hw (s \<lparr> nmi_window := w \<rparr>) f = vmcs_hw s f" for f by (simp add: vmcs_hw_def)
  show "vmcs_view (s \<lparr> nmi_window := w \<rparr>) = vmcs_view s" by (auto simp: vmcs_view_def hw fun_eq_iff split: option.splits)
  show "vmcs_active (s \<lparr> nmi_window := w \<rparr>) \<longleftrightarrow> vmcs_active s" by (simp add: vmcs_active_def)
  show "vmcs_synced (s \<lparr> nmi_window := w \<rparr>) \<longleftrightarrow> vmcs_synced s" by (simp add: vmcs_synced_def hw)
qed

lemma inject_nmi_waits:
  assumes "vmcs_active s" "must_wait s (interrupt_info e)" "info_type (interrupt_info e) = VmEnterInterruptTypeNmi"
    "chk \<Longrightarrow> \<not> bit (state_flags s) GCPU_EXCEPTION_RESOLUTION_REQUIRED_FLAG"
  shows "\<exists>s'. gcpu_inject_event chk e s = Some (s', e, False) \<and> vmcs_active s' \<and> (vmcs_synced s \<longrightarrow> vmcs_synced s') \<and>
    nmi_window s' \<and> bit (vmcs_view s' VMCS_CONTROL_VECTOR_PROCESSOR_EVENTS) NMI_WINDOW_BIT \<and>
    (\<forall>f. f \<noteq> VMCS_CONTROL_VECTOR_PROCESSOR_EVENTS \<longrightarrow> vmcs_view s' f = vmcs_view s f) \<and>
    num_blocked_nmi_injections_to_guest s' = num_blocked_nmi_injections_to_guest s + 1"
proof -
  have "known_type (interrupt_info e)" using assms(3) by (simp add: known_type_def)
  from inject_event_waits [OF assms(1) this assms(2,4)] assms(3)
  obtain s1 where s1: "vmcs_becomes s (vmcs_view s) s1"
      "gcpu_inject_event chk e s = Option.bind (gcpu_set_pending_nmi chk True s1) (\<lambda>s2. Some (ipc_mni_injection_failed s2, e, False))"
    by auto
  note D1 = vmcs_becomesD [OF s1(1)]
  obtain s2 where s2: "gcpu_set_pending_nmi chk True s1 = Some (s2 \<lparr> nmi_window := True \<rparr>)"
      "vmcs_becomes s1 ((vmcs_view s)(VMCS_CONTROL_VECTOR_PROCESSOR_EVENTS :=
         set_bit NMI_WINDOW_BIT (vmcs_view s VMCS_CONTROL_VECTOR_PROCESSOR_EVENTS))) s2"
    using set_pending_nmi_opens [OF D1(1), of chk] D1(2) by auto
  note D2 = vmcs_becomesD [OF s2(2)]
  show ?thesis
    using s1(2) s2(1) D1(3,10) D2(1-3,10)
    by (intro exI [of _ "ipc_mni_injection_failed (s2 \<lparr> nmi_window := True \<rparr>)"])
      (simp add: ipc_mni_injection_failed_def bit_simps)
qed

lemma inject_other_waits:
  assumes "vmcs_active s" "must_wait s (interrupt_info e)" "known_type (interrupt_info e)"
    "info_type (interrupt_info e) \<noteq> VmEnterInterruptTypeNmi"
    "chk \<Longrightarrow> \<not> bit (state_flags s) GCPU_EXCEPTION_RESOLUTION_REQUIRED_FLAG"
  shows "chk \<Longrightarrow> gcpu_inject_event chk e s = None"
    "\<not> chk \<Longrightarrow> counters_are b (processor_ctrls (vmexit_setup s)) \<Longrightarrow>
      \<exists>s'. gcpu_inject_event chk e s = Some (s', e, False) \<and> vmcs_active s' \<and> controls_frame s s' \<and>
        (\<forall>f. f \<noteq> VMCS_CONTROL_VECTOR_PROCESSOR_EVENTS \<longrightarrow> vmcs_view s' f = vmcs_view s f) \<and>
        counters_are b (processor_ctrls (vmexit_setup s'))"
proof -
  from inject_event_waits [OF assms(1,3,2,5)] assms(4)
  obtain s1 where s1: "vmcs_becomes s (vmcs_view s) s1"
      "gcpu_inject_event chk e s = Option.bind (gcpu_temp_exceptions_setup chk GCPU_TEMP_EXIT_ON_INTR_UNBLOCK s1) (\<lambda>s2. Some (s2, e, False))"
    by auto
  note D1 = vmcs_becomesD [OF s1(1)]
  show "gcpu_inject_event chk e s = None" if "chk"
    using that s1(2) by (simp add: gcpu_temp_exceptions_setup_def vmm_assert_def)
  show "\<exists>s'. gcpu_inject_event chk e s = Some (s', e, False) \<and> vmcs_active s' \<and> controls_frame s s' \<and>
        (\<forall>f. f \<noteq> VMCS_CONTROL_VECTOR_PROCESSOR_EVENTS \<longrightarrow> vmcs_view s' f = vmcs_view s f) \<and>
        counters_are b (processor_ctrls (vmexit_setup s'))"
    if "\<not> chk" and b: "counters_are b (processor_ctrls (vmexit_setup s))"
  proof -
    have "\<forall>i < 64. in_range (b i + outstanding i [(ucast (0 :: 32 word), ucast (0 :: 32 word))])"
      using counters_range [OF b] by simp
    from request_proc_spec [OF D1(1) _ this, of False]
    obtain s2 where s2: "request_vmexit_on_proc_ctrls False 0 0 s1 = Some s2" "vmcs_active s2" "controls_frame s1 s2"
        "counters_are b (processor_ctrls (vmexit_setup s2))"
        "\<forall>f. f \<noteq> VMCS_CONTROL_VECTOR_PROCESSOR_EVENTS \<longrightarrow> vmcs_view s2 f = vmcs_view s1 f"
      using b D1(4) by auto
    then show ?thesis
      using that s1(2) D1(2) controls_frame_trans [OF becomes_frame [OF s1(1)] s2(3)]
      by (simp add: gcpu_temp_exceptions_setup_def vmm_assert_def)
  qed
qed


lemma gcpu_example_view: "vmcs_view gcpu_example f = 0"
  by (simp add: gcpu_example_def vmcs_object.defs guest_cpu.defs vmcs_view_def vmcs_example_def cache_lookup_def
      vmcs_hw_def)


section \<open>Reflection of an exception\<close>

lemma becomes_registers:
  assumes "vmcs_becomes s V s1"
  shows "vmcs_becomes (s \<lparr> save_area_gp := g \<rparr>) V (s1 \<lparr> save_area_gp := g \<rparr>)"
proof -
  obtain c where "s1 = s \<lparr> vmcs_cache := c \<rparr>" using assms by (auto simp: vmcs_becomes_def)
  then have "s1 \<lparr> save_area_gp := g \<rparr> = s \<lparr> save_area_gp := g, vmcs_cache := c \<rparr>" by simp
  then have "\<exists>c. s1 \<lparr> save_area_gp := g \<rparr> = s \<lparr> save_area_gp := g, vmcs_cache := c \<rparr>" by blast
  then show ?thesis using vmcs_becomesD(1-3) [OF assms] unfolding vmcs_becomes_def guest_cpu_vmcs guest_cpu_view by blast
qed

lemma event_blocked_clear [simp]: "event_blocked i (info_clear_reserved info) \<longleftrightarrow> event_blocked i info"
  by (simp add: event_blocked_def)

lemma reinject_exception_yields:
  assumes "vmcs_becomes s V s1" "info_type info \<in> {3, 6}"
    "chk \<Longrightarrow> \<not> bit (state_flags s1) GCPU_EXCEPTION_RESOLUTION_REQUIRED_FLAG"
    "\<not> bit (V VMCS_EXIT_INFO_IDT_VECTORING) INFO_Valid"
    "\<not> event_blocked (ucast (V VMCS_GUEST_INTERRUPTIBILITY)) info"
  shows "yields (vmcs_becomes s (entry_fields (exit_event stack V info) V)) (gcpu_reinject_vmexit_exception chk stack info s1)"
proof -
  let ?e = "stack \<lparr> interrupt_info := info_clear_reserved info \<rparr>"
  let ?e1 = "if bit info INFO_DeliverCode then ?e \<lparr> error_code := V VMCS_EXIT_INFO_EXCEPTION_ERROR_CODE \<rparr> else ?e"
  let ?P = "\<lambda>e (s', e'). vmcs_becomes s V s' \<and> state_flags s' = state_flags s1 \<and> e' = e"
  have fl: "state_flags s' = state_flags s1" if "vmcs_becomes s V s'" for s'
    using vmcs_becomesD(7) [OF that] vmcs_becomesD(7) [OF assms(1)] by simp
  have one: "yields (?P ?e1)
      (if bit info INFO_DeliverCode then Option.bind (vmcs_read chk VMCS_EXIT_INFO_EXCEPTION_ERROR_CODE s1)
         (\<lambda>(s, v). Some (s, ?e \<lparr> error_code := v \<rparr>)) else Some (s1, ?e))"
  proof (cases "bit info INFO_DeliverCode")
    case True
    then show ?thesis
      by (simp only: if_True, intro yields_read [OF assms(1)]) (simp_all add: yields_def fl)
  qed (simp add: yields_Some assms(1))
  have two: "yields (?P (exit_event stack V info))
      (if info_type info = VmEnterInterruptTypeSoftwareException
       then Option.bind (vmcs_read chk VMCS_EXIT_INFO_INSTRUCTION_LENGTH s2)
         (\<lambda>(s, v). Some (s, ?e1 \<lparr> instruction_length := ucast v \<rparr>)) else Some (s2, ?e1))"
    if "vmcs_becomes s V s2" for s2
  proof (cases "info_type info = VmEnterInterruptTypeSoftwareException")
    case True
    then show ?thesis
      by (simp only: if_True simp_thms, intro yields_read [OF that]) (simp_all add: yields_def fl exit_event_def)
  qed (simp add: yields_Some that fl exit_event_def)
  have "known_type (interrupt_info (exit_event stack V info))"
    "\<not> event_blocked (ucast (V VMCS_GUEST_INTERRUPTIBILITY)) (interrupt_info (exit_event stack V info))"
    using assms(2,5) by (auto simp: known_type_def exit_event_def)
  then have three: "yields (\<lambda>(s', e', allowed). vmcs_becomes s (entry_fields (exit_event stack V info) V) s' \<and> allowed)
      (gcpu_inject_event chk (exit_event stack V info) s3)" if "vmcs_becomes s V s3" for s3
    using inject_event_allowed [OF that _ _ assms(4)] assms(3) fl [OF that] by simp
  show ?thesis
    unfolding gcpu_reinject_vmexit_exception_def Let_def copy_exception_to_vmenter_exception_def
    by (rule yields_bind [OF one], clarify, rule yields_bind [OF two], assumption, clarify,
        rule yields_bind [OF three], assumption)
      (auto intro: yields_Some)
qed

lemma reflect_exception_yields:
  assumes "vmcs_becomes s V s1" "info_type info \<in> {3, 6}" "length (save_area_gp s) = IA32_REG_GP_COUNT"
    "chk \<Longrightarrow> \<not> bit (state_flags s1) GCPU_EXCEPTION_RESOLUTION_REQUIRED_FLAG"
    "\<not> bit (V VMCS_EXIT_INFO_IDT_VECTORING) INFO_Valid"
    "\<not> event_blocked (ucast (V VMCS_GUEST_INTERRUPTIBILITY)) info"
  shows "yields (vmcs_becomes (s \<lparr> save_area_gp := (if info_vector info = IA32_EXCEPTION_VECTOR_PAGE_FAULT
        then (save_area_gp s)[CR2_SAVE_AREA := V VMCS_EXIT_INFO_QUALIFICATION] else save_area_gp s) \<rparr>)
      (entry_fields (exit_event stack V info) V)) (reflect_exception chk stack info s1)"
proof (cases "info_vector info = IA32_EXCEPTION_VECTOR_PAGE_FAULT")
  case True
  let ?g = "(save_area_gp s)[CR2_SAVE_AREA := V VMCS_EXIT_INFO_QUALIFICATION]"
  have cr2: "yields (\<lambda>s3. vmcs_becomes (s \<lparr> save_area_gp := ?g \<rparr>) V s3 \<and> state_flags s3 = state_flags s1)
      (Option.bind (vmcs_read chk VMCS_EXIT_INFO_QUALIFICATION s1)
         (\<lambda>(s, q). gcpu_set_control_reg_layered chk IA32_CTRL_CR2 q s))"
  proof (rule yields_read [OF assms(1)])
    fix s2 assume s2: "vmcs_becomes s V s2"
    have "gcpu_set_control_reg_layered chk IA32_CTRL_CR2 (V VMCS_EXIT_INFO_QUALIFICATION) s2 =
        Some (s2 \<lparr> save_area_gp := ?g \<rparr>)"
      using vmcs_becomesD(6) [OF s2] assms(3) by (simp add: gcpu_set_control_reg_layered_def arr_set_def)
    then show "yields (\<lambda>s3. vmcs_becomes (s \<lparr> save_area_gp := ?g \<rparr>) V s3 \<and> state_flags s3 = state_flags s1)
        (gcpu_set_control_reg_layered chk IA32_CTRL_CR2 (V VMCS_EXIT_INFO_QUALIFICATION) s2)"
      using becomes_registers [OF s2, of ?g] vmcs_becomesD(7) [OF s2] vmcs_becomesD(7) [OF assms(1)]
      by (simp add: yields_def)
  qed simp
  show ?thesis
    unfolding reflect_exception_def if_P [OF True]
    by (rule yields_bind [OF cr2], rule reinject_exception_yields) (use assms(2,4-6) in auto)
next
  case False
  have "s \<lparr> save_area_gp := save_area_gp s \<rparr> = s" by simp
  then show ?thesis
    using reinject_exception_yields [OF assms(1,2,4,5,6), where stack = stack] False by (simp add: reflect_exception_def)
qed

lemma info_make_double_fault:
  "info_make True VmEnterInterruptTypeHardwareException (of_nat IA32_EXCEPTION_VECTOR_DOUBLE_FAULT) = 0x80000B08"
  by (simp add: info_make_def)

lemma inject_double_fault_yields:
  assumes "vmcs_becomes s V s1"
    "chk \<Longrightarrow> \<not> bit (state_flags s1) GCPU_EXCEPTION_RESOLUTION_REQUIRED_FLAG"
    "\<not> bit (V VMCS_EXIT_INFO_IDT_VECTORING) INFO_Valid"
  shows "yields (\<lambda>(s', _). vmcs_becomes s (V(VMCS_ENTER_INTERRUPT_INFO := 0x80000B08, VMCS_ENTER_EXCEPTION_ERROR_CODE := 0)) s')
    (gcpu_inject_double_fault chk s1)"
proof -
  let ?e = "zero_event \<lparr> interrupt_info := 0x80000B08 \<rparr>"
  have t: "info_type 0x80000B08 = 3" "info_vector 0x80000B08 = 8" by (simp_all add: info_type_def info_vector_def)
  have V: "entry_fields ?e V = V(VMCS_ENTER_INTERRUPT_INFO := 0x80000B08, VMCS_ENTER_EXCEPTION_ERROR_CODE := 0)"
    by (simp add: fun_eq_iff entry_fields_def zero_event_def t with_error_code_def isr_error_code_required_def
        entry_info_def info_make_def)
  have "yields (\<lambda>(s', e', allowed). vmcs_becomes s (entry_fields ?e V) s' \<and> allowed) (gcpu_inject_event chk ?e s1)"
    by (rule inject_event_allowed) (use assms t in \<open>auto simp: known_type_def event_blocked_def zero_event_def\<close>)
  then show ?thesis
    unfolding gcpu_inject_double_fault_def inject_result_def info_make_double_fault V
    by (rule yields_bind) (auto intro: yields_Some)
qed

text \<open>How a pair of vectors is resolved.\<close>

lemma resolution_of_vectors:
  assumes "v1 \<noteq> IA32_EXCEPTION_VECTOR_DOUBLE_FAULT" "v2 \<noteq> IA32_EXCEPTION_VECTOR_DOUBLE_FAULT"
  shows "\<exists>c1 c2. vector_to_exception_class chk v1 = Some c1 \<and> vector_to_exception_class chk v2 = Some c2 \<and>
    idt_resolution_table c1 c2 = (if double_fault v1 v2 then INJECT_DOUBLE_FAULT else INJECT_2ND_EXCEPTION)"
  using assms by (auto simp: vector_to_exception_class_def double_fault_def Let_def)

lemma resolution_triple:
  assumes "v1 = IA32_EXCEPTION_VECTOR_DOUBLE_FAULT \<or> v2 = IA32_EXCEPTION_VECTOR_DOUBLE_FAULT"
  shows "vector_to_exception_class True v1 = None \<or> vector_to_exception_class True v2 = None"
    "\<exists>c1 c2. vector_to_exception_class False v1 = Some c1 \<and> vector_to_exception_class False v2 = Some c2 \<and>
      idt_resolution_table c1 c2 = TEAR_DOWN_GUEST"
  using assms by (auto simp: vector_to_exception_class_def)

text \<open>The reflection after it has read the two descriptions.\<close>

lemma reflect_prefix:
  assumes "vmcs_active s"
  defines "first \<equiv> ucast (vmcs_view s VMCS_EXIT_INFO_IDT_VECTORING) :: 32 word"
    and "second \<equiv> ucast (vmcs_view s VMCS_EXIT_INFO_EXCEPTION_INFO) :: 32 word"
  shows "\<exists>s1 s2. vmcs_becomes (clear_resolution_flag s) (vmcs_view s) s1 \<and>
    vmcs_becomes (clear_resolution_flag s) ((vmcs_view s)(VMCS_EXIT_INFO_IDT_VECTORING := 0)) s2 \<and>
    gcpu_vmexit_exception_reflect chk stack s =
      (if bit first INFO_Valid
       then Option.bind (vector_to_exception_class chk (info_vector first)) (\<lambda>c1.
         Option.bind (vector_to_exception_class chk (info_vector second)) (\<lambda>c2.
           resolve_exceptions chk stack second (idt_resolution_table c1 c2) s2))
       else reflect_exception chk stack second s1)"
proof -
  let ?s = "clear_resolution_flag s"
  have a: "vmcs_active ?s" "vmcs_view ?s = vmcs_view s" using assms(1) by (simp_all add: clear_resolution_flag_def)
  obtain s1 where s1: "vmcs_read chk VMCS_EXIT_INFO_IDT_VECTORING ?s = Some (s1, vmcs_view s VMCS_EXIT_INFO_IDT_VECTORING)"
      "vmcs_becomes ?s (vmcs_view s) s1"
    using read_becomes [OF a(1) active_readable [OF a(1)], of VMCS_EXIT_INFO_IDT_VECTORING chk] a(2) by auto
  note D = vmcs_becomesD [OF s1(2)]
  obtain s2 where s2: "vmcs_read chk VMCS_EXIT_INFO_EXCEPTION_INFO s1 = Some (s2, vmcs_view s VMCS_EXIT_INFO_EXCEPTION_INFO)"
      "vmcs_becomes s1 (vmcs_view s) s2"
    using read_becomes [OF D(1) active_readable [OF D(1)], of VMCS_EXIT_INFO_EXCEPTION_INFO chk] D(2) by auto
  note s2' = vmcs_becomes_trans [OF s1(2) s2(2)]
  note D2 = vmcs_becomesD [OF s2']
  obtain s3 where "vmcs_write chk VMCS_EXIT_INFO_IDT_VECTORING 0 s2 = Some s3"
      "vmcs_becomes s2 ((vmcs_view s)(VMCS_EXIT_INFO_IDT_VECTORING := 0)) s3"
    using write_becomes [OF D2(1) active_writeable [OF D2(1)], of VMCS_EXIT_INFO_IDT_VECTORING chk 0] D2(2) by auto
  then show ?thesis
    using s1(1) s2(1) s2' vmcs_becomes_trans [OF s2']
    unfolding gcpu_vmexit_exception_reflect_def first_def second_def Let_def
    by (intro exI [of _ s2] exI [of _ s3]) simp
qed

lemma clear_resolution_flag_simps [simp]:
  "\<not> bit (state_flags (clear_resolution_flag s)) GCPU_EXCEPTION_RESOLUTION_REQUIRED_FLAG"
  "save_area_gp (clear_resolution_flag s) = save_area_gp s"
  by (simp_all add: clear_resolution_flag_def bit_simps)

text \<open>The four ways in which it goes on.\<close>

lemma reflect_cases:
  assumes "vmcs_active s"
  defines "v1 \<equiv> info_vector (ucast (vmcs_view s VMCS_EXIT_INFO_IDT_VECTORING))"
    and "second \<equiv> ucast (vmcs_view s VMCS_EXIT_INFO_EXCEPTION_INFO) :: 32 word"
    and "nested \<equiv> bit (vmcs_view s VMCS_EXIT_INFO_IDT_VECTORING) INFO_Valid"
  defines "triple \<equiv> v1 = IA32_EXCEPTION_VECTOR_DOUBLE_FAULT \<or> info_vector second = IA32_EXCEPTION_VECTOR_DOUBLE_FAULT"
  shows "\<exists>s1 s2. vmcs_becomes (clear_resolution_flag s) (vmcs_view s) s1 \<and>
    vmcs_becomes (clear_resolution_flag s) ((vmcs_view s)(VMCS_EXIT_INFO_IDT_VECTORING := 0)) s2 \<and>
    (nested \<and> triple \<longrightarrow> gcpu_vmexit_exception_reflect chk stack s = (if chk then None else Some s2)) \<and>
    (nested \<and> \<not> triple \<and> double_fault v1 (info_vector second) \<longrightarrow>
      gcpu_vmexit_exception_reflect chk stack s = Option.bind (gcpu_inject_double_fault chk s2) (\<lambda>(s, _). Some s)) \<and>
    ((nested \<longrightarrow> \<not> triple \<and> \<not> double_fault v1 (info_vector second)) \<longrightarrow>
      gcpu_vmexit_exception_reflect chk stack s = reflect_exception chk stack second (if nested then s2 else s1))"
proof -
  obtain s1 s2 where s: "vmcs_becomes (clear_resolution_flag s) (vmcs_view s) s1"
      "vmcs_becomes (clear_resolution_flag s) ((vmcs_view s)(VMCS_EXIT_INFO_IDT_VECTORING := 0)) s2"
    and r: "gcpu_vmexit_exception_reflect chk stack s =
      (if nested
       then Option.bind (vector_to_exception_class chk v1) (\<lambda>c1.
         Option.bind (vector_to_exception_class chk (info_vector second)) (\<lambda>c2.
           resolve_exceptions chk stack second (idt_resolution_table c1 c2) s2))
       else reflect_exception chk stack second s1)"
    using reflect_prefix [OF assms(1), of chk stack] unfolding v1_def second_def nested_def valid_bit by blast
  have "gcpu_vmexit_exception_reflect chk stack s = None" if "nested" "triple" "chk"
    using r that resolution_triple(1) [of v1 "info_vector second"] unfolding triple_def
    by (cases "vector_to_exception_class True v1") auto
  moreover have "gcpu_vmexit_exception_reflect chk stack s = Some s2" if "nested" "triple" "\<not> chk"
    using r that resolution_triple(2) [of v1 "info_vector second"] unfolding triple_def
    by (auto simp: resolve_exceptions_def)
  moreover have "gcpu_vmexit_exception_reflect chk stack s = Option.bind (gcpu_inject_double_fault chk s2) (\<lambda>(s, _). Some s)"
    if "nested" "\<not> triple" "double_fault v1 (info_vector second)"
    using r that resolution_of_vectors [of v1 "info_vector second" chk] unfolding triple_def
    by (auto simp: resolve_exceptions_def)
  moreover have "gcpu_vmexit_exception_reflect chk stack s = reflect_exception chk stack second (if nested then s2 else s1)"
    if "nested \<longrightarrow> \<not> triple \<and> \<not> double_fault v1 (info_vector second)"
    using r that resolution_of_vectors [of v1 "info_vector second" chk] unfolding triple_def
    by (auto simp: resolve_exceptions_def)
  ultimately show ?thesis using s by (intro exI [of _ s1] exI [of _ s2]) simp
qed



end
