(* ===== verification/VmmGuestSteps.thy ===== *)
theory VmmGuestSteps
  imports VmmGuestEvent
begin

unbundle bit_operations_syntax

text \<open>
  Sequences of operations on a guest CPU between two VM entries.  The operations of the control, register
  and event components share one contract: an invariant of the guest CPU that survives accesses to the
  VMCS and updates of the fields the components own survives every operation, whatever it is asked to do.
\<close>

section \<open>Steps\<close>

inductive guest_step :: "bool \<Rightarrow> 'a guest_cpu_scheme \<Rightarrow> 'a guest_cpu_scheme \<Rightarrow> bool" for chk where
  pin: "request_vmexit_on_pin_ctrls chk r m s = Some s' \<Longrightarrow> guest_step chk s s'"
| proc: "request_vmexit_on_proc_ctrls chk r m s = Some s' \<Longrightarrow> guest_step chk s s'"
| proc2: "request_vmexit_on_proc_ctrls2 chk r m s = Some s' \<Longrightarrow> guest_step chk s s'"
| exceptions: "request_vmexit_on_exceptions chk r m s = Some s' \<Longrightarrow> guest_step chk s s'"
| vm_exit: "request_vmexit_on_vm_exit_ctrls chk r m s = Some s' \<Longrightarrow> guest_step chk s s'"
| vm_enter: "request_vmexit_on_vm_enter_ctrls chk r m s = Some s' \<Longrightarrow> guest_step chk s s'"
| ctrl_cr0: "request_vmexit_on_cr0 chk R M s = Some s' \<Longrightarrow> guest_step chk s s'"
| ctrl_cr4: "request_vmexit_on_cr4 chk R M s = Some s' \<Longrightarrow> guest_step chk s s'"
| several: "gcpu_control_setup_only chk request s = Some s' \<Longrightarrow> guest_step chk s s'"
| apply_all: "gcpu_control_apply_only chk s = Some s' \<Longrightarrow> guest_step chk s s'"
| gp_reg: "gcpu_set_native_gp_reg_layered chk reg v s = Some s' \<Longrightarrow> guest_step chk s s'"
| ctrl_reg: "gcpu_set_control_reg_layered chk reg v s = Some s' \<Longrightarrow> guest_step chk s s'"
| visible_reg: "gcpu_set_guest_visible_control_reg_layered chk reg v s = Some s' \<Longrightarrow> guest_step chk s s'"
| skip: "gcpu_skip_guest_instruction chk s = Some s' \<Longrightarrow> guest_step chk s s'"
| event: "gcpu_inject_event chk e s = Some (s', e', b) \<Longrightarrow> guest_step chk s s'"

text \<open>The NMI window is recorded for the CPU, and the VMCS can be flushed.\<close>

definition nmi_waiting :: "'a guest_cpu_scheme \<Rightarrow> bool" where
  "nmi_waiting s \<longleftrightarrow> vmcs_active s \<and> vmcs_synced s \<and> nmi_window s"

section \<open>Invariants of a guest CPU\<close>

locale guest_invariant =
  fixes I :: "'a guest_cpu_scheme \<Rightarrow> bool"
  assumes I_active: "I s \<Longrightarrow> vmcs_active s"
    and I_becomes: "I s \<Longrightarrow> vmcs_becomes s V s' \<Longrightarrow> I s'"
    and I_setup: "I s \<Longrightarrow> I (s \<lparr> vmexit_setup := v \<rparr>)"
    and I_registers: "I s \<Longrightarrow> I (s \<lparr> save_area_gp := g \<rparr>)"
    and I_flags: "I s \<Longrightarrow> I (s \<lparr> state_flags := w \<rparr>)"
    and I_counter: "I s \<Longrightarrow> I (s \<lparr> num_blocked_nmi_injections_to_guest := n \<rparr>)"
    and I_window: "I s \<Longrightarrow> I (s \<lparr> nmi_window := True \<rparr>)"
begin

lemma read_keeps:
  assumes "I s" "f \<in> {2..28} \<union> {30..42} \<union> {44..46} \<union> {49..100} \<union> {108..127} \<union> {131..134}"
  shows "ensures (vmcs_read chk f s) (\<lambda>(s', _). I s')"
proof -
  note a = I_active [OF assms(1)]
  obtain s' where "vmcs_read chk f s = Some (s', vmcs_view s f)" "vmcs_becomes s (vmcs_view s) s'"
    using read_becomes [OF a active_readable [OF a assms(2)], of chk] by blast
  then show ?thesis using I_becomes [OF assms(1)] by (auto simp: ensures_def)
qed

lemma write_keeps:
  assumes "I s" "f \<in> {2..28} \<union> {34} \<union> {44..46} \<union> {49..100} \<union> {108..127} \<union> {131..134}"
  shows "ensures (vmcs_write chk f v s) I"
proof -
  note a = I_active [OF assms(1)]
  obtain s' where "vmcs_write chk f v s = Some s'" "vmcs_becomes s ((vmcs_view s)(f := v)) s'"
    using write_becomes [OF a active_writeable [OF a assms(2)], of chk v] by blast
  then show ?thesis using I_becomes [OF assms(1)] by (auto simp: ensures_def)
qed

lemma update_keeps:
  assumes "I s" "f \<in> {2..28} \<union> {44..46} \<union> {49..100} \<union> {108..127} \<union> {131..134}"
  shows "ensures (vmcs_update chk f v m s) I"
proof -
  note a = I_active [OF assms(1)]
  have f: "field_readable s f" "field_writeable s f"
    using active_readable [OF a, of f] active_writeable [OF a, of f] assms(2) by auto
  obtain V s' where "vmcs_update chk f v m s = Some s'" "vmcs_becomes s V s'"
    using update_becomes [OF a f, of chk v m] by blast
  then show ?thesis using I_becomes [OF assms(1)] by (auto simp: ensures_def)
qed

end

section \<open>Rules for results\<close>

lemma ensures_bind: "ensures m P \<Longrightarrow> (\<And>r. P r \<Longrightarrow> ensures (k r) Q) \<Longrightarrow> ensures (Option.bind m k) Q"
  by (auto simp: ensures_def bind_eq_Some_conv)

lemma ensures_bind_pair:
  "ensures m (\<lambda>(s, _). P s) \<Longrightarrow> (\<And>s v. P s \<Longrightarrow> ensures (k s v) Q) \<Longrightarrow> ensures (Option.bind m (case_prod k)) Q"
  by (auto simp: ensures_def bind_eq_Some_conv)

lemma ensures_if: "ensures m P \<Longrightarrow> ensures n P \<Longrightarrow> ensures (if c then m else n) P"
  by simp

lemma ensures_any: "(\<And>r. ensures (k r) P) \<Longrightarrow> ensures (Option.bind m k) P"
  by (auto simp: ensures_def bind_eq_Some_conv)

lemma ensures_deadloop: "ensures (k ()) P \<Longrightarrow> ensures (Option.bind (vmm_deadloop chk) k) P"
  by (auto simp: ensures_def bind_eq_Some_conv)

section \<open>Every operation keeps an invariant\<close>

context guest_invariant
begin

lemma calculate_32_keeps:
  assumes "I s"
  shows "ensures (calculate_32 get put chk r m s) (\<lambda>(s', _). I s')"
  using I_setup [OF assms] by (auto simp: calculate_32_def ensures_def bind_eq_Some_conv)

lemma calculate_64_keeps:
  assumes "I s"
  shows "ensures (calculate_64 get put chk r m s) (\<lambda>(s', _). I s')"
  using I_setup [OF assms] by (auto simp: calculate_64_def ensures_def bind_eq_Some_conv)

lemma write_if_changed_keeps:
  assumes "I s" "f \<in> {2..28} \<union> {44..46} \<union> {49..100} \<union> {108..127} \<union> {131..134}"
  shows "ensures (write_if_changed chk f v s) I"
  unfolding write_if_changed_def
  by (rule ensures_bind_pair [OF read_keeps [OF assms(1)]]) (use assms(2) in \<open>auto intro!: write_keeps ensures_Some\<close>)

lemma processor_ctrls_keeps:
  assumes "I s"
  shows "ensures (gcpu_set_processor_ctrls_layered chk v s) I"
  unfolding gcpu_set_processor_ctrls_layered_def
  by (rule ensures_bind_pair [OF read_keeps [OF assms]]) (auto intro!: write_keeps ensures_Some)

lemma requests_32_keep:
  assumes "I s"
  shows "ensures (request_vmexit_on_pin_ctrls chk r m s) I" "ensures (request_vmexit_on_proc_ctrls chk r m s) I"
    "ensures (request_vmexit_on_proc_ctrls2 chk r m s) I" "ensures (request_vmexit_on_vm_exit_ctrls chk r m s) I"
    "ensures (request_vmexit_on_vm_enter_ctrls chk r m s) I"
  unfolding request_vmexit_on_pin_ctrls_def request_vmexit_on_proc_ctrls_def request_vmexit_on_proc_ctrls2_def
    request_vmexit_on_vm_exit_ctrls_def request_vmexit_on_vm_enter_ctrls_def calculate_pin_ctrls_def
    calculate_processor_ctrls_def calculate_processor_ctrls2_def calculate_exit_ctrls_def calculate_enter_ctrls_def
    gcpu_set_pin_ctrls_layered_def gcpu_set_processor_ctrls2_layered_def gcpu_set_exit_ctrls_layered_def
    gcpu_set_enter_ctrls_for_addons_def Let_def
  by (auto intro!: ensures_if ensures_bind_pair [OF calculate_32_keeps [OF assms]] ensures_assert ensures_Some
      write_if_changed_keeps processor_ctrls_keeps update_keeps assms
      ensures_bind_pair [OF ensures_assert, OF calculate_32_keeps [OF assms]])

lemma request_exceptions_keeps:
  assumes "I s"
  shows "ensures (request_vmexit_on_exceptions chk r m s) I"
proof -
  have c: "ensures (calculate_exceptions_map chk r m s) (\<lambda>(s', _). I s')"
    unfolding calculate_exceptions_map_def
    by (rule ensures_bind_pair [OF calculate_32_keeps [OF assms]]) (simp add: ensures_Some Let_def)
  have u: "ensures (update_pfs_setup chk policy s1) I" if "I s1" for policy s1
    unfolding update_pfs_setup_def gcpu_get_exceptions_map_layered_def gcpu_set_pf_error_code_mask_and_match_layered_def Let_def
    by (rule ensures_bind_pair [OF read_keeps [OF that]])
      (auto split: exceptions_policy_type.splits intro!: ensures_bind [OF write_keeps] write_keeps)
  show ?thesis
    unfolding request_vmexit_on_exceptions_def gcpu_set_exceptions_map_layered_def
    by (rule ensures_bind_pair [OF c]) (auto split: prod.splits intro!: ensures_bind [OF write_if_changed_keeps] u)
qed

lemma request_control_registers_keep:
  assumes "I s"
  shows "ensures (request_vmexit_on_cr0 chk R M s) I" "ensures (request_vmexit_on_cr4 chk R M s) I"
  unfolding request_vmexit_on_cr0_def request_vmexit_on_cr4_def calculate_cr0_reg_mask_def calculate_cr4_reg_mask_def
    gcpu_set_cr0_reg_mask_layered_def gcpu_set_cr4_reg_mask_layered_def Let_def
  by (auto intro!: ensures_bind_pair [OF calculate_64_keeps [OF assms]] ensures_bind [OF write_if_changed_keeps]
      ensures_bind_pair [OF read_keeps] write_keeps)

lemma apply_all_keeps:
  assumes "I s"
  shows "ensures (gcpu_apply_all chk s) I"
  unfolding gcpu_apply_all_def
  by (intro ensures_bind [OF requests_32_keep(1) [OF assms]] ensures_bind [OF requests_32_keep(2)]
      ensures_bind [OF requests_32_keep(3)] ensures_bind [OF request_exceptions_keeps] ensures_bind [OF requests_32_keep(4)]
      ensures_bind [OF requests_32_keep(5)] ensures_bind [OF request_control_registers_keep(1)]
      request_control_registers_keep(2); assumption)

lemma setup_only_keeps:
  assumes "I s"
  shows "ensures (gcpu_control_setup_only chk request s) I" "ensures (gcpu_control_apply_only chk s) I"
proof -
  show "ensures (gcpu_control_setup_only chk request s) I"
    unfolding gcpu_control_setup_only_def Let_def by (intro ensures_any ensures_Some I_setup assms)
  show "ensures (gcpu_control_apply_only chk s) I"
    unfolding gcpu_control_apply_only_def with_setup_lock_def
    by (rule ensures_any, rule ensures_bind [OF apply_all_keeps [OF I_setup [OF assms]]])
      (auto intro: ensures_Some I_setup)
qed

lemma registers_keep:
  assumes "I s"
  shows "ensures (gcpu_set_native_gp_reg_layered chk reg v s) I" "ensures (gcpu_set_control_reg_layered chk reg v s) I"
    "ensures (gcpu_skip_guest_instruction chk s) I" "ensures (gcpu_get_native_gp_reg_layered chk reg s) (\<lambda>(s', _). I s')"
proof -
  have g: "ensures (Option.bind m (\<lambda>g. Some (s \<lparr> save_area_gp := g \<rparr>))) I" for m
    by (intro ensures_any ensures_Some I_registers assms)
  show "ensures (gcpu_set_native_gp_reg_layered chk reg v s) I" "ensures (gcpu_set_control_reg_layered chk reg v s) I"
    unfolding gcpu_set_native_gp_reg_layered_def gcpu_set_control_reg_layered_def
    by (intro ensures_assert ensures_if write_keeps assms g ensures_deadloop ensures_Some; simp)+
  show "ensures (gcpu_skip_guest_instruction chk s) I"
    unfolding gcpu_skip_guest_instruction_def Let_def
    by (auto intro!: ensures_bind_pair [OF read_keeps] write_keeps assms)
  show "ensures (gcpu_get_native_gp_reg_layered chk reg s) (\<lambda>(s', _). I s')"
    unfolding gcpu_get_native_gp_reg_layered_def
    by (intro ensures_assert ensures_if read_keeps assms ensures_any ensures_Some) (auto intro: assms)
qed

lemma visible_register_keeps:
  assumes "I s"
  shows "ensures (gcpu_set_guest_visible_control_reg_layered chk reg v s) I"
  unfolding gcpu_set_guest_visible_control_reg_layered_def
  by (auto intro!: ensures_any ensures_Some I_registers I_flags write_keeps registers_keep(2) assms)

lemma inject_event_keeps:
  assumes "I s"
  shows "ensures (gcpu_inject_event chk e s) (\<lambda>(s', _). I s')"
proof -
  have a: "ensures (inject_allowed_event chk e s1) (\<lambda>(s', _). I s')" if "I s1" for s1
    unfolding inject_allowed_event_def Let_def
    by (rule ensures_bind_pair [where P = I])
      (auto intro!: ensures_bind [OF write_keeps] ensures_Some that)
  have n: "ensures (gcpu_set_pending_nmi chk True s1) I" if "I s1" for s1
    unfolding gcpu_set_pending_nmi_def vmcs_write_nmi_window_bit_def nmi_window_set_def
    by (auto intro!: ensures_bind [OF update_keeps] ensures_Some I_window that)
  have t: "ensures (gcpu_temp_exceptions_setup chk GCPU_TEMP_EXIT_ON_INTR_UNBLOCK s1) I" if "I s1" for s1
    unfolding gcpu_temp_exceptions_setup_def by (rule ensures_assert) (simp add: requests_32_keep(2) [OF that])
  show ?thesis
    unfolding gcpu_inject_event_def
    by (rule ensures_assert, rule ensures_bind_pair [OF read_keeps [OF assms]], simp,
        rule ensures_bind_pair [where P = I])
      (auto intro!: ensures_bind_pair [OF read_keeps] ensures_bind_pair [OF a] ensures_bind [OF n] ensures_bind [OF t]
        ensures_any [where m = "injection_allowed c i w" for c i w] ensures_Some simp: ipc_mni_injection_failed_def I_counter)
qed

lemmas operations_keep = requests_32_keep request_exceptions_keeps request_control_registers_keep setup_only_keeps
  registers_keep(1-3) visible_register_keeps

lemma guest_step_keeps:
  assumes "guest_step chk s s'" "I s"
  shows "I s'"
  using assms(1)
proof cases
  case (event e e' b)
  then show ?thesis using ensuresD [OF inject_event_keeps [OF assms(2)]] by fastforce
qed (erule ensuresD [rotated], rule operations_keep [OF assms(2)])+

lemma guest_steps_keep: "(guest_step chk)\<^sup>*\<^sup>* s s' \<Longrightarrow> I s \<Longrightarrow> I s'"
  by (induction rule: rtranclp_induct) (blast intro: guest_step_keeps)+

end

section \<open>A waiting NMI\<close>

interpretation waiting: guest_invariant nmi_waiting
  by unfold_locales (auto simp: nmi_waiting_def dest: vmcs_becomesD(1,3,11))

end
